(* ===== verification/Neth_Prelude.thy ===== *)
theory Neth_Prelude
  imports Main "HOL-Library.Word"
begin

text \<open>
  Shared vocabulary of the development: the fixed-width integers of Go as words, byte slices as
  lists of 8-bit words, the fixed-width readers and writers of \<^verbatim>\<open>encoding/binary\<close>, the result type of
  fallible code, and the facts on lists, maps and words the component theories share.  The two
  collections below carry the component proofs: \<open>inv_keeps\<close> gathers the facts that an operation keeps the
  invariant of its component, \<open>res_splits\<close> splits the case distinctions of error-passing code.
\<close>

unbundle bit_operations_syntax

named_theorems inv_keeps \<open>operations keep the invariant of their component\<close>

section \<open>Machine types\<close>

type_synonym byte = "8 word"
type_synonym u16 = "16 word"
type_synonym u32 = "32 word"
type_synonym u64 = "64 word"
type_synonym bytes = "byte list"

text \<open>
  A fallible Go function returns \<^verbatim>\<open>(value, error)\<close>; its model returns \<open>Inl\<close> of an error value of the
  component's own error datatype, or \<open>Inr\<close> of the result.
\<close>

type_synonym ('e, 'a) res = "'e + 'a"

definition is_ok :: "('e, 'a) res \<Rightarrow> bool" where
  "is_ok r = (case r of Inl _ \<Rightarrow> False | Inr _ \<Rightarrow> True)"

lemma is_ok_simps [simp]: "is_ok (Inr x)" "\<not> is_ok (Inl e)"
  by (simp_all add: is_ok_def)

lemma is_ok_iff: "is_ok r \<longleftrightarrow> (\<exists>x. r = Inr x)"
  by (cases r) simp_all

lemmas res_splits = sum.splits option.splits prod.splits if_splits

section \<open>encoding/binary\<close>

text \<open>
  \<^verbatim>\<open>binary.BigEndian.Uint16/32/64\<close> and \<^verbatim>\<open>PutUint16/32/64\<close>, at any width; the little-endian variants
  read and write the bytes in the opposite order.
\<close>

definition get_be :: "bytes \<Rightarrow> 'a::len word" where
  "get_be bs = foldl (\<lambda>acc b. push_bit 8 acc OR ucast b) 0 bs"

definition put_be :: "nat \<Rightarrow> 'a::len word \<Rightarrow> bytes" where
  "put_be n w = map (\<lambda>i. ucast (drop_bit (8 * (n - 1 - i)) w)) [0..<n]"

definition get_le :: "bytes \<Rightarrow> 'a::len word" where
  "get_le bs = get_be (rev bs)"

definition put_le :: "nat \<Rightarrow> 'a::len word \<Rightarrow> bytes" where
  "put_le n w = rev (put_be n w)"

lemma length_put_be [simp]: "length (put_be n w) = n"
  by (simp add: put_be_def)

lemma length_put_le [simp]: "length (put_le n w) = n"
  by (simp add: put_le_def)

lemma bit_get_be:
  "bit (get_be bs :: 'a::len word) k \<longleftrightarrow>
     k < LENGTH('a) \<and> k < 8 * length bs \<and> bit (bs ! (length bs - 1 - k div 8)) (k mod 8)"
proof (induction bs arbitrary: k rule: rev_induct)
  case Nil
  then show ?case by (simp add: get_be_def)
next
  case (snoc b bs)
  have step: "get_be (bs @ [b]) = push_bit 8 (get_be bs :: 'a word) OR ucast b"
    by (simp add: get_be_def)
  show ?case
  proof (cases "k < 8")
    case True
    then show ?thesis by (simp add: step bit_simps)
  next
    case False
    then have idx: "length bs - Suc ((k - 8) div 8) = length bs - k div 8"
      and md: "(k - 8) mod 8 = k mod 8" and d: "0 < k div 8"
      by (simp_all add: le_div_geq le_mod_geq div_greater_zero_iff)
    have nth: "(bs @ [b]) ! (length bs - k div 8) = bs ! (length bs - k div 8)"
      if "k < 8 * length (bs @ [b])"
    proof -
      from that False have "0 < length bs" by (cases bs) simp_all
      with d show ?thesis by (simp add: nth_append)
    qed
    have nb: "\<not> bit b k" using False by (auto dest: bit_imp_le_length)
    show ?thesis using False nb nth
      by (auto simp add: step bit_simps snoc idx md)
  qed
qed

lemma get_put_be:
  fixes w :: "'a::len word"
  assumes "LENGTH('a) \<le> 8 * n"
  shows "get_be (put_be n w) = w"
proof (rule bit_word_eqI)
  fix k assume k: "k < LENGTH('a)"
  with assms have "k div 8 < n" by auto
  then have i: "n - 1 - (n - 1 - k div 8) = k div 8" "n - 1 - k div 8 < n" by auto
  show "bit (get_be (put_be n w) :: 'a word) k \<longleftrightarrow> bit w k"
    using k assms i by (simp add: bit_get_be put_be_def bit_simps)
qed

lemma put_get_be:
  assumes "length bs = n" "8 * n \<le> LENGTH('a::len)"
  shows "put_be n (get_be bs :: 'a word) = bs"
proof (rule nth_equalityI)
  show "length (put_be n (get_be bs :: 'a word)) = length bs" using assms by simp
next
  fix i assume i: "i < length (put_be n (get_be bs :: 'a word))"
  show "put_be n (get_be bs :: 'a word) ! i = bs ! i"
  proof (rule bit_word_eqI)
    fix k assume k: "k < LENGTH(8)"
    have "n - 1 - i + k div 8 = n - 1 - i" "8 * (n - 1 - i) + k < 8 * n"
      using k i by auto
    then show "bit (put_be n (get_be bs :: 'a word) ! i) k \<longleftrightarrow> bit (bs ! i) k"
      using i k assms by (simp add: put_be_def bit_simps bit_get_be)
  qed
qed

lemma get_put_be_widths [simp]:
  "get_be (put_be 2 (w16 :: u16)) = w16"
  "get_be (put_be 4 (w32 :: u32)) = w32"
  "get_be (put_be 8 (w64 :: u64)) = w64"
  by (simp_all add: get_put_be)

lemma get_put_le_width [simp]: "get_le (put_le 8 (w64 :: u64)) = w64"
  by (simp add: get_le_def put_le_def)

lemma bit_small_word:
  fixes v :: "'a::len word"
  assumes "unat v < 2 ^ m" "bit v k"
  shows "k < m"
proof -
  from assms(2) have "bit (unat v) k" by (simp add: bit_unsigned_iff possible_bit_def)
  moreover from assms(1) have "take_bit m (unat v) = unat v" by (rule take_bit_nat_eq_self)
  ultimately show ?thesis by (metis bit_take_bit_iff)
qed

lemma and_15_take_bit: "w AND 15 = take_bit 4 w" for w :: byte
  by (simp add: take_bit_eq_mask mask_eq_exp_minus_1)

section \<open>Lists and slices\<close>

text \<open>The Go slice expression \<^verbatim>\<open>b[i:j]\<close> inside the bounds.\<close>

definition slice :: "nat \<Rightarrow> nat \<Rightarrow> 'a list \<Rightarrow> 'a list" where
  "slice i j xs = take (j - i) (drop i xs)"

lemma length_slice [simp]: "j \<le> length xs \<Longrightarrow> length (slice i j xs) = j - i"
  by (simp add: slice_def)

lemma slice_append_left [simp]: "j \<le> length xs \<Longrightarrow> slice i j (xs @ ys) = slice i j xs"
  by (simp add: slice_def)

lemma slice_concat: "i \<le> j \<Longrightarrow> j \<le> k \<Longrightarrow> slice i j xs @ slice j k xs = slice i k xs"
  using take_add [of "j - i" "k - j" "drop i xs"] by (simp add: slice_def)

lemma slice_full: "length xs = n \<Longrightarrow> slice 0 n xs = xs"
  by (simp add: slice_def)

end
