(* ===== verification/Neth_Text.thy ===== *)
theory Neth_Text
  imports Neth_Prelude
begin

text \<open>
  The parts of Go's \<^verbatim>\<open>strings\<close> and \<^verbatim>\<open>strconv\<close> the program uses.  A Go string is its sequence of UTF-8
  bytes, a list of \<open>char\<close> here.
\<close>

section \<open>strconv\<close>

definition code :: "char \<Rightarrow> nat" where
  "code c = of_char c"

definition is_digit :: "char \<Rightarrow> bool" where
  "is_digit c \<longleftrightarrow> 48 \<le> code c \<and> code c \<le> 57"

definition digit_val :: "char \<Rightarrow> nat" where
  "digit_val c = code c - 48"

definition digit_char :: "nat \<Rightarrow> char" where
  "digit_char n = char_of (48 + n)"

lemma code_char_of [simp]: "n < 256 \<Longrightarrow> code (char_of n) = n"
  by (simp add: code_def)

lemma digit_char [simp]:
  "d < 10 \<Longrightarrow> is_digit (digit_char d)" "d < 10 \<Longrightarrow> digit_val (digit_char d) = d"
  by (simp_all add: is_digit_def digit_val_def digit_char_def)

text \<open>\<^verbatim>\<open>strconv.Itoa\<close> and \<^verbatim>\<open>%d\<close> on a non-negative number.\<close>

fun itoa :: "nat \<Rightarrow> string" where
  "itoa n = (if n < 10 then [digit_char n] else itoa (n div 10) @ [digit_char (n mod 10)])"

declare itoa.simps [simp del]

definition decimal_val :: "string \<Rightarrow> int" where
  "decimal_val s = foldl (\<lambda>acc c. 10 * acc + int (digit_val c)) 0 s"

text \<open>
  \<^verbatim>\<open>strconv.ParseUint(s, 10, bits)\<close>: no sign, no underscore, at least one digit, and the value must fit;
  \<open>None\<close> stands for both error kinds, which the program does not tell apart.
\<close>

definition ParseUint :: "string \<Rightarrow> nat \<Rightarrow> int option" where
  "ParseUint s bits =
     (if s = [] \<or> \<not> list_all is_digit s \<or> 2 ^ bits \<le> decimal_val s then None
      else Some (decimal_val s))"

lemma itoa_nonempty [simp]: "itoa n \<noteq> []"
  by (subst itoa.simps) simp

lemma itoa_digits: "list_all is_digit (itoa n)"
proof (induction n rule: itoa.induct)
  case (1 n)
  then show ?case by (subst itoa.simps) simp
qed

lemma decimal_val_snoc: "decimal_val (s @ [c]) = 10 * decimal_val s + int (digit_val c)"
  by (simp add: decimal_val_def)

lemma decimal_itoa: "decimal_val (itoa n) = int n"
proof (induction n rule: itoa.induct)
  case (1 n)
  show ?case
  proof (cases "n < 10")
    case True
    then show ?thesis by (subst itoa.simps) (simp add: decimal_val_def)
  next
    case False
    with 1 have "decimal_val (itoa (n div 10)) = int (n div 10)" by blast
    then show ?thesis using False
      by (subst itoa.simps) (simp add: decimal_val_snoc zdiv_int zmod_int)
  qed
qed

lemma ParseUint_itoa: "n < 2 ^ bits \<Longrightarrow> ParseUint (itoa n) bits = Some (int n)"
  by (simp add: ParseUint_def itoa_digits decimal_itoa not_le)

lemma itoa_inject: "itoa m = itoa n \<longleftrightarrow> m = n"
  by (metis decimal_itoa of_nat_eq_iff)

lemma itoa_hd: "length (itoa n) > 1 \<Longrightarrow> hd (itoa n) \<noteq> CHR ''0''"
proof (induction n rule: itoa.induct)
  case (1 n)
  show ?case
  proof (cases "n < 10")
    case True
    with 1 show ?thesis by (simp add: itoa.simps [of n])
  next
    case False
    then have i: "itoa n = itoa (n div 10) @ [digit_char (n mod 10)]" by (simp add: itoa.simps [of n])
    show ?thesis
    proof (cases "length (itoa (n div 10)) > 1")
      case True
      with 1 False i show ?thesis by simp
    next
      case small: False
      then have "n div 10 < 10" using itoa.simps [of "n div 10"] itoa_nonempty [of "n div 10 div 10"]
        by (cases "itoa (n div 10 div 10)") (auto split: if_splits)
      with False have d: "itoa (n div 10) = [digit_char (n div 10)]" "0 < n div 10" "n div 10 < 10"
        by (simp_all add: itoa.simps [of "n div 10"] div_greater_zero_iff)
      then have "digit_char (n div 10) \<noteq> CHR ''0''"
        using digit_char(2) [of "n div 10"] by (auto simp: digit_val_def code_def)
      with i d show ?thesis by simp
    qed
  qed
qed

lemma digits_no_slash: "list_all is_digit s \<Longrightarrow> CHR ''/'' \<notin> set s"
  by (auto simp: list_all_iff is_digit_def code_def)

section \<open>strings\<close>

text \<open>
  \<^verbatim>\<open>strings.TrimSpace\<close> removes leading and trailing code points that \<^verbatim>\<open>unicode.IsSpace\<close> accepts; these
  are their UTF-8 encodings.
\<close>

definition spaces :: "string list" where
  "spaces =
    [[CHR 0x09], [CHR 0x0A], [CHR 0x0B], [CHR 0x0C], [CHR 0x0D], [CHR 0x20],
     [CHR 0xC2, CHR 0x85], [CHR 0xC2, CHR 0xA0], [CHR 0xE1, CHR 0x9A, CHR 0x80],
     [CHR 0xE2, CHR 0x80, CHR 0x80], [CHR 0xE2, CHR 0x80, CHR 0x81],
     [CHR 0xE2, CHR 0x80, CHR 0x82], [CHR 0xE2, CHR 0x80, CHR 0x83],
     [CHR 0xE2, CHR 0x80, CHR 0x84], [CHR 0xE2, CHR 0x80, CHR 0x85],
     [CHR 0xE2, CHR 0x80, CHR 0x86], [CHR 0xE2, CHR 0x80, CHR 0x87],
     [CHR 0xE2, CHR 0x80, CHR 0x88], [CHR 0xE2, CHR 0x80, CHR 0x89],
     [CHR 0xE2, CHR 0x80, CHR 0x8A], [CHR 0xE2, CHR 0x80, CHR 0xA8],
     [CHR 0xE2, CHR 0x80, CHR 0xA9], [CHR 0xE2, CHR 0x80, CHR 0xAF],
     [CHR 0xE2, CHR 0x81, CHR 0x9F], [CHR 0xE3, CHR 0x80, CHR 0x80]]"

definition strip_space :: "string list \<Rightarrow> string \<Rightarrow> string option" where
  "strip_space ps s = (case find (\<lambda>p. take (length p) s = p) ps of
     None \<Rightarrow> None | Some p \<Rightarrow> Some (drop (length p) s))"

function trim_left :: "string list \<Rightarrow> string \<Rightarrow> string" where
  "trim_left ps s = (case strip_space ps s of
     None \<Rightarrow> s
   | Some s' \<Rightarrow> if length s' < length s then trim_left ps s' else s)"
  by pat_completeness auto
termination
  by (relation "measure (\<lambda>(ps, s). length s)") auto

declare trim_left.simps [simp del]

definition TrimSpace :: "string \<Rightarrow> string" where
  "TrimSpace s = rev (trim_left (map rev spaces) (rev (trim_left spaces s)))"

text \<open>
  \<^verbatim>\<open>strings.ToLower\<close>, as far as the program can see it: it compares the result with ASCII keywords
  only, and besides the ASCII capitals exactly two code points have an ASCII lower-case form
  (U+0130 and U+212A).  Every other code point is left as it is.
\<close>

fun ToLower :: "string \<Rightarrow> string" where
  "ToLower [] = []"
| "ToLower (c # cs) =
     (if take 2 (c # cs) = [CHR 0xC4, CHR 0xB0] then CHR ''i'' # ToLower (drop 1 cs)
      else if take 3 (c # cs) = [CHR 0xE2, CHR 0x84, CHR 0xAA] then CHR ''k'' # ToLower (drop 2 cs)
      else (if 65 \<le> code c \<and> code c \<le> 90 then char_of (code c + 32) else c) # ToLower cs)"

section \<open>Strings and byte slices\<close>

text \<open>The conversions \<^verbatim>\<open>[]byte(s)\<close> and \<^verbatim>\<open>string(b)\<close>.\<close>

definition str_bytes :: "string \<Rightarrow> bytes" where
  "str_bytes s = map (\<lambda>c. word_of_nat (of_char c)) s"

definition bytes_str :: "bytes \<Rightarrow> string" where
  "bytes_str b = map (\<lambda>x. char_of (unat x)) b"

lemma length_str_bytes [simp]: "length (str_bytes s) = length s"
  by (simp add: str_bytes_def)

lemma bytes_str_str_bytes [simp]: "bytes_str (str_bytes s) = s"
proof -
  have "char_of (unat (word_of_nat (of_char c) :: byte)) = c" for c
    by (simp add: unat_of_nat)
  then show ?thesis by (simp add: str_bytes_def bytes_str_def comp_def)
qed

end
