(* ===== verification/Neth_Netip.thy ===== *)
theory Neth_Netip
  imports Neth_Text
begin

text \<open>
  The parts of Go's \<^verbatim>\<open>net/netip\<close> and \<^verbatim>\<open>net\<close> the program uses: IP addresses and prefixes, their text
  forms, and UDP endpoints.  Parsing failures are \<open>None\<close>: the program only tests for the presence of
  an error.
\<close>

section \<open>netip.Addr\<close>

text \<open>The zero \<^verbatim>\<open>netip.Addr\<close> is a value of its own, different from every IPv4 and IPv6 address.\<close>

datatype Addr = AddrZero | Addr4 "32 word" | Addr6 "128 word" string

definition Is4 :: "Addr \<Rightarrow> bool" where
  "Is4 a = (case a of Addr4 _ \<Rightarrow> True | _ \<Rightarrow> False)"

definition Is6 :: "Addr \<Rightarrow> bool" where
  "Is6 a = (case a of Addr6 _ _ \<Rightarrow> True | _ \<Rightarrow> False)"

definition Zone :: "Addr \<Rightarrow> string" where
  "Zone a = (case a of Addr6 _ z \<Rightarrow> z | _ \<Rightarrow> [])"

definition BitLen :: "Addr \<Rightarrow> nat" where
  "BitLen a = (case a of AddrZero \<Rightarrow> 0 | Addr4 _ \<Rightarrow> 32 | Addr6 _ _ \<Rightarrow> 128)"

definition AddrFrom4 :: "bytes \<Rightarrow> Addr" where
  "AddrFrom4 b = Addr4 (get_be b)"

definition AddrFrom16 :: "bytes \<Rightarrow> Addr" where
  "AddrFrom16 b = Addr6 (get_be b) []"

definition As4 :: "Addr \<Rightarrow> bytes" where
  "As4 a = (case a of Addr4 w \<Rightarrow> put_be 4 w | Addr6 w _ \<Rightarrow> drop 12 (put_be 16 w) | AddrZero \<Rightarrow> [])"

text \<open>The sixteen bytes of an address; an IPv4 address in its IPv4-mapped form.\<close>

definition v4InV6Prefix :: bytes where
  "v4InV6Prefix = replicate 10 0 @ [0xff, 0xff]"

definition As16 :: "Addr \<Rightarrow> bytes" where
  "As16 a = (case a of AddrZero \<Rightarrow> replicate 16 0 | Addr4 w \<Rightarrow> v4InV6Prefix @ put_be 4 w
     | Addr6 w _ \<Rightarrow> put_be 16 w)"

lemma length_As16 [simp]: "length (As16 a) = 16"
  by (cases a) (simp_all add: As16_def v4InV6Prefix_def)

section \<open>netip.Prefix\<close>

text \<open>\<open>pfxBits\<close> is -1 for an invalid prefix, among them the zero value.\<close>

record Prefix =
  pfxAddr :: Addr
  pfxBits :: int

definition PrefixZero :: Prefix where
  "PrefixZero = \<lparr>pfxAddr = AddrZero, pfxBits = -1\<rparr>"

definition withoutZone :: "Addr \<Rightarrow> Addr" where
  "withoutZone a = (case a of Addr6 w _ \<Rightarrow> Addr6 w [] | _ \<Rightarrow> a)"

definition PrefixFrom :: "Addr \<Rightarrow> int \<Rightarrow> Prefix" where
  "PrefixFrom ip bits = \<lparr>pfxAddr = withoutZone ip,
     pfxBits = (if ip \<noteq> AddrZero \<and> 0 \<le> bits \<and> bits \<le> int (BitLen ip) then bits else -1)\<rparr>"

definition IsValid :: "Prefix \<Rightarrow> bool" where
  "IsValid p \<longleftrightarrow> pfxBits p \<noteq> -1"

definition Contains :: "Prefix \<Rightarrow> Addr \<Rightarrow> bool" where
  "Contains p ip =
     (if \<not> IsValid p \<or> Zone ip \<noteq> [] then False
      else case (pfxAddr p, ip) of
        (Addr4 a, Addr4 b) \<Rightarrow> drop_bit (32 - nat (pfxBits p)) (a XOR b) = 0
      | (Addr6 a _, Addr6 b _) \<Rightarrow> drop_bit (128 - nat (pfxBits p)) (a XOR b) = 0
      | _ \<Rightarrow> False)"

definition clear_low :: "nat \<Rightarrow> 'a::len word \<Rightarrow> 'a word" where
  "clear_low n w = push_bit n (drop_bit n w)"

definition Masked :: "Prefix \<Rightarrow> Prefix" where
  "Masked p =
     (if \<not> IsValid p then PrefixZero
      else PrefixFrom
        (case pfxAddr p of
           Addr4 a \<Rightarrow> Addr4 (clear_low (32 - nat (pfxBits p)) a)
         | Addr6 a z \<Rightarrow> Addr6 (clear_low (128 - nat (pfxBits p)) a) []
         | AddrZero \<Rightarrow> AddrZero)
        (pfxBits p))"

section \<open>Text forms\<close>

fun parseIPv4Fields :: "nat \<Rightarrow> nat \<Rightarrow> bytes \<Rightarrow> string \<Rightarrow> bytes option" where
  "parseIPv4Fields val digLen octets [] =
     (if length octets < 3 then None else Some (octets @ [of_nat val]))"
| "parseIPv4Fields val digLen octets (c # cs) =
     (if is_digit c then
        if digLen = 1 \<and> val = 0 then None
        else if val * 10 + digit_val c > 255 then None
        else parseIPv4Fields (val * 10 + digit_val c) (digLen + 1) octets cs
      else if c = CHR ''.'' then
        if digLen = 0 \<or> cs = [] \<or> length octets = 3 then None
        else parseIPv4Fields 0 0 (octets @ [of_nat val]) cs
      else None)"

definition hex_val :: "char \<Rightarrow> nat option" where
  "hex_val c = (if is_digit c then Some (digit_val c)
     else if 97 \<le> code c \<and> code c \<le> 102 then Some (code c - 87)
     else if 65 \<le> code c \<and> code c \<le> 70 then Some (code c - 55) else None)"

definition hex_number :: "string \<Rightarrow> nat" where
  "hex_number s = foldl (\<lambda>acc c. 16 * acc + (case hex_val c of None \<Rightarrow> 0 | Some d \<Rightarrow> d)) 0 s"

text \<open>
  The group loop of the IPv6 parser: bytes stored so far, position of the ellipsis, rest of the
  string.  The result is the state after the loop.
\<close>

function parseIPv6Loop ::
  "bytes \<Rightarrow> nat option \<Rightarrow> string \<Rightarrow> (bytes \<times> nat option \<times> string) option" where
  "parseIPv6Loop ip ell s =
     (if 16 \<le> length ip then Some (ip, ell, s)
      else let ds = takeWhile (\<lambda>c. hex_val c \<noteq> None) s; rest = drop (length ds) s;
               ip' = ip @ put_be 2 (of_nat (hex_number ds) :: u16)
      in if ds = [] \<or> length ds > 4 then None
         else if rest \<noteq> [] \<and> hd rest = CHR ''.'' then
           if ell = None \<and> length ip \<noteq> 12 then None
           else if length ip + 4 > 16 then None
           else map_option (\<lambda>v4. (ip @ v4, ell, [])) (parseIPv4Fields 0 0 [] s)
         else if rest = [] then Some (ip', ell, [])
         else if hd rest \<noteq> CHR '':'' \<or> length rest = 1 then None
         else if hd (tl rest) = CHR '':'' then
           if ell \<noteq> None then None
           else if tl (tl rest) = [] then Some (ip', Some (length ip'), [])
           else parseIPv6Loop ip' (Some (length ip')) (tl (tl rest))
         else parseIPv6Loop ip' ell (tl rest))"
  by pat_completeness auto
termination
proof (relation "measure (\<lambda>(ip, ell, s). length s)", goal_cases)
  case 1
  then show ?case by simp
next
  case (2 ip ell s ds rest ip')
  then have "rest \<noteq> []" "length rest \<le> length s" by auto
  then have "length (tl (tl rest)) < length s" by (cases rest) auto
  then show ?case by simp
next
  case (3 ip ell s ds rest ip')
  then have "rest \<noteq> []" "length rest \<le> length s" by auto
  then have "length (tl rest) < length s" by (cases rest) auto
  then show ?case by simp
qed

declare parseIPv6Loop.simps [simp del]

definition parseIPv6 :: "string \<Rightarrow> Addr option" where
  "parseIPv6 s0 =
     (let s = takeWhile (\<lambda>c. c \<noteq> CHR ''%'') s0; zone = drop (Suc (length s)) s0 in
      if length s < length s0 \<and> zone = [] then None
      else let lead = take 2 s = ''::''; s' = (if lead then drop 2 s else s) in
        if lead \<and> s' = [] then Some (Addr6 0 zone)
        else case parseIPv6Loop [] (if lead then Some 0 else None) s' of
          None \<Rightarrow> None
        | Some (ip, ell, rest) \<Rightarrow>
            if rest \<noteq> [] then None
            else if length ip < 16 then
              (case ell of None \<Rightarrow> None
               | Some e \<Rightarrow> Some (Addr6 (get_be (take e ip @ replicate (16 - length ip) 0 @ drop e ip)) zone))
            else if ell \<noteq> None then None
            else Some (Addr6 (get_be ip) zone))"

definition ParseAddr :: "string \<Rightarrow> Addr option" where
  "ParseAddr s =
     (case find (\<lambda>c. c \<in> {CHR ''.'', CHR '':'', CHR ''%''}) s of
        None \<Rightarrow> None
      | Some c \<Rightarrow>
          if c = CHR ''.'' then map_option AddrFrom4 (parseIPv4Fields 0 0 [] s)
          else if c = CHR '':'' then parseIPv6 s else None)"

definition ParsePrefix :: "string \<Rightarrow> Prefix option" where
  "ParsePrefix s =
     (if CHR ''/'' \<notin> set s then None
      else let bitsStr = rev (takeWhile (\<lambda>c. c \<noteq> CHR ''/'') (rev s));
               ipStr = take (length s - length bitsStr - 1) s
      in case ParseAddr ipStr of
           None \<Rightarrow> None
         | Some ip \<Rightarrow>
             if Zone ip \<noteq> [] then None
             else if length bitsStr > 1 \<and> hd bitsStr = CHR ''0'' then None
             else case ParseUint bitsStr 63 of
               None \<Rightarrow> None
             | Some bits \<Rightarrow> if bits > (if Is6 ip then 128 else 32) then None
                 else Some (PrefixFrom ip bits))"

fun itoh :: "nat \<Rightarrow> string" where
  "itoh n = (if n < 16 then [if n < 10 then digit_char n else char_of (87 + n)]
     else itoh (n div 16) @ itoh (n mod 16))"

declare itoh.simps [simp del]

definition join :: "string \<Rightarrow> string list \<Rightarrow> string" where
  "join sep xs = concat (case xs of [] \<Rightarrow> [] | y # ys \<Rightarrow> y # concat (map (\<lambda>z. [sep, z]) ys))"

definition string4 :: "bytes \<Rightarrow> string" where
  "string4 b = join ''.'' (map (\<lambda>x. itoa (unat x)) b)"

text \<open>
  The longest run of at least two zero groups, the leftmost on a tie, is printed as a double colon.
\<close>

definition zero_run :: "nat list \<Rightarrow> nat \<times> nat" where
  "zero_run gs = foldl (\<lambda>(zs, ze) i. let l = length (takeWhile (\<lambda>g. g = 0) (drop i gs))
     in if 2 \<le> l \<and> ze - zs < l then (i, i + l) else (zs, ze)) (0, 0) [0..<8]"

definition string6 :: "bytes \<Rightarrow> string" where
  "string6 b =
     (let gs = map (\<lambda>i. unat (get_be (slice (2 * i) (2 * i + 2) b) :: u16)) [0..<8];
          (zs, ze) = zero_run gs
      in if ze = 0 then join '':'' (map itoh gs)
         else join '':'' (map itoh (take zs gs)) @ ''::'' @ join '':'' (map itoh (drop ze gs)))"

definition Addr_String :: "Addr \<Rightarrow> string" where
  "Addr_String a =
     (case a of
        AddrZero \<Rightarrow> ''invalid IP''
      | Addr4 w \<Rightarrow> string4 (put_be 4 w)
      | Addr6 w z \<Rightarrow>
          (if take 12 (put_be 16 w) = v4InV6Prefix then ''::ffff:'' @ string4 (drop 12 (put_be 16 w))
           else string6 (put_be 16 w))
          @ (if z = [] then [] else ''%'' @ z))"

section \<open>net.IP and net.UDPAddr\<close>

text \<open>
  A \<^verbatim>\<open>net.IP\<close> is a byte slice, of length 4 or 16 when it is an address and empty when it is nil.
\<close>

record UDPAddr =
  udpIP :: bytes
  udpPort :: int

definition IP_To4 :: "bytes \<Rightarrow> bytes option" where
  "IP_To4 ip =
     (if length ip = 4 then Some ip
      else if length ip = 16 \<and> take 12 ip = v4InV6Prefix then Some (drop 12 ip) else None)"

definition IP_Equal :: "bytes \<Rightarrow> bytes \<Rightarrow> bool" where
  "IP_Equal ip x =
     (if length ip = length x then ip = x
      else if length ip = 4 \<and> length x = 16 then take 12 x = v4InV6Prefix \<and> ip = drop 12 x
      else if length ip = 16 \<and> length x = 4 then take 12 ip = v4InV6Prefix \<and> drop 12 ip = x
      else False)"

definition ParseIP :: "string \<Rightarrow> bytes option" where
  "ParseIP s = (case ParseAddr s of None \<Rightarrow> None
     | Some a \<Rightarrow> if Zone a \<noteq> [] then None else Some (As16 a))"

definition IP_String :: "bytes \<Rightarrow> string" where
  "IP_String ip =
     (if ip = [] then ''<nil>''
      else if length ip \<noteq> 4 \<and> length ip \<noteq> 16 then
        ''?'' @ concat (map (\<lambda>b. itoh (unat b div 16) @ itoh (unat b mod 16)) ip)
      else case IP_To4 ip of
        Some p4 \<Rightarrow> Addr_String (AddrFrom4 p4)
      | None \<Rightarrow> Addr_String (AddrFrom16 ip))"

section \<open>Facts\<close>

text \<open>Prefixes as the constructors of the library build them.\<close>

definition pfx_wf :: "Prefix \<Rightarrow> bool" where
  "pfx_wf p \<longleftrightarrow> pfxBits p = -1 \<or> pfxAddr p \<noteq> AddrZero \<and> 0 \<le> pfxBits p \<and>
     pfxBits p \<le> int (BitLen (pfxAddr p))"

lemma pfx_wf_PrefixFrom [simp]: "pfx_wf (PrefixFrom a n)"
  by (cases a) (auto simp: pfx_wf_def PrefixFrom_def withoutZone_def BitLen_def)

lemma ParsePrefix_wf: "ParsePrefix s = Some p \<Longrightarrow> pfx_wf p"
  by (auto simp: ParsePrefix_def Let_def split: if_splits option.splits)

lemma drop_bit_clear_low [simp]: "drop_bit n (clear_low n a) = drop_bit n a"
  for a :: "'a::len word"
  by (rule bit_word_eqI) (auto simp: clear_low_def bit_simps dest: bit_imp_le_length)

lemma xor_eq_0: "a XOR b = 0 \<longleftrightarrow> a = b" for a b :: "'a::len word"
proof
  assume eq: "a XOR b = 0"
  have "bit a k = bit b k" for k
    using arg_cong [OF eq, of "\<lambda>w. bit w k"] by (simp add: bit_simps)
  then show "a = b" by (intro bit_word_eqI) simp
qed simp

lemma Contains_Masked: "pfx_wf p \<Longrightarrow> Contains (Masked p) ip = Contains p ip"
  by (cases "pfxAddr p"; cases ip)
    (auto simp: Contains_def Masked_def PrefixFrom_def PrefixZero_def IsValid_def pfx_wf_def
      BitLen_def withoutZone_def)

lemma parseIPv4Fields_digits:
  assumes "n < 256"
  shows "parseIPv4Fields 0 0 octets (itoa n @ rest) =
    parseIPv4Fields n (length (itoa n)) octets rest"
proof -
  consider "n < 10" | "10 \<le> n" "n < 100" | "100 \<le> n" "n < 256" using assms by linarith
  then show ?thesis
  proof cases
    case 1
    then show ?thesis by (simp add: itoa.simps)
  next
    case 2
    then have "n div 10 < 10" "n mod 10 < 10" "0 < n div 10" "n div 10 * 10 + n mod 10 = n"
      "\<not> 255 < n" by auto
    with 2 show ?thesis by (simp add: itoa.simps [of n] itoa.simps [of "n div 10"])
  next
    case 3
    define a b c where "a = n div 10 div 10" and "b = n div 10 mod 10" and "c = n mod 10"
    then have ab: "n div 10 = a * 10 + b" and n: "n = (a * 10 + b) * 10 + c" by presburger+
    have "10 \<le> n div 10" "n div 10 < 26" using 3 by auto
    moreover have bc: "b < 10" "c < 10" by (simp_all add: b_def c_def)
    ultimately have lt: "0 < a" "a < 10" "a * 10 + b < 256" unfolding ab by auto
    have "itoa n = itoa (n div 10) @ [digit_char c]"
      using 3 by (simp add: itoa.simps [of n] c_def)
    also have "itoa (n div 10) = itoa a @ [digit_char b]"
      using \<open>10 \<le> n div 10\<close> by (simp add: itoa.simps [of "n div 10"] a_def b_def)
    also have "itoa a = [digit_char a]" using lt by (simp add: itoa.simps)
    finally have i: "itoa n = [digit_char a, digit_char b, digit_char c]" by simp
    have "(a * 10 + b) * 10 + c < 256" using 3 n by simp
    moreover have "n = 100 * a + b * 10 + c" using n by simp
    ultimately show ?thesis unfolding i using lt bc by simp
  qed
qed

lemma find_append: "find P (xs @ ys) = (case find P xs of None \<Rightarrow> find P ys | Some x \<Rightarrow> Some x)"
  by (induction xs) simp_all

lemma find_sep_digits: "list_all is_digit s \<Longrightarrow>
  find (\<lambda>c. c \<in> {CHR ''.'', CHR '':'', CHR ''%''}) s = None"
  by (induction s) (auto simp: is_digit_def code_def)

lemma parseIPv4_string4:
  assumes "length b = 4"
  shows "parseIPv4Fields 0 0 [] (string4 b) = Some b"
proof -
  from assms obtain w x y z where b: "b = [w, x, y, z]"
    by (auto simp: length_Suc_conv numeral_eq_Suc)
  have u: "unat v < 256" for v :: byte using unsigned_less [of v, where ?'a = nat] by simp
  show ?thesis
    by (simp add: b string4_def join_def parseIPv4Fields_digits u is_digit_def code_def
        parseIPv4Fields_digits [where rest = "[]", simplified])
qed

lemma ParseAddr_String4: "ParseAddr (Addr_String (Addr4 w)) = Some (Addr4 w)"
proof -
  have "find (\<lambda>c. c \<in> {CHR ''.'', CHR '':'', CHR ''%''}) (string4 (put_be 4 w)) = Some CHR ''.''"
    by (simp add: string4_def join_def put_be_def find_append find_sep_digits itoa_digits
        upt_rec numeral_eq_Suc cong: find_cong del: insert_iff) simp
  then show ?thesis
    by (simp add: ParseAddr_def Addr_String_def parseIPv4_string4 AddrFrom4_def)
qed

lemma IP_String_ParseIP4: "length ip = 4 \<Longrightarrow> ParseIP (IP_String ip) = Some (v4InV6Prefix @ ip)"
  by (cases ip) (simp_all add: ParseIP_def IP_String_def IP_To4_def AddrFrom4_def ParseAddr_String4 Zone_def As16_def
      put_get_be)

section \<open>Prefixes as text\<close>

definition Prefix_String :: "Prefix \<Rightarrow> string" where
  "Prefix_String p =
     (if \<not> IsValid p then ''invalid Prefix'' else Addr_String (pfxAddr p) @ ''/'' @ itoa (nat (pfxBits p)))"

text \<open>An IPv4 prefix survives its text form.\<close>

lemma ParsePrefix_String4:
  assumes "0 \<le> bits" "bits \<le> 32"
  shows "ParsePrefix (Prefix_String \<lparr>pfxAddr = Addr4 w, pfxBits = bits\<rparr>) = Some \<lparr>pfxAddr = Addr4 w, pfxBits = bits\<rparr>"
proof -
  let ?a = "Addr_String (Addr4 w)" and ?b = "itoa (nat bits)"
  have s: "Prefix_String \<lparr>pfxAddr = Addr4 w, pfxBits = bits\<rparr> = ?a @ ''/'' @ ?b"
    using assms by (simp add: Prefix_String_def IsValid_def)
  have "takeWhile (\<lambda>c. c \<noteq> CHR ''/'') (rev (?a @ ''/'' @ ?b)) = rev ?b"
    using digits_no_slash [OF itoa_digits, of "nat bits"] by (simp, subst takeWhile_append2) auto
  moreover have "ParseUint ?b 63 = Some bits" using ParseUint_itoa [of "nat bits" 63] assms by simp
  moreover have "\<not> (length ?b > 1 \<and> hd ?b = CHR ''0'')" using itoa_hd by blast
  ultimately show ?thesis
    unfolding s using assms
    by (simp add: ParsePrefix_def Let_def ParseAddr_String4 Zone_def Is6_def PrefixFrom_def withoutZone_def BitLen_def)
qed

lemma ParseAddr_nonzero: "ParseAddr s \<noteq> Some AddrZero"
  by (auto simp: ParseAddr_def AddrFrom4_def parseIPv6_def Let_def split: option.splits if_splits prod.splits)

lemma ParsePrefix_form:
  assumes "ParsePrefix s = Some p"
  shows "\<exists>a n. p = PrefixFrom a n" "0 \<le> pfxBits p" "pfxBits p \<le> int (BitLen (pfxAddr p))" "IsValid p"
proof -
  have d: "0 \<le> decimal_val s" for s
    by (induction s rule: rev_induct) (simp_all add: decimal_val_snoc, simp add: decimal_val_def)
  from assms obtain ip n where ip: "p = PrefixFrom ip n" "ParseAddr (take (length s - length (rev (takeWhile (\<lambda>c. c \<noteq> CHR ''/'') (rev s))) - 1) s) = Some ip"
    "0 \<le> n" "n \<le> (if Is6 ip then 128 else 32)"
    using d by (auto simp: ParsePrefix_def ParseUint_def Let_def split: if_splits option.splits)
  moreover have "ip \<noteq> AddrZero"
    using ip(2) ParseAddr_nonzero by auto
  ultimately show "\<exists>a n. p = PrefixFrom a n" "0 \<le> pfxBits p" "pfxBits p \<le> int (BitLen (pfxAddr p))" "IsValid p"
    by (blast, (cases ip; simp add: PrefixFrom_def IsValid_def BitLen_def Is6_def withoutZone_def)+)
qed

end
