(* ===== verification/Neth_Config.thy ===== *)
theory Neth_Config
  imports Neth_Text
begin

text \<open>
  \<^verbatim>\<open>config/config.go\<close>: the configuration records, the defaults, the validation and \<open>Load\<close>.  The file system
  and the YAML decoder (a third-party package) are arguments of \<open>Load\<close>.
\<close>

section \<open>Records\<close>

record PKIConfig =
  pkiCA :: string
  pkiCert :: string
  pkiKey :: string
  pkiPeersDir :: string

record ListenConfig =
  listenHost :: string
  listenPort :: int

record TUNConfig =
  tunDev :: string
  tunMTU :: int

record LighthouseConfig =
  lhAmLighthouse :: bool
  lhInterval :: int
  lhHosts :: "string list"

record PunchyConfig =
  punchyPunch :: bool
  punchyRespond :: bool

record FirewallRule =
  frPort :: string
  frProto :: string
  frGroup :: string
  frCIDR :: string

record FirewallConfig =
  fwInbound :: "FirewallRule list"
  fwOutbound :: "FirewallRule list"

record LoggingConfig =
  logLevel :: string
  logFormat :: string

text \<open>
  The map \<^verbatim>\<open>static_host_map\<close> is the list of its entries, in the order in which a range loop visits them.
\<close>

record Config =
  cfgPKI :: PKIConfig
  cfgListen :: ListenConfig
  cfgTUN :: TUNConfig
  cfgLighthouse :: LighthouseConfig
  cfgStaticHostMap :: "(string \<times> string list) list"
  cfgPunchy :: PunchyConfig
  cfgFirewall :: FirewallConfig
  cfgLogging :: LoggingConfig

datatype config_problem = CARequired | CertRequired | KeyRequired | PortOutOfRange int

datatype config_error = ReadFailed string | YamlFailed string | Invalid "config_problem list"

section \<open>Operations\<close>

definition or_default :: "'a \<Rightarrow> 'a \<Rightarrow> 'a \<Rightarrow> 'a" where
  "or_default zero d v = (if v = zero then d else v)"

definition setDefaults :: "Config \<Rightarrow> Config" where
  "setDefaults c = c
     \<lparr>cfgListen := (cfgListen c)\<lparr>listenHost := or_default [] ''0.0.0.0'' (listenHost (cfgListen c))\<rparr>,
      cfgTUN := (cfgTUN c)
        \<lparr>tunDev := or_default [] ''neth0'' (tunDev (cfgTUN c)),
         tunMTU := or_default 0 1300 (tunMTU (cfgTUN c))\<rparr>,
      cfgLighthouse := (cfgLighthouse c)
        \<lparr>lhInterval := or_default 0 60 (lhInterval (cfgLighthouse c))\<rparr>,
      cfgLogging := (cfgLogging c)
        \<lparr>logLevel := or_default [] ''info'' (logLevel (cfgLogging c)),
         logFormat := or_default [] ''text'' (logFormat (cfgLogging c))\<rparr>\<rparr>"

text \<open>
  \<open>Validate\<close> collects every problem; \<^verbatim>\<open>errors.Join\<close> of no errors is nil, so the empty list is success.
\<close>

definition Validate :: "Config \<Rightarrow> config_problem list" where
  "Validate c =
     (if pkiCA (cfgPKI c) = [] then [CARequired] else [])
     @ (if pkiCert (cfgPKI c) = [] then [CertRequired] else [])
     @ (if pkiKey (cfgPKI c) = [] then [KeyRequired] else [])
     @ (if listenPort (cfgListen c) < 1 \<or> listenPort (cfgListen c) > 65535
        then [PortOutOfRange (listenPort (cfgListen c))] else [])"

definition Load ::
  "(string \<Rightarrow> bytes option) \<Rightarrow> (bytes \<Rightarrow> Config option) \<Rightarrow> string \<Rightarrow> (config_error, Config) res" where
  "Load readFile yamlUnmarshal path =
     (case readFile path of
        None \<Rightarrow> Inl (ReadFailed path)
      | Some data \<Rightarrow>
          (case yamlUnmarshal data of
             None \<Rightarrow> Inl (YamlFailed path)
           | Some cfg0 \<Rightarrow>
               let cfg = setDefaults cfg0 in
               if Validate cfg \<noteq> [] then Inl (Invalid (Validate cfg)) else Inr cfg))"

section \<open>Properties\<close>

lemma setDefaults_idem: "setDefaults (setDefaults c) = setDefaults c"
  by (simp add: setDefaults_def or_default_def)

definition runnable :: "Config \<Rightarrow> bool" where
  "runnable c \<longleftrightarrow> pkiCA (cfgPKI c) \<noteq> [] \<and> pkiCert (cfgPKI c) \<noteq> [] \<and> pkiKey (cfgPKI c) \<noteq> [] \<and>
     1 \<le> listenPort (cfgListen c) \<and> listenPort (cfgListen c) \<le> 65535"

lemma Validate_ok_iff: "Validate c = [] \<longleftrightarrow> runnable c"
  by (auto simp: Validate_def runnable_def)

lemma runnable_setDefaults [simp]: "runnable (setDefaults c) = runnable c"
  by (simp add: runnable_def setDefaults_def)

text \<open>
  \<open>Load\<close> succeeds exactly on a readable, well-formed file whose required paths are present and
  whose port is a UDP port, and what it returns is that file's configuration with every default
  filled in: a second round of defaults changes nothing.
\<close>
theorem Load_ok_iff:
  "Load readFile yaml path = Inr cfg \<longleftrightarrow>
     (\<exists>data cfg0. readFile path = Some data \<and> yaml data = Some cfg0 \<and> runnable cfg0 \<and>
       cfg = setDefaults cfg0 \<and> setDefaults cfg = cfg)"
  by (auto simp: Load_def Let_def Validate_ok_iff setDefaults_idem split: option.splits)

end
