(* ===== verification/Neth_Firewall.thy ===== *)
theory Neth_Firewall
  imports Neth_Netip Neth_Config
begin

text \<open>
  The \<^verbatim>\<open>firewall\<close> package: compiled rules and their parser (\<^verbatim>\<open>rule.go\<close>), connection tracking
  (\<^verbatim>\<open>conntrack.go\<close>), the two admission decisions (\<^verbatim>\<open>firewall.go\<close>) and expiry (\<^verbatim>\<open>expiry.go\<close>), and
  \<open>buildFirewall\<close> of \<^verbatim>\<open>interface.go\<close>.  Instants and durations are integers in nanoseconds; the current
  time is an argument.
\<close>

section \<open>Rules\<close>

type_synonym Proto = byte

definition ProtoAny :: Proto where
  "ProtoAny = 0"

definition ProtoICMP :: Proto where
  "ProtoICMP = 1"

definition ProtoTCP :: Proto where
  "ProtoTCP = 6"

definition ProtoUDP :: Proto where
  "ProtoUDP = 17"

lemmas proto_defs = ProtoAny_def ProtoICMP_def ProtoTCP_def ProtoUDP_def

definition Proto_String :: "Proto \<Rightarrow> string" where
  "Proto_String p =
     (if p = ProtoAny then ''any'' else if p = ProtoICMP then ''icmp''
      else if p = ProtoTCP then ''tcp'' else if p = ProtoUDP then ''udp'' else itoa (unat p))"

record Rule =
  rPort :: u16
  rPortAny :: bool
  rProto :: Proto
  rGroup :: string
  rGroupAny :: bool
  rCIDR :: Prefix
  rCIDAny :: bool

definition RuleZero :: Rule where
  "RuleZero = \<lparr>rPort = 0, rPortAny = False, rProto = 0, rGroup = [], rGroupAny = False,
     rCIDR = PrefixZero, rCIDAny = False\<rparr>"

datatype fw_error = UnknownProtocol string | InvalidPort string | InvalidCIDR string

text \<open>The four switches of \<open>ParseRule\<close>, each over the rule built so far.\<close>

definition parseProto :: "string \<Rightarrow> Rule \<Rightarrow> (fw_error, Rule) res" where
  "parseProto s rule =
     (let p = ToLower (TrimSpace s) in
      if p = [] \<or> p = ''any'' then Inr (rule\<lparr>rProto := ProtoAny\<rparr>)
      else if p = ''tcp'' then Inr (rule\<lparr>rProto := ProtoTCP\<rparr>)
      else if p = ''udp'' then Inr (rule\<lparr>rProto := ProtoUDP\<rparr>)
      else if p = ''icmp'' then Inr (rule\<lparr>rProto := ProtoICMP\<rparr>)
      else Inl (UnknownProtocol s))"

definition parsePort :: "string \<Rightarrow> Rule \<Rightarrow> (fw_error, Rule) res" where
  "parsePort s rule =
     (let p = ToLower (TrimSpace s) in
      if p = [] \<or> p = ''any'' then Inr (rule\<lparr>rPortAny := True\<rparr>)
      else case ParseUint s 16 of
        None \<Rightarrow> Inl (InvalidPort s)
      | Some n \<Rightarrow> Inr (rule\<lparr>rPort := word_of_int n\<rparr>))"

definition parseGroup :: "string \<Rightarrow> Rule \<Rightarrow> Rule" where
  "parseGroup s rule =
     (let g = TrimSpace s in
      if g = [] \<or> g = ''any'' then rule\<lparr>rGroupAny := True\<rparr> else rule\<lparr>rGroup := s\<rparr>)"

definition parseCIDR :: "string \<Rightarrow> Rule \<Rightarrow> (fw_error, Rule) res" where
  "parseCIDR s rule =
     (let p = ToLower (TrimSpace s) in
      if p = [] \<or> p = ''any'' then Inr (rule\<lparr>rCIDAny := True\<rparr>)
      else case ParsePrefix s of
        None \<Rightarrow> Inl (InvalidCIDR s)
      | Some prefix \<Rightarrow> Inr (rule\<lparr>rCIDR := Masked prefix\<rparr>))"

definition ParseRule :: "FirewallRule \<Rightarrow> (fw_error, Rule) res" where
  "ParseRule r =
     (case parseProto (frProto r) RuleZero of
        Inl e \<Rightarrow> Inl e
      | Inr rule \<Rightarrow>
          (case parsePort (frPort r) rule of
             Inl e \<Rightarrow> Inl e
           | Inr rule \<Rightarrow> parseCIDR (frCIDR r) (parseGroup (frGroup r) rule)))"

section \<open>Connection tracking\<close>

record connKey =
  kSrcIP :: Addr
  kDstIP :: Addr
  kSrcPort :: u16
  kDstPort :: u16
  kProto :: Proto

definition reversed :: "connKey \<Rightarrow> connKey" where
  "reversed k = \<lparr>kSrcIP = kDstIP k, kDstIP = kSrcIP k, kSrcPort = kDstPort k,
     kDstPort = kSrcPort k, kProto = kProto k\<rparr>"

type_synonym conntrack = "connKey \<rightharpoonup> int"

definition newConntrack :: conntrack where
  "newConntrack = Map.empty"

definition Track :: "int \<Rightarrow> connKey \<Rightarrow> conntrack \<Rightarrow> conntrack" where
  "Track now k seen = seen(k \<mapsto> now)"

definition IsEstablished :: "connKey \<Rightarrow> conntrack \<Rightarrow> bool" where
  "IsEstablished k seen =
     (if seen k \<noteq> None then True else seen (reversed k) \<noteq> None)"

definition ttl_of :: "int \<Rightarrow> int \<Rightarrow> int \<Rightarrow> Proto \<Rightarrow> int" where
  "ttl_of tcpTimeout udpTimeout defaultTimeout p =
     (if p = ProtoTCP then tcpTimeout else if p = ProtoUDP then udpTimeout else defaultTimeout)"

text \<open>The range loop deletes entries one by one; each is judged on its own, so the order is irrelevant.\<close>

definition Expire :: "int \<Rightarrow> int \<Rightarrow> int \<Rightarrow> int \<Rightarrow> conntrack \<Rightarrow> conntrack" where
  "Expire now tcpTimeout udpTimeout defaultTimeout seen =
     (\<lambda>k. case seen k of
        None \<Rightarrow> None
      | Some seenAt \<Rightarrow>
          if now - seenAt \<ge> ttl_of tcpTimeout udpTimeout defaultTimeout (kProto k) then None
          else Some seenAt)"

section \<open>Admission\<close>

record Firewall =
  inbound :: "Rule list"
  outbound :: "Rule list"
  ct :: conntrack

definition New :: "Rule list \<Rightarrow> Rule list \<Rightarrow> Firewall" where
  "New inb outb = \<lparr>inbound = inb, outbound = outb, ct = newConntrack\<rparr>"

primrec groupFound :: "string \<Rightarrow> string list \<Rightarrow> bool" where
  "groupFound g [] = False"
| "groupFound g (x # xs) = (if x = g then True else groupFound g xs)"

definition matches :: "Rule \<Rightarrow> Addr \<Rightarrow> string list \<Rightarrow> u16 \<Rightarrow> Proto \<Rightarrow> bool" where
  "matches r remoteIP remoteGroups port proto =
     (if rProto r \<noteq> ProtoAny \<and> rProto r \<noteq> proto then False
      else if \<not> rPortAny r \<and> rPort r \<noteq> port then False
      else if \<not> rGroupAny r \<and> \<not> groupFound (rGroup r) remoteGroups then False
      else if \<not> rCIDAny r \<and> \<not> Contains (rCIDR r) remoteIP then False
      else True)"

definition flowKey :: "Addr \<Rightarrow> u16 \<Rightarrow> Proto \<Rightarrow> connKey" where
  "flowKey remoteIP port proto =
     \<lparr>kSrcIP = AddrZero, kDstIP = remoteIP, kSrcPort = 0, kDstPort = port, kProto = proto\<rparr>"

text \<open>The rule loop of both decisions: track the flow and stop at the first matching rule.\<close>

primrec ruleLoop ::
  "Rule list \<Rightarrow> Firewall \<Rightarrow> int \<Rightarrow> Addr \<Rightarrow> string list \<Rightarrow> u16 \<Rightarrow> Proto \<Rightarrow> bool \<times> Firewall" where
  "ruleLoop [] f now ip groups port proto = (False, f)"
| "ruleLoop (r # rs) f now ip groups port proto =
     (if matches r ip groups port proto
      then (True, f\<lparr>ct := Track now (flowKey ip port proto) (ct f)\<rparr>)
      else ruleLoop rs f now ip groups port proto)"

definition AllowInbound ::
  "Firewall \<Rightarrow> int \<Rightarrow> Addr \<Rightarrow> string list \<Rightarrow> u16 \<Rightarrow> Proto \<Rightarrow> bool \<times> Firewall" where
  "AllowInbound f now srcIP srcGroups dstPort proto =
     (if IsEstablished (flowKey srcIP dstPort proto) (ct f) then (True, f)
      else ruleLoop (inbound f) f now srcIP srcGroups dstPort proto)"

definition AllowOutbound ::
  "Firewall \<Rightarrow> int \<Rightarrow> Addr \<Rightarrow> string list \<Rightarrow> u16 \<Rightarrow> Proto \<Rightarrow> bool \<times> Firewall" where
  "AllowOutbound f now dstIP dstGroups dstPort proto =
     (if IsEstablished (flowKey dstIP dstPort proto) (ct f) then (True, f)
      else ruleLoop (outbound f) f now dstIP dstGroups dstPort proto)"

section \<open>Expiry and construction\<close>

definition second :: int where
  "second = 1000000000"

definition defaultTCPTimeout :: int where
  "defaultTCPTimeout = 5 * 60 * second"

definition defaultUDPTimeout :: int where
  "defaultUDPTimeout = 30 * second"

definition defaultICMPTimeout :: int where
  "defaultICMPTimeout = 10 * second"

definition ExpireWith :: "int \<Rightarrow> int \<Rightarrow> int \<Rightarrow> int \<Rightarrow> Firewall \<Rightarrow> Firewall" where
  "ExpireWith now tcpTimeout udpTimeout defaultTimeout f =
     f\<lparr>ct := Expire now tcpTimeout udpTimeout defaultTimeout (ct f)\<rparr>"

text \<open>One tick of the loop of \<open>RunExpiry\<close>.\<close>

definition RunExpiry_tick :: "int \<Rightarrow> Firewall \<Rightarrow> Firewall" where
  "RunExpiry_tick now f =
     f\<lparr>ct := Expire now defaultTCPTimeout defaultUDPTimeout defaultICMPTimeout (ct f)\<rparr>"

primrec parseRules :: "nat \<Rightarrow> FirewallRule list \<Rightarrow> (nat \<times> fw_error, Rule list) res" where
  "parseRules i [] = Inr []"
| "parseRules i (r # rs) =
     (case ParseRule r of
        Inl e \<Rightarrow> Inl (i, e)
      | Inr rule \<Rightarrow>
          (case parseRules (Suc i) rs of Inl e \<Rightarrow> Inl e | Inr rules \<Rightarrow> Inr (rule # rules)))"

datatype build_fw_error = InboundRule nat fw_error | OutboundRule nat fw_error

definition buildFirewall :: "FirewallConfig \<Rightarrow> (build_fw_error, Firewall) res" where
  "buildFirewall cfg =
     (case parseRules 0 (fwInbound cfg) of
        Inl (i, e) \<Rightarrow> Inl (InboundRule i e)
      | Inr inb \<Rightarrow>
          (case parseRules 0 (fwOutbound cfg) of
             Inl (i, e) \<Rightarrow> Inl (OutboundRule i e)
           | Inr outb \<Rightarrow> Inr (New inb outb)))"

section \<open>The contract of an admission decision\<close>

text \<open>
  Both directions share one contract: a packet passes when its flow is tracked or a rule of that
  direction matches; the flow table changes only when a rule admits an untracked flow, and then
  records the flow at the current time.
\<close>

locale admission =
  fixes allow :: "Firewall \<Rightarrow> int \<Rightarrow> Addr \<Rightarrow> string list \<Rightarrow> u16 \<Rightarrow> Proto \<Rightarrow> bool \<times> Firewall"
    and rules :: "Firewall \<Rightarrow> Rule list"
  assumes verdict: "fst (allow f now ip gs port p) \<longleftrightarrow>
      IsEstablished (flowKey ip port p) (ct f) \<or> (\<exists>r \<in> set (rules f). matches r ip gs port p)"
    and effect: "snd (allow f now ip gs port p) =
      (if fst (allow f now ip gs port p) \<and> \<not> IsEstablished (flowKey ip port p) (ct f)
       then f\<lparr>ct := (ct f)(flowKey ip port p \<mapsto> now)\<rparr> else f)"
begin

lemma deny_keeps: "\<not> fst (allow f now ip gs port p) \<Longrightarrow> snd (allow f now ip gs port p) = f"
  by (simp add: effect)

lemma frame: "inbound (snd (allow f now ip gs port p)) = inbound f"
  "outbound (snd (allow f now ip gs port p)) = outbound f"
  by (simp_all add: effect)

lemma entry_kept: "ct f k = Some t \<Longrightarrow> ct (snd (allow f now ip gs port p)) k = Some t"
  by (auto simp: effect IsEstablished_def)

lemma admitted_is_established:
  "fst (allow f now ip gs port p) \<Longrightarrow>
     IsEstablished (flowKey ip port p) (ct (snd (allow f now ip gs port p)))"
  by (auto simp: effect IsEstablished_def)

lemma new_entry:
  "ct (snd (allow f now ip gs port p)) k = Some t \<Longrightarrow> ct f k = None \<Longrightarrow>
     k = flowKey ip port p \<and> t = now \<and> (\<exists>r \<in> set (rules f). matches r ip gs port p)"
  using verdict [of f now ip gs port p] by (auto simp: effect split: if_splits)

lemma dom_grows: "dom (ct f) \<subseteq> dom (ct (snd (allow f now ip gs port p)))"
  by (auto simp: effect)

end

lemma ruleLoop_fst:
  "fst (ruleLoop rs f now ip gs port p) \<longleftrightarrow> (\<exists>r \<in> set rs. matches r ip gs port p)"
  by (induction rs) auto

lemma ruleLoop_snd:
  "snd (ruleLoop rs f now ip gs port p) =
     (if fst (ruleLoop rs f now ip gs port p) then f\<lparr>ct := (ct f)(flowKey ip port p \<mapsto> now)\<rparr> else f)"
  by (induction rs) (auto simp: Track_def)

interpretation inb: admission AllowInbound inbound
  by unfold_locales (auto simp: AllowInbound_def ruleLoop_fst ruleLoop_snd)

interpretation outb: admission AllowOutbound outbound
  by unfold_locales (auto simp: AllowOutbound_def ruleLoop_fst ruleLoop_snd)

section \<open>Reachable firewalls\<close>

text \<open>
  The firewall is shared by the two packet loops and the expiry loop; a reachable state is the
  result of any interleaving of their calls after \<open>New\<close>.
\<close>

inductive fw_reach :: "Rule list \<Rightarrow> Rule list \<Rightarrow> Firewall \<Rightarrow> bool" for inb outb where
  fw_new: "fw_reach inb outb (New inb outb)"
| fw_in: "fw_reach inb outb f \<Longrightarrow> fw_reach inb outb (snd (AllowInbound f now ip gs port p))"
| fw_out: "fw_reach inb outb f \<Longrightarrow> fw_reach inb outb (snd (AllowOutbound f now ip gs port p))"
| fw_expire: "fw_reach inb outb f \<Longrightarrow> fw_reach inb outb (ExpireWith now tcp udp dflt f)"

text \<open>Every tracked flow was admitted by a rule, and is stored in its normalised form.\<close>

definition justified :: "Firewall \<Rightarrow> bool" where
  "justified f \<longleftrightarrow> (\<forall>k t. ct f k = Some t \<longrightarrow>
     (\<exists>ip gs port p. k = flowKey ip port p \<and>
        (\<exists>r \<in> set (inbound f) \<union> set (outbound f). matches r ip gs port p)))"

lemma justified_in: "justified f \<Longrightarrow> justified (snd (AllowInbound f now ip gs port p))"
  unfolding justified_def inb.frame
  by (metis UnI1 inb.new_entry not_None_eq)

lemma justified_out: "justified f \<Longrightarrow> justified (snd (AllowOutbound f now ip gs port p))"
  unfolding justified_def outb.frame
  by (metis UnI2 outb.new_entry not_None_eq)

lemma Expire_Some: "Expire now tcp udp dflt seen k = Some t \<longleftrightarrow>
    seen k = Some t \<and> now - t < ttl_of tcp udp dflt (kProto k)"
  by (auto simp: Expire_def split: option.splits)

lemma fw_reach_inv:
  "fw_reach inb outb f \<Longrightarrow> inbound f = inb \<and> outbound f = outb \<and> justified f"
proof (induction rule: fw_reach.induct)
  case fw_new
  then show ?case by (simp add: New_def justified_def newConntrack_def)
next
  case (fw_in f now ip gs port p)
  then show ?case by (simp add: justified_in inb.frame)
next
  case (fw_out f now ip gs port p)
  then show ?case by (simp add: justified_out outb.frame)
next
  case (fw_expire f now tcp udp dflt)
  then show ?case by (auto simp: ExpireWith_def justified_def Expire_Some)
qed

lemma reversed_flowKey: "reversed (flowKey ip port p) = flowKey ip' port' p' \<Longrightarrow>
    reversed (flowKey ip port p) = flowKey ip port p"
  by (simp add: reversed_def flowKey_def)

lemma justified_established:
  assumes "justified f"
  shows "IsEstablished (flowKey ip port p) (ct f) \<longleftrightarrow> ct f (flowKey ip port p) \<noteq> None"
proof
  assume e: "IsEstablished (flowKey ip port p) (ct f)"
  show "ct f (flowKey ip port p) \<noteq> None"
  proof (cases "ct f (reversed (flowKey ip port p))")
    case None
    with e show ?thesis by (simp add: IsEstablished_def split: if_splits)
  next
    case (Some t)
    with assms have "reversed (flowKey ip port p) = flowKey ip port p"
      unfolding justified_def using reversed_flowKey by blast
    with Some show ?thesis by simp
  qed
qed (simp add: IsEstablished_def)

section \<open>What a configured rule means\<close>

definition wildcard :: "string \<Rightarrow> bool" where
  "wildcard s \<longleftrightarrow> ToLower (TrimSpace s) = [] \<or> ToLower (TrimSpace s) = ''any''"

definition config_matches :: "FirewallRule \<Rightarrow> Addr \<Rightarrow> string list \<Rightarrow> u16 \<Rightarrow> Proto \<Rightarrow> bool" where
  "config_matches fr ip gs port p \<longleftrightarrow>
     (wildcard (frProto fr) \<or>
      (ToLower (TrimSpace (frProto fr)), p) \<in> {(''tcp'', 6), (''udp'', 17), (''icmp'', 1)}) \<and>
     (wildcard (frPort fr) \<or> ParseUint (frPort fr) 16 = Some (uint port)) \<and>
     (TrimSpace (frGroup fr) \<in> {[], ''any''} \<or> frGroup fr \<in> set gs) \<and>
     (wildcard (frCIDR fr) \<or> (\<exists>pfx. ParsePrefix (frCIDR fr) = Some pfx \<and> Contains pfx ip))"

lemma groupFound_iff: "groupFound g gs \<longleftrightarrow> g \<in> set gs"
  by (induction gs) auto

lemma ParseUint_range: "ParseUint s bits = Some n \<Longrightarrow> 0 \<le> n \<and> n < 2 ^ bits"
proof -
  assume a: "ParseUint s bits = Some n"
  have "0 \<le> foldl (\<lambda>acc c. 10 * acc + int (digit_val c)) m xs" if "0 \<le> m" for m xs
    using that by (induction xs arbitrary: m) auto
  with a show ?thesis by (auto simp: ParseUint_def decimal_val_def split: if_splits)
qed

lemma word_of_port:
  assumes "0 \<le> n" "n < 2 ^ 16"
  shows "(word_of_int n :: u16) = port \<longleftrightarrow> n = uint port"
proof -
  have "uint (word_of_int n :: u16) = n"
    using assms by (simp add: uint_word_of_int)
  then show ?thesis by (metis word_of_int_uint)
qed

text \<open>What each switch contributes to the rule, in terms of the configured string.\<close>

lemma parseProto_Inr:
  assumes "parseProto s rule = Inr r"
  obtains x where "r = rule\<lparr>rProto := x\<rparr>"
    "\<And>p. x = 0 \<or> x = p \<longleftrightarrow>
      wildcard s \<or> (ToLower (TrimSpace s), p) \<in> {(''tcp'', 6), (''udp'', 17), (''icmp'', 1)}"
  using assms that [of "rProto r"]
  by (auto simp: parseProto_def Let_def proto_defs wildcard_def split: if_splits)

lemma parsePort_Inr:
  assumes "parsePort s rule = Inr r" "\<not> rPortAny rule"
  obtains x y where "r = rule\<lparr>rPort := x, rPortAny := y\<rparr>"
    "\<And>port. y \<or> x = port \<longleftrightarrow> wildcard s \<or> ParseUint s 16 = Some (uint port)"
proof (cases "wildcard s")
  case True
  with assms have "r = rule\<lparr>rPort := rPort rule, rPortAny := True\<rparr>"
    by (auto simp: parsePort_def wildcard_def Let_def)
  with True that show ?thesis by blast
next
  case False
  with assms obtain n where n: "ParseUint s 16 = Some n" "r = rule\<lparr>rPort := word_of_int n\<rparr>"
    by (auto simp: parsePort_def wildcard_def Let_def split: option.splits)
  with assms(2) have "r = rule\<lparr>rPort := word_of_int n, rPortAny := False\<rparr>" by simp
  with False n(1) that word_of_port ParseUint_range [OF n(1)] show ?thesis by fastforce
qed

lemma parseGroup_eq:
  assumes "\<not> rGroupAny rule"
  obtains x y where "parseGroup s rule = rule\<lparr>rGroup := x, rGroupAny := y\<rparr>"
    "\<And>gs. y \<or> x \<in> set gs \<longleftrightarrow> TrimSpace s \<in> {[], ''any''} \<or> s \<in> set gs"
  using assms that [of "rGroupAny (parseGroup s rule)" "rGroup (parseGroup s rule)"]
  by (auto simp: parseGroup_def Let_def split: if_splits)

lemma parseCIDR_Inr:
  assumes "parseCIDR s rule = Inr r" "\<not> rCIDAny rule"
  obtains x y where "r = rule\<lparr>rCIDR := x, rCIDAny := y\<rparr>"
    "\<And>ip. y \<or> Contains x ip \<longleftrightarrow>
      wildcard s \<or> (\<exists>pfx. ParsePrefix s = Some pfx \<and> Contains pfx ip)"
proof (cases "wildcard s")
  case True
  with assms have "r = rule\<lparr>rCIDR := rCIDR rule, rCIDAny := True\<rparr>"
    by (auto simp: parseCIDR_def wildcard_def Let_def)
  with True that show ?thesis by blast
next
  case False
  with assms obtain x where x: "ParsePrefix s = Some x" "r = rule\<lparr>rCIDR := Masked x\<rparr>"
    by (auto simp: parseCIDR_def wildcard_def Let_def split: option.splits)
  with assms(2) have "r = rule\<lparr>rCIDR := Masked x, rCIDAny := False\<rparr>" by simp
  with False x(1) that show ?thesis by (simp add: Contains_Masked ParsePrefix_wf)
qed

lemma matches_iff:
  "matches r ip gs port p \<longleftrightarrow>
     (rProto r = 0 \<or> rProto r = p) \<and> (rPortAny r \<or> rPort r = port) \<and>
     (rGroupAny r \<or> rGroup r \<in> set gs) \<and> (rCIDAny r \<or> Contains (rCIDR r) ip)"
  by (auto simp: matches_def groupFound_iff ProtoAny_def)

lemma ParseRule_matches:
  assumes "ParseRule fr = Inr r"
  shows "matches r ip gs port p \<longleftrightarrow> config_matches fr ip gs port p"
proof -
  from assms obtain r1 r2 where r1: "parseProto (frProto fr) RuleZero = Inr r1"
    and r2: "parsePort (frPort fr) r1 = Inr r2"
    and r: "parseCIDR (frCIDR fr) (parseGroup (frGroup fr) r2) = Inr r"
    by (auto simp: ParseRule_def split: sum.splits)
  obtain a where a: "r1 = RuleZero\<lparr>rProto := a\<rparr>"
    "\<And>p. a = 0 \<or> a = p \<longleftrightarrow> wildcard (frProto fr) \<or>
      (ToLower (TrimSpace (frProto fr)), p) \<in> {(''tcp'', 6), (''udp'', 17), (''icmp'', 1)}"
    using parseProto_Inr [OF r1] by blast
  obtain b b' where b: "r2 = r1\<lparr>rPort := b, rPortAny := b'\<rparr>"
    "\<And>port. b' \<or> b = port \<longleftrightarrow> wildcard (frPort fr) \<or> ParseUint (frPort fr) 16 = Some (uint port)"
  proof -
    have "\<not> rPortAny r1" by (simp add: a(1) RuleZero_def)
    from parsePort_Inr [OF r2 this] that show ?thesis by blast
  qed
  obtain c c' where c: "parseGroup (frGroup fr) r2 = r2\<lparr>rGroup := c, rGroupAny := c'\<rparr>"
    "\<And>gs. c' \<or> c \<in> set gs \<longleftrightarrow> TrimSpace (frGroup fr) \<in> {[], ''any''} \<or> frGroup fr \<in> set gs"
  proof -
    have "\<not> rGroupAny r2" by (simp add: a(1) b(1) RuleZero_def)
    from parseGroup_eq [OF this] that show ?thesis by blast
  qed
  obtain d d' where d: "r = (parseGroup (frGroup fr) r2)\<lparr>rCIDR := d, rCIDAny := d'\<rparr>"
    "\<And>ip. d' \<or> Contains d ip \<longleftrightarrow> wildcard (frCIDR fr) \<or>
      (\<exists>pfx. ParsePrefix (frCIDR fr) = Some pfx \<and> Contains pfx ip)"
  proof -
    have "\<not> rCIDAny (parseGroup (frGroup fr) r2)"
      unfolding c(1) by (simp add: a(1) b(1) RuleZero_def)
    from parseCIDR_Inr [OF r this] that show ?thesis by blast
  qed
  show ?thesis
    unfolding matches_iff config_matches_def a(2) [symmetric] b(2) [symmetric] c(2) [symmetric]
      d(2) [symmetric]
    unfolding d(1) c(1) by (simp add: a(1) b(1) RuleZero_def)
qed

lemma parseRules_matches:
  "parseRules i frs = Inr rs \<Longrightarrow>
     (\<exists>r \<in> set rs. matches r ip gs port p) \<longleftrightarrow> (\<exists>fr \<in> set frs. config_matches fr ip gs port p)"
  by (induction frs arbitrary: i rs) (auto simp: ParseRule_matches split: sum.splits)

lemma buildFirewall_InrD:
  assumes "buildFirewall cfg = Inr f"
  shows "parseRules 0 (fwInbound cfg) = Inr (inbound f)"
    "parseRules 0 (fwOutbound cfg) = Inr (outbound f)" "f = New (inbound f) (outbound f)"
  using assms by (auto simp: buildFirewall_def New_def split: sum.splits)

section \<open>Interleavings of packets and expiry\<close>

datatype fw_op =
    In_Packet int Addr "string list" u16 Proto
  | Out_Packet int Addr "string list" u16 Proto
  | Expiry_Tick int

fun fw_step :: "fw_op \<Rightarrow> Firewall \<Rightarrow> Firewall" where
  "fw_step (In_Packet now ip gs port p) f = snd (AllowInbound f now ip gs port p)"
| "fw_step (Out_Packet now ip gs port p) f = snd (AllowOutbound f now ip gs port p)"
| "fw_step (Expiry_Tick now) f = RunExpiry_tick now f"

definition ttl :: "Proto \<Rightarrow> int" where
  "ttl = ttl_of defaultTCPTimeout defaultUDPTimeout defaultICMPTimeout"

lemma RunExpiry_tick_Some: "ct (RunExpiry_tick now f) k = Some t \<longleftrightarrow>
    ct f k = Some t \<and> now - t < ttl (kProto k)"
  by (simp add: RunExpiry_tick_def Expire_Some ttl_def)

lemma fold_fw_step_keeps:
  "ct f k = Some t \<Longrightarrow> (\<And>now. Expiry_Tick now \<in> set ops \<Longrightarrow> now < t + ttl (kProto k)) \<Longrightarrow>
     ct (fold fw_step ops f) k = Some t"
proof (induction ops arbitrary: f)
  case (Cons x xs)
  then have "ct (fw_step x f) k = Some t"
    by (cases x) (auto simp: inb.entry_kept outb.entry_kept RunExpiry_tick_Some diff_less_eq add.commute)
  with Cons show ?case by simp
qed simp

lemma flowKey_inject [simp]:
  "flowKey ip port p = flowKey ip' port' p' \<longleftrightarrow> ip = ip' \<and> port = port' \<and> p = p'"
  by (auto simp: flowKey_def)

lemma kProto_flowKey [simp]: "kProto (flowKey ip port p) = p"
  by (simp add: flowKey_def)

text \<open>A sample policy: web servers from group \<open>web\<close> may be reached over TCP, anything may leave.\<close>

definition sample_cfg :: FirewallConfig where
  "sample_cfg = \<lparr>fwInbound = [\<lparr>frPort = ''80'', frProto = ''tcp'', frGroup = ''web'', frCIDR = ''any''\<rparr>],
     fwOutbound = [\<lparr>frPort = ''any'', frProto = ''any'', frGroup = [], frCIDR = ''10.0.0.0/8''\<rparr>]\<rparr>"

definition sample_fw :: Firewall where
  "sample_fw = (case buildFirewall sample_cfg of Inr f \<Rightarrow> f | Inl _ \<Rightarrow> New [] [])"

lemma sample_build: "buildFirewall sample_cfg = Inr sample_fw"
proof -
  have "is_ok (buildFirewall sample_cfg)" by code_simp
  then show ?thesis by (auto simp: sample_fw_def is_ok_def split: sum.splits)
qed

lemma sample_reach: "fw_reach (inbound sample_fw) (outbound sample_fw) sample_fw"
  using buildFirewall_InrD(3) [OF sample_build] fw_new by metis

section \<open>Properties\<close>

text \<open>
  C16: the configured policy is what is enforced.  For a firewall built from a configuration and then
  used in any order by the packet and expiry loops, a packet passes exactly when its flow is
  currently tracked or a rule of its own direction, read as the configuration text says, covers
  the remote address, its groups, the port and the protocol.
\<close>
theorem firewall_policy:
  assumes "buildFirewall cfg = Inr f0" "fw_reach (inbound f0) (outbound f0) f"
  shows "(fst (AllowInbound f now ip gs port p) \<longleftrightarrow>
      ct f (flowKey ip port p) \<noteq> None \<or> (\<exists>fr \<in> set (fwInbound cfg). config_matches fr ip gs port p)) \<and>
    (fst (AllowOutbound f now ip gs port p) \<longleftrightarrow>
      ct f (flowKey ip port p) \<noteq> None \<or> (\<exists>fr \<in> set (fwOutbound cfg). config_matches fr ip gs port p))"
  using buildFirewall_InrD [OF assms(1)] fw_reach_inv [OF assms(2)]
  by (simp add: inb.verdict outb.verdict justified_established parseRules_matches)

theorem firewall_policy_witness:
  "(\<exists>fr \<in> set (fwInbound sample_cfg). config_matches fr (Addr4 0x0A000002) [''web''] 80 6) \<and>
   \<not> (\<exists>fr \<in> set (fwInbound sample_cfg). config_matches fr (Addr4 0x0A000002) [''db''] 80 6)"
proof -
  have a: "fst (AllowInbound sample_fw 0 (Addr4 0x0A000002) [''web''] 80 6)"
    "\<not> fst (AllowInbound sample_fw 0 (Addr4 0x0A000002) [''db''] 80 6)"
    "ct sample_fw (flowKey (Addr4 0x0A000002) 80 6) = None"
    by code_simp+
  then show ?thesis
    using firewall_policy [OF sample_build sample_reach, of 0 "Addr4 0x0A000002" _ 80 6] by blast
qed

text \<open>
  Default deny.  Whatever has happened before, a packet passes in either direction only if some
  configured rule, inbound or outbound, covers its address, port and protocol for some groups.
\<close>
theorem firewall_default_deny:
  assumes "buildFirewall cfg = Inr f0" "fw_reach (inbound f0) (outbound f0) f"
    and "fst (AllowInbound f now ip gs port p) \<or> fst (AllowOutbound f now ip gs port p)"
  shows "\<exists>fr \<in> set (fwInbound cfg) \<union> set (fwOutbound cfg). \<exists>gs'. config_matches fr ip gs' port p"
proof -
  note b = buildFirewall_InrD [OF assms(1)]
  note inv = fw_reach_inv [OF assms(2)]
  have "\<exists>r \<in> set (inbound f) \<union> set (outbound f). \<exists>gs'. matches r ip gs' port p"
  proof (cases "ct f (flowKey ip port p)")
    case (Some t)
    with inv show ?thesis unfolding justified_def by (metis flowKey_inject)
  next
    case None
    with inv assms(3) show ?thesis
      by (auto simp: inb.verdict outb.verdict justified_established)
  qed
  then obtain gs' where "(\<exists>r \<in> set (inbound f). matches r ip gs' port p) \<or>
      (\<exists>r \<in> set (outbound f). matches r ip gs' port p)" by blast
  with inv parseRules_matches [OF b(1), of ip gs' port p] parseRules_matches [OF b(2), of ip gs' port p]
  show ?thesis by auto
qed

theorem firewall_default_deny_witness:
  "\<exists>fr \<in> set (fwInbound sample_cfg) \<union> set (fwOutbound sample_cfg). \<exists>gs'.
     config_matches fr (Addr4 0x0A000002) gs' 80 6"
proof (rule firewall_default_deny [OF sample_build sample_reach, of 0 _ "[''web'']"])
  show "fst (AllowInbound sample_fw 0 (Addr4 0x0A000002) [''web''] 80 6) \<or>
    fst (AllowOutbound sample_fw 0 (Addr4 0x0A000002) [''web''] 80 6)"
    by code_simp
qed

text \<open>
  C29: the lifetime of a tracked flow is fixed when it is admitted.  No later packet refreshes or
  removes it; it survives every expiry tick before its protocol's timeout has passed since
  admission, and the first tick at or after that instant removes it, however recently the flow
  was used.
\<close>
theorem conntrack_lifetime:
  assumes "ct f (flowKey ip port p) = Some t"
    and "\<And>now. Expiry_Tick now \<in> set ops \<Longrightarrow> now < t + ttl p"
    and "t + ttl p \<le> late"
  shows "ct (fold fw_step ops f) (flowKey ip port p) = Some t \<and>
    ct (fold fw_step (ops @ [Expiry_Tick late]) f) (flowKey ip port p) = None"
proof -
  have k: "ct (fold fw_step ops f) (flowKey ip port p) = Some t"
    using assms(1,2) by (simp add: fold_fw_step_keeps)
  have "ct (RunExpiry_tick late (fold fw_step ops f)) (flowKey ip port p) \<noteq> Some s" for s
    using k assms(3) by (auto simp: RunExpiry_tick_Some)
  with k show ?thesis by auto
qed

theorem conntrack_lifetime_witness:
  "let f = snd (AllowOutbound sample_fw 5 (Addr4 0x0A000002) [] 53 17);
       ops = [In_Packet 29000000000 (Addr4 0x0A000002) [] 53 17, Expiry_Tick 30000000000] in
   ct (fold fw_step ops f) (flowKey (Addr4 0x0A000002) 53 17) = Some 5 \<and>
   ct (fold fw_step (ops @ [Expiry_Tick 30000000005]) f) (flowKey (Addr4 0x0A000002) 53 17) = None"
  unfolding Let_def
proof (rule conntrack_lifetime)
  show "ct (snd (AllowOutbound sample_fw 5 (Addr4 0x0A000002) [] 53 17))
      (flowKey (Addr4 0x0A000002) 53 17) = Some 5"
    by code_simp
qed (auto simp: ttl_def ttl_of_def proto_defs defaultUDPTimeout_def second_def)

text \<open>
  C38: what admitting an outbound flow opens.  Inbound packets from the same address to the same
  destination port pass whatever the inbound rules say; a reply addressed to any other port, such
  as the client's ephemeral port, still needs an inbound rule of its own.
\<close>
theorem outbound_opens_same_port_only:
  assumes "fw_reach inb outb f" "fst (AllowOutbound f now ip gs port p)"
    and "ct f (flowKey ip q p) = None" "q \<noteq> port"
  shows "fst (AllowInbound (snd (AllowOutbound f now ip gs port p)) now' ip gs' port p) \<and>
    (fst (AllowInbound (snd (AllowOutbound f now ip gs port p)) now' ip gs' q p) \<longleftrightarrow>
      (\<exists>r \<in> set inb. matches r ip gs' q p))"
proof -
  let ?f = "snd (AllowOutbound f now ip gs port p)"
  have inv: "inbound ?f = inb" "justified ?f" using fw_reach_inv [OF fw_out [OF assms(1)]] by auto
  have "ct ?f (flowKey ip q p) = None"
    using assms(3,4) by (simp add: outb.effect)
  with inv outb.admitted_is_established [OF assms(2)] show ?thesis
    by (simp add: inb.verdict justified_established)
qed

theorem outbound_opens_same_port_only_witness:
  "let f = snd (AllowOutbound sample_fw 0 (Addr4 0x0A000002) [] 443 6) in
   fst (AllowInbound f 1 (Addr4 0x0A000002) [] 443 6) \<and>
   \<not> fst (AllowInbound f 1 (Addr4 0x0A000002) [] 51000 6)"
proof -
  have a: "fst (AllowOutbound sample_fw 0 (Addr4 0x0A000002) [] 443 6)" by code_simp
  have b: "ct sample_fw (flowKey (Addr4 0x0A000002) 51000 6) = None" by code_simp
  have c: "\<not> (\<exists>r \<in> set (inbound sample_fw). matches r (Addr4 0x0A000002) [] 51000 6)" by code_simp
  show ?thesis
    using outbound_opens_same_port_only [OF sample_reach a b, of 1 "[]"] c by simp
qed

end
