(* ===== verification/Neth_Der.thy ===== *)
theory Neth_Der
  imports Neth_Prelude
begin

text \<open>
  The part of \<^verbatim>\<open>encoding/asn1\<close> the certificate extensions use: \<^verbatim>\<open>Marshal\<close> and \<^verbatim>\<open>Unmarshal\<close> at the types
  \<^verbatim>\<open>[]byte\<close> (OCTET STRING), \<^verbatim>\<open>int\<close> (INTEGER), a struct or a slice (SEQUENCE) and \<^verbatim>\<open>RawValue\<close>.  \<open>None\<close> is a
  decoding error; the program does not tell their kinds apart.
\<close>

section \<open>Encoding\<close>

fun be_bytes :: "nat \<Rightarrow> bytes" where
  "be_bytes n = (if n < 256 then [word_of_nat n] else be_bytes (n div 256) @ [word_of_nat (n mod 256)])"

declare be_bytes.simps [simp del]

definition der_len :: "nat \<Rightarrow> bytes" where
  "der_len n = (if n < 128 then [word_of_nat n]
     else word_of_nat (128 + length (be_bytes n)) # be_bytes n)"

definition tlv :: "byte \<Rightarrow> bytes \<Rightarrow> bytes" where
  "tlv tag content = tag # der_len (length content) @ content"

definition tagInteger :: byte where "tagInteger = 0x02"
definition tagOctetString :: byte where "tagOctetString = 0x04"
definition tagUTF8String :: byte where "tagUTF8String = 0x0C"
definition tagSequence :: byte where "tagSequence = 0x30"

lemmas tag_defs = tagInteger_def tagOctetString_def tagUTF8String_def tagSequence_def

text \<open>Shortest two's-complement form, most significant byte first.\<close>

function int_bytes :: "int \<Rightarrow> bytes" where
  "int_bytes i = (if -128 \<le> i \<and> i < 128 then [word_of_int i]
     else int_bytes (i div 256) @ [word_of_int (i mod 256)])"
  by pat_completeness auto
termination
  by (relation "measure (\<lambda>i. nat (if i < 0 then - i else i))") auto

declare int_bytes.simps [simp del]

definition marshal_bytes :: "bytes \<Rightarrow> bytes" where
  "marshal_bytes b = tlv tagOctetString b"

definition marshal_int :: "int \<Rightarrow> bytes" where
  "marshal_int i = tlv tagInteger (int_bytes i)"

definition marshal_seq :: "bytes list \<Rightarrow> bytes" where
  "marshal_seq parts = tlv tagSequence (concat parts)"

section \<open>Decoding\<close>

text \<open>\<^verbatim>\<open>parseBase128Int\<close>, for tag numbers of 31 and more.\<close>

fun base128 :: "nat \<Rightarrow> nat \<Rightarrow> bytes \<Rightarrow> (nat \<times> bytes) option" where
  "base128 shifted acc [] = None"
| "base128 shifted acc (b # bs) =
     (if shifted = 5 then None
      else if shifted = 0 \<and> b = 0x80 then None
      else let acc = acc * 128 + unat (b AND 0x7F) in
        if \<not> bit b 7 then (if acc > 2147483647 then None else Some (acc, bs))
        else base128 (Suc shifted) acc bs)"

fun long_len :: "nat \<Rightarrow> nat \<Rightarrow> bytes \<Rightarrow> (nat \<times> bytes) option" where
  "long_len 0 acc bs = Some (acc, bs)"
| "long_len (Suc k) acc [] = None"
| "long_len (Suc k) acc (b # bs) =
     (if acc \<ge> 8388608 then None
      else let acc = acc * 256 + unat b in
        if acc = 0 then None else long_len k acc bs)"

text \<open>\<^verbatim>\<open>parseTagAndLength\<close>: the first tag byte with its number, the content length, the remaining input.\<close>

definition parseLen :: "bytes \<Rightarrow> (nat \<times> bytes) option" where
  "parseLen bs =
     (case bs of
        [] \<Rightarrow> None
      | b # bs \<Rightarrow>
          if \<not> bit b 7 then Some (unat b, bs)
          else if unat (b AND 0x7F) = 0 then None
          else case long_len (unat (b AND 0x7F)) 0 bs of
            None \<Rightarrow> None
          | Some (n, rest) \<Rightarrow> if n < 128 then None else Some (n, rest))"

definition parseTag :: "bytes \<Rightarrow> (byte \<times> bytes) option" where
  "parseTag bs =
     (case bs of
        [] \<Rightarrow> None
      | b # bs \<Rightarrow>
          if b AND 0x1F = 0x1F then
            (case base128 0 0 bs of
               None \<Rightarrow> None
             | Some (tag, rest) \<Rightarrow> if tag < 31 then None else Some (b, rest))
          else Some (b, bs))"

text \<open>One element: its first tag byte, its content and what follows it.\<close>

definition parseElem :: "bytes \<Rightarrow> (byte \<times> bytes \<times> bytes) option" where
  "parseElem bs =
     (case parseTag bs of
        None \<Rightarrow> None
      | Some (tag, bs) \<Rightarrow>
          (case parseLen bs of
             None \<Rightarrow> None
           | Some (n, bs) \<Rightarrow> if length bs < n then None else Some (tag, take n bs, drop n bs)))"

definition expect :: "byte \<Rightarrow> bytes \<Rightarrow> (bytes \<times> bytes) option" where
  "expect tag bs =
     (case parseElem bs of
        None \<Rightarrow> None
      | Some (t, content, rest) \<Rightarrow> if t = tag then Some (content, rest) else None)"

definition sign_value :: "bytes \<Rightarrow> int" where
  "sign_value bs = foldl (\<lambda>acc b. acc * 256 + uint b) (if bit (hd bs) 7 then -1 else 0) bs"

definition parse_int64 :: "bytes \<Rightarrow> int option" where
  "parse_int64 bs =
     (if bs = [] \<or> length bs > 8 then None
      else if length bs > 1 \<and>
        ((bs ! 0 = 0 \<and> \<not> bit (bs ! 1) 7) \<or> (bs ! 0 = 0xFF \<and> bit (bs ! 1) 7)) then None
      else Some (sign_value bs))"

definition unmarshal_bytes :: "bytes \<Rightarrow> bytes option" where
  "unmarshal_bytes bs = map_option fst (expect tagOctetString bs)"

text \<open>A slice of \<^verbatim>\<open>RawValue\<close>: any elements, of which the program keeps the content.\<close>

function rawValues :: "bytes \<Rightarrow> bytes list option" where
  "rawValues bs =
     (if bs = [] then Some []
      else case parseElem bs of
        None \<Rightarrow> None
      | Some (_, content, rest) \<Rightarrow>
          if length rest < length bs then map_option ((#) content) (rawValues rest) else None)"
  by pat_completeness auto
termination
  by (relation "measure length") auto

declare rawValues.simps [simp del]

definition unmarshal_raws :: "bytes \<Rightarrow> bytes list option" where
  "unmarshal_raws bs =
     (case expect tagSequence bs of None \<Rightarrow> None | Some (content, _) \<Rightarrow> rawValues content)"

text \<open>A struct of a byte slice and an int; bytes after the last field are ignored.\<close>

definition unmarshal_bytes_int :: "bytes \<Rightarrow> (bytes \<times> int) option" where
  "unmarshal_bytes_int bs =
     (case expect tagSequence bs of
        None \<Rightarrow> None
      | Some (content, _) \<Rightarrow>
          (case expect tagOctetString content of
             None \<Rightarrow> None
           | Some (ip, rest) \<Rightarrow>
               (case expect tagInteger rest of
                  None \<Rightarrow> None
                | Some (v, _) \<Rightarrow> map_option (Pair ip) (parse_int64 v))))"

section \<open>Round trips\<close>

lemma bit_word_byte7: "bit (word_of_int i :: byte) 7 \<longleftrightarrow> bit i 7"
  by (simp add: bit_word_of_int_iff)

lemma long_len_be_bytes:
  "0 < n \<Longrightarrow> n < 2147483648 \<Longrightarrow>
     long_len (length (be_bytes n) + k) 0 (be_bytes n @ rest) = long_len k n rest"
proof (induction n arbitrary: k rest rule: be_bytes.induct)
  case (1 n)
  show ?case
  proof (cases "n < 256")
    case True
    with 1 show ?thesis by (simp add: be_bytes.simps [of n] unat_of_nat)
  next
    case False
    have "long_len (length (be_bytes (n div 256)) + Suc k) 0
        (be_bytes (n div 256) @ word_of_nat (n mod 256) # rest) =
        long_len (Suc k) (n div 256) (word_of_nat (n mod 256) # rest)"
      using False 1(3) by (intro 1(1)) (simp_all del: long_len.simps)
    also have "\<dots> = long_len k n rest"
    proof -
      have "unat (word_of_nat (n mod 256) :: byte) = n mod 256" by (simp add: unat_of_nat)
      moreover have "n div 256 < 8388608" using 1(3) by linarith
      ultimately show ?thesis using 1(2) by (simp add: Let_def)
    qed
    finally show ?thesis using False by (simp add: be_bytes.simps [of n])
  qed
qed

lemma length_be_bytes: "n < 256 ^ Suc k \<Longrightarrow> length (be_bytes n) \<le> Suc k"
proof (induction k arbitrary: n)
  case (Suc k)
  then have "n div 256 < 256 ^ Suc k" by (simp add: div_less_iff_less_mult)
  with Suc.IH show ?case by (subst be_bytes.simps) simp
qed (simp add: be_bytes.simps)

lemma parseLen_der_len:
  assumes "n < 2147483648"
  shows "parseLen (der_len n @ rest) = Some (n, rest)"
proof (cases "n < 128")
  case True
  then have "unat (word_of_nat n :: byte) = n"
    by (simp add: unat_of_nat)
  moreover have "\<not> bit (word_of_nat n :: byte) 7"
    using bit_word_byte7 [of "int n"] True by (simp add: bit_iff_odd)
  ultimately show ?thesis using True by (simp add: parseLen_def der_len_def)
next
  case False
  let ?k = "length (be_bytes n)"
  have k: "?k \<le> 4" using assms length_be_bytes [of n 3] by simp
  have k0: "0 < ?k" by (subst be_bytes.simps) simp
  have "?k = 1 \<or> ?k = 2 \<or> ?k = 3 \<or> ?k = 4" using k k0 by linarith
  then have "?k \<in> {1, 2, 3, 4}" by simp
  then have b: "bit (word_of_nat (128 + ?k) :: byte) 7"
    "unat ((word_of_nat (128 + ?k) :: byte) AND 127) = ?k"
    by (elim insertE; simp)+
  with False assms k0 long_len_be_bytes [of n 0 rest] show ?thesis
    by (simp add: parseLen_def der_len_def)
qed

text \<open>Content this program encodes is far below the 2 GiB bound of the decoder.\<close>

lemma parseElem_tlv:
  assumes "t AND 0x1F \<noteq> 0x1F" "length c < 2147483648"
  shows "parseElem (tlv t c @ rest) = Some (t, c, rest)"
  using assms by (simp add: parseElem_def tlv_def parseTag_def parseLen_der_len)

lemma expect_tlv:
  assumes "t \<in> {tagInteger, tagOctetString, tagUTF8String, tagSequence}" "length c < 2147483648"
  shows "expect t (tlv t c @ rest) = Some (c, rest)"
proof -
  have "t AND 0x1F \<noteq> 0x1F" using assms(1) by (auto simp: tag_defs)
  with assms(2) show ?thesis by (simp add: expect_def parseElem_tlv)
qed

lemma length_tlv: "length (tlv t c) = 1 + length (der_len (length c)) + length c"
  by (simp add: tlv_def)

lemma rawValues_tlvs:
  "\<forall>c \<in> set cs. length c < 2147483648 \<Longrightarrow> rawValues (concat (map (tlv tagUTF8String) cs)) = Some cs"
proof (induction cs)
  case (Cons c cs)
  have "parseElem (tlv tagUTF8String c @ concat (map (tlv tagUTF8String) cs)) =
      Some (tagUTF8String, c, concat (map (tlv tagUTF8String) cs))"
    using Cons.prems by (intro parseElem_tlv) (auto simp: tagUTF8String_def)
  moreover have "tlv tagUTF8String c \<noteq> []" by (simp add: tlv_def)
  ultimately show ?case
    using Cons by (subst rawValues.simps) simp
qed (simp add: rawValues.simps)

lemma parse_int_bytes:
  assumes "-128 \<le> i" "i < 256"
  shows "parse_int64 (int_bytes i) = Some i"
proof (cases "i < 128")
  case True
  with assms have e: "int_bytes i = [word_of_int i]" by (simp add: int_bytes.simps)
  have u: "uint (word_of_int i :: byte) = i mod 256" by (simp add: uint_word_of_int)
  have "i div 128 = (if i < 0 then -1 else 0)"
    using True assms by (auto intro: int_div_pos_eq int_div_neg_eq)
  then have "bit (word_of_int i :: byte) 7 \<longleftrightarrow> i < 0"
    by (simp only: bit_word_byte7) (simp add: bit_iff_odd)
  moreover have "i mod 256 = (if i < 0 then i + 256 else i)"
    using True assms mod_pos_pos_trivial [of "i + 256" 256] by auto
  ultimately show ?thesis
    by (auto simp: e u parse_int64_def sign_value_def)
next
  case False
  with assms have e: "int_bytes i = [0, word_of_int i]"
    by (subst int_bytes.simps, subst int_bytes.simps) (simp add: div_pos_pos_trivial)
  have u: "uint (word_of_int i :: byte) = i" using False assms by (simp add: uint_word_of_int)
  have "i div 128 = 1" using False assms by (auto intro: int_div_pos_eq)
  then have "bit (word_of_int i :: byte) 7"
    by (simp only: bit_word_byte7) (simp add: bit_iff_odd)
  with u show ?thesis by (auto simp: e parse_int64_def sign_value_def)
qed

end
