(* ===== verification/Neth_Crypto.thy ===== *)
theory Neth_Crypto
  imports Neth_Prelude
begin

text \<open>
  The primitives of Go's standard \<^verbatim>\<open>crypto\<close> packages the program calls: \<^verbatim>\<open>crypto/sha256\<close>, \<^verbatim>\<open>crypto/hmac\<close>,
  \<^verbatim>\<open>crypto/aes\<close> and the GCM mode of \<^verbatim>\<open>crypto/cipher\<close>, after FIPS 180-4, FIPS 198-1, FIPS 197 and
  SP 800-38D.  They are definitions, not assumptions: that \<open>Open\<close> inverts \<open>Seal\<close> is a lemma.  That
  they are hard to break is not stated anywhere in the development.
\<close>

section \<open>SHA-256 and HMAC\<close>

definition sha256_K :: "u32 list" where
  "sha256_K =
    [0x428A2F98, 0x71374491, 0xB5C0FBCF, 0xE9B5DBA5, 0x3956C25B, 0x59F111F1, 0x923F82A4, 0xAB1C5ED5,
     0xD807AA98, 0x12835B01, 0x243185BE, 0x550C7DC3, 0x72BE5D74, 0x80DEB1FE, 0x9BDC06A7, 0xC19BF174,
     0xE49B69C1, 0xEFBE4786, 0x0FC19DC6, 0x240CA1CC, 0x2DE92C6F, 0x4A7484AA, 0x5CB0A9DC, 0x76F988DA,
     0x983E5152, 0xA831C66D, 0xB00327C8, 0xBF597FC7, 0xC6E00BF3, 0xD5A79147, 0x06CA6351, 0x14292967,
     0x27B70A85, 0x2E1B2138, 0x4D2C6DFC, 0x53380D13, 0x650A7354, 0x766A0ABB, 0x81C2C92E, 0x92722C85,
     0xA2BFE8A1, 0xA81A664B, 0xC24B8B70, 0xC76C51A3, 0xD192E819, 0xD6990624, 0xF40E3585, 0x106AA070,
     0x19A4C116, 0x1E376C08, 0x2748774C, 0x34B0BCB5, 0x391C0CB3, 0x4ED8AA4A, 0x5B9CCA4F, 0x682E6FF3,
     0x748F82EE, 0x78A5636F, 0x84C87814, 0x8CC70208, 0x90BEFFFA, 0xA4506CEB, 0xBEF9A3F7, 0xC67178F2]"

definition sha256_H :: "u32 list" where
  "sha256_H =
    [0x6A09E667, 0xBB67AE85, 0x3C6EF372, 0xA54FF53A, 0x510E527F, 0x9B05688C, 0x1F83D9AB, 0x5BE0CD19]"

definition sha256_pad :: "bytes \<Rightarrow> bytes" where
  "sha256_pad m = m @ 0x80 # replicate ((119 - length m mod 64) mod 64) 0 @
     put_be 8 (word_of_nat (8 * length m) :: u64)"

fun chunks :: "nat \<Rightarrow> 'a list \<Rightarrow> 'a list list" where
  "chunks n xs = (if n = 0 \<or> xs = [] then [] else take n xs # chunks n (drop n xs))"

declare chunks.simps [simp del]

text \<open>The message schedule is kept newest word first.\<close>

primrec sha256_schedule :: "nat \<Rightarrow> u32 list \<Rightarrow> u32 list" where
  "sha256_schedule 0 w = w"
| "sha256_schedule (Suc n) w =
     (let x = w ! 14; y = w ! 1;
          s0 = word_rotr 7 x XOR word_rotr 18 x XOR drop_bit 3 x;
          s1 = word_rotr 17 y XOR word_rotr 19 y XOR drop_bit 10 y
      in sha256_schedule n ((w ! 15 + s0 + w ! 6 + s1) # w))"

fun sha256_round :: "u32 list \<Rightarrow> u32 \<times> u32 \<Rightarrow> u32 list" where
  "sha256_round [a, b, c, d, e, f, g, h] (k, w) =
     (let S1 = word_rotr 6 e XOR word_rotr 11 e XOR word_rotr 25 e;
          ch = (e AND f) XOR (NOT e AND g);
          t1 = h + S1 + ch + k + w;
          S0 = word_rotr 2 a XOR word_rotr 13 a XOR word_rotr 22 a;
          maj = (a AND b) XOR (a AND c) XOR (b AND c);
          t2 = S0 + maj
      in [t1 + t2, a, b, c, d + t1, e, f, g])"
| "sha256_round st _ = st"

definition sha256_block :: "u32 list \<Rightarrow> bytes \<Rightarrow> u32 list" where
  "sha256_block H blk =
     (let w = rev (sha256_schedule 48 (rev (map get_be (chunks 4 blk))))
      in map2 (+) H (foldl sha256_round H (zip sha256_K w)))"

definition Sum256 :: "bytes \<Rightarrow> bytes" where
  "Sum256 m = concat (map (put_be 4) (foldl sha256_block sha256_H (chunks 64 (sha256_pad m))))"

definition hmac_pad :: "bytes \<Rightarrow> bytes" where
  "hmac_pad key = (let k = if length key > 64 then Sum256 key else key in k @ replicate (64 - length k) 0)"

definition hmac_sha256 :: "bytes \<Rightarrow> bytes \<Rightarrow> bytes" where
  "hmac_sha256 key m =
     Sum256 (map ((XOR) 0x5C) (hmac_pad key) @ Sum256 (map ((XOR) 0x36) (hmac_pad key) @ m))"

lemma length_sha256_round [simp]: "length (sha256_round st kw) = length st"
  by (induction st kw rule: sha256_round.induct) (simp_all add: Let_def)

lemma length_foldl_inv:
  "(\<And>s x. length (f s x) = length s) \<Longrightarrow> length (foldl f s xs) = length s"
  by (induction xs arbitrary: s) simp_all

lemma length_Sum256 [simp]: "length (Sum256 m) = 32"
proof -
  have "length (foldl sha256_round H xs) = length H" for H xs
    by (rule length_foldl_inv) simp
  moreover have "length (zip sha256_K w) \<le> 64" for w :: "u32 list"
    by (simp add: sha256_K_def)
  ultimately have "length (sha256_block H b) = length H" for H b
    by (simp add: sha256_block_def Let_def)
  then have "length (foldl sha256_block sha256_H xs) = 8" for xs
    using length_foldl_inv [of sha256_block sha256_H xs] by (simp add: sha256_H_def)
  moreover have "length (concat (map (put_be 4) ws)) = 4 * length ws" for ws :: "u32 list"
    by (induction ws) simp_all
  ultimately show ?thesis by (simp add: Sum256_def)
qed

lemma length_hmac_sha256 [simp]: "length (hmac_sha256 key m) = 32"
  by (simp add: hmac_sha256_def)

section \<open>AES\<close>

definition sbox :: "byte list" where
  "sbox =
    [0x63, 0x7C, 0x77, 0x7B, 0xF2, 0x6B, 0x6F, 0xC5, 0x30, 0x01, 0x67, 0x2B, 0xFE, 0xD7, 0xAB, 0x76,
     0xCA, 0x82, 0xC9, 0x7D, 0xFA, 0x59, 0x47, 0xF0, 0xAD, 0xD4, 0xA2, 0xAF, 0x9C, 0xA4, 0x72, 0xC0,
     0xB7, 0xFD, 0x93, 0x26, 0x36, 0x3F, 0xF7, 0xCC, 0x34, 0xA5, 0xE5, 0xF1, 0x71, 0xD8, 0x31, 0x15,
     0x04, 0xC7, 0x23, 0xC3, 0x18, 0x96, 0x05, 0x9A, 0x07, 0x12, 0x80, 0xE2, 0xEB, 0x27, 0xB2, 0x75,
     0x09, 0x83, 0x2C, 0x1A, 0x1B, 0x6E, 0x5A, 0xA0, 0x52, 0x3B, 0xD6, 0xB3, 0x29, 0xE3, 0x2F, 0x84,
     0x53, 0xD1, 0x00, 0xED, 0x20, 0xFC, 0xB1, 0x5B, 0x6A, 0xCB, 0xBE, 0x39, 0x4A, 0x4C, 0x58, 0xCF,
     0xD0, 0xEF, 0xAA, 0xFB, 0x43, 0x4D, 0x33, 0x85, 0x45, 0xF9, 0x02, 0x7F, 0x50, 0x3C, 0x9F, 0xA8,
     0x51, 0xA3, 0x40, 0x8F, 0x92, 0x9D, 0x38, 0xF5, 0xBC, 0xB6, 0xDA, 0x21, 0x10, 0xFF, 0xF3, 0xD2,
     0xCD, 0x0C, 0x13, 0xEC, 0x5F, 0x97, 0x44, 0x17, 0xC4, 0xA7, 0x7E, 0x3D, 0x64, 0x5D, 0x19, 0x73,
     0x60, 0x81, 0x4F, 0xDC, 0x22, 0x2A, 0x90, 0x88, 0x46, 0xEE, 0xB8, 0x14, 0xDE, 0x5E, 0x0B, 0xDB,
     0xE0, 0x32, 0x3A, 0x0A, 0x49, 0x06, 0x24, 0x5C, 0xC2, 0xD3, 0xAC, 0x62, 0x91, 0x95, 0xE4, 0x79,
     0xE7, 0xC8, 0x37, 0x6D, 0x8D, 0xD5, 0x4E, 0xA9, 0x6C, 0x56, 0xF4, 0xEA, 0x65, 0x7A, 0xAE, 0x08,
     0xBA, 0x78, 0x25, 0x2E, 0x1C, 0xA6, 0xB4, 0xC6, 0xE8, 0xDD, 0x74, 0x1F, 0x4B, 0xBD, 0x8B, 0x8A,
     0x70, 0x3E, 0xB5, 0x66, 0x48, 0x03, 0xF6, 0x0E, 0x61, 0x35, 0x57, 0xB9, 0x86, 0xC1, 0x1D, 0x9E,
     0xE1, 0xF8, 0x98, 0x11, 0x69, 0xD9, 0x8E, 0x94, 0x9B, 0x1E, 0x87, 0xE9, 0xCE, 0x55, 0x28, 0xDF,
     0x8C, 0xA1, 0x89, 0x0D, 0xBF, 0xE6, 0x42, 0x68, 0x41, 0x99, 0x2D, 0x0F, 0xB0, 0x54, 0xBB, 0x16]"

definition subByte :: "byte \<Rightarrow> byte" where
  "subByte b = sbox ! unat b"

definition xtime :: "byte \<Rightarrow> byte" where
  "xtime b = (push_bit 1 b XOR (if bit b 7 then 0x1B else 0))"

text \<open>
  The key schedule is kept newest word first, each word as four bytes; \<open>rc\<close> is the round constant.
\<close>

fun xorHead :: "byte \<Rightarrow> bytes \<Rightarrow> bytes" where
  "xorHead rc [] = []"
| "xorHead rc (b # bs) = (b XOR rc) # bs"

fun expandKey :: "nat \<Rightarrow> nat \<Rightarrow> nat \<Rightarrow> byte \<Rightarrow> bytes list \<Rightarrow> bytes list" where
  "expandKey 0 nk i rc ws = ws"
| "expandKey (Suc n) nk i rc ws =
     (let prev = hd ws;
          t = (if i mod nk = 0 then xorHead rc (map subByte (rotate1 prev))
               else if nk > 6 \<and> i mod nk = 4 then map subByte prev
               else prev)
      in expandKey n nk (Suc i) (if i mod nk = 0 then xtime rc else rc)
           (map2 (XOR) (ws ! (nk - 1)) t # ws))"

definition roundKeys :: "bytes \<Rightarrow> bytes list" where
  "roundKeys key =
     (let nk = length key div 4; nr = nk + 6
      in map concat (chunks 4 (rev (expandKey (4 * (nr + 1) - nk) nk nk 1 (rev (chunks 4 key))))))"

definition shiftRows :: "bytes \<Rightarrow> bytes" where
  "shiftRows s = map (\<lambda>i. s ! i) [0, 5, 10, 15, 4, 9, 14, 3, 8, 13, 2, 7, 12, 1, 6, 11]"

fun mixColumn :: "bytes \<Rightarrow> bytes" where
  "mixColumn [a, b, c, d] =
     (let t = a XOR b XOR c XOR d
      in [a XOR t XOR xtime (a XOR b), b XOR t XOR xtime (b XOR c),
          c XOR t XOR xtime (c XOR d), d XOR t XOR xtime (d XOR a)])"
| "mixColumn s = s"

definition mixColumns :: "bytes \<Rightarrow> bytes" where
  "mixColumns s = concat (map mixColumn (chunks 4 s))"

fun aesRounds :: "bytes list \<Rightarrow> bytes \<Rightarrow> bytes" where
  "aesRounds [] s = s"
| "aesRounds [k] s = map2 (XOR) k (shiftRows (map subByte s))"
| "aesRounds (k # k' # ks) s =
     aesRounds (k' # ks) (map2 (XOR) k (mixColumns (shiftRows (map subByte s))))"

definition encryptBlock :: "bytes \<Rightarrow> bytes \<Rightarrow> bytes" where
  "encryptBlock key blk =
     (case roundKeys key of
        [] \<Rightarrow> blk
      | k # ks \<Rightarrow> aesRounds ks (map2 (XOR) k blk))"

section \<open>Galois/Counter mode\<close>

fun gf_mul_loop :: "nat \<Rightarrow> 128 word \<Rightarrow> 128 word \<Rightarrow> 128 word \<Rightarrow> 128 word" where
  "gf_mul_loop 0 x v z = z"
| "gf_mul_loop (Suc n) x v z =
     gf_mul_loop n x
       (if bit v 0 then drop_bit 1 v XOR push_bit 120 0xE1 else drop_bit 1 v)
       (if bit x n then z XOR v else z)"

definition gf_mul :: "128 word \<Rightarrow> 128 word \<Rightarrow> 128 word" where
  "gf_mul x y = gf_mul_loop 128 x y 0"

definition pad16 :: "bytes \<Rightarrow> bytes" where
  "pad16 m = m @ replicate ((16 - length m mod 16) mod 16) 0"

definition ghash :: "128 word \<Rightarrow> bytes \<Rightarrow> bytes \<Rightarrow> bytes" where
  "ghash h ad ct =
     put_be 16 (foldl (\<lambda>y blk. gf_mul (y XOR get_be blk) h) 0
       (chunks 16 (pad16 ad @ pad16 ct @ put_be 8 (word_of_nat (8 * length ad) :: u64)
          @ put_be 8 (word_of_nat (8 * length ct) :: u64))))"

text \<open>The key stream: one block per counter value, the counter in the last four bytes.\<close>

definition ctrBlock :: "bytes \<Rightarrow> bytes \<Rightarrow> nat \<Rightarrow> bytes" where
  "ctrBlock key nonce i = encryptBlock key (nonce @ put_be 4 (word_of_nat i :: u32))"

definition keyStream :: "bytes \<Rightarrow> bytes \<Rightarrow> nat \<Rightarrow> bytes" where
  "keyStream key nonce n = concat (map (ctrBlock key nonce) [2..<2 + (n + 15) div 16])"

definition ctrXor :: "bytes \<Rightarrow> bytes \<Rightarrow> bytes \<Rightarrow> bytes" where
  "ctrXor key nonce m = map2 (XOR) m (keyStream key nonce (length m))"

definition gcmTagSize :: nat where
  "gcmTagSize = 16"

definition gcmTag :: "bytes \<Rightarrow> bytes \<Rightarrow> bytes \<Rightarrow> bytes \<Rightarrow> bytes" where
  "gcmTag key nonce ct ad =
     map2 (XOR) (ctrBlock key nonce 1)
       (ghash (get_be (encryptBlock key (replicate 16 0))) ad ct)"

definition Seal :: "bytes \<Rightarrow> bytes \<Rightarrow> bytes \<Rightarrow> bytes \<Rightarrow> bytes" where
  "Seal key nonce plaintext ad =
     (let ct = ctrXor key nonce plaintext in ct @ gcmTag key nonce ct ad)"

definition Open :: "bytes \<Rightarrow> bytes \<Rightarrow> bytes \<Rightarrow> bytes \<Rightarrow> bytes option" where
  "Open key nonce ciphertext ad =
     (if length ciphertext < gcmTagSize then None
      else let ct = take (length ciphertext - gcmTagSize) ciphertext;
               tag = drop (length ciphertext - gcmTagSize) ciphertext
      in if tag = gcmTag key nonce ct ad then Some (ctrXor key nonce ct) else None)"

section \<open>Opening what was sealed\<close>

lemma chunks_Nil [simp]: "chunks n [] = []"
  by (simp add: chunks.simps)

lemma chunks_exact:
  assumes "length xs = n * k" "0 < n"
  shows "length (chunks n xs) = k \<and> (\<forall>c \<in> set (chunks n xs). length c = n) \<and> concat (chunks n xs) = xs"
  using assms
proof (induction k arbitrary: xs)
  case (Suc k)
  then have "chunks n xs = take n xs # chunks n (drop n xs)"
    by (subst chunks.simps) auto
  with Suc.IH [of "drop n xs"] Suc.prems show ?case by simp
qed simp

lemma length_concat_const:
  "\<forall>c \<in> set cs. length c = n \<Longrightarrow> length (concat cs) = n * length cs"
  by (induction cs) (auto simp: algebra_simps)

definition aesKey :: "bytes \<Rightarrow> bool" where
  "aesKey key \<longleftrightarrow> length key \<in> {16, 24, 32}"

lemma length_xorHead [simp]: "length (xorHead rc bs) = length bs"
  by (cases bs) simp_all

lemma expandKey_shape:
  assumes "nk \<le> length ws" "0 < nk" "\<forall>w \<in> set ws. length w = 4"
  shows "length (expandKey n nk i rc ws) = n + length ws \<and>
    (\<forall>w \<in> set (expandKey n nk i rc ws). length w = 4)"
  using assms
proof (induction n arbitrary: i rc ws)
  case (Suc n)
  have ne: "ws \<noteq> []" "nk - 1 < length ws" using Suc.prems by auto
  have l: "length (hd ws) = 4" "length (ws ! (nk - 1)) = 4"
    using Suc.prems ne by auto
  let ?t = "if i mod nk = 0 then xorHead rc (map subByte (rotate1 (hd ws)))
    else if nk > 6 \<and> i mod nk = 4 then map subByte (hd ws) else hd ws"
  have "length ?t = length (hd ws)"
    by simp
  with l have w: "length (map2 (XOR) (ws ! (nk - 1)) ?t) = 4" by simp
  let ?ws = "map2 (XOR) (ws ! (nk - 1)) ?t # ws"
  have "\<forall>w \<in> set ?ws. length w = 4" using w Suc.prems(3) by (simp del: length_map)
  moreover have "nk \<le> length ?ws" using Suc.prems(1) by simp
  ultimately have "length (expandKey n nk (Suc i) rc' ?ws) = n + length ?ws \<and>
      (\<forall>w \<in> set (expandKey n nk (Suc i) rc' ?ws). length w = 4)" for rc'
    using Suc.IH Suc.prems(2) by blast
  then show ?case unfolding expandKey.simps Let_def by (simp only: length_Cons add_Suc add_Suc_right) blast
qed simp

lemma roundKeys_shape:
  assumes "aesKey key"
  shows "roundKeys key \<noteq> [] \<and> (\<forall>k \<in> set (roundKeys key). length k = 16)"
proof -
  define nk where "nk = length key div 4"
  have nk: "length key = 4 * nk" "0 < nk" "nk \<le> 4 * (nk + 6 + 1)"
    using assms by (auto simp: aesKey_def nk_def)
  let ?ws = "expandKey (4 * (nk + 6 + 1) - nk) nk nk 1 (rev (chunks 4 key))"
  have c: "length (chunks 4 key) = nk" "\<forall>w \<in> set (chunks 4 key). length w = 4"
    using chunks_exact [OF nk(1)] by auto
  have w: "length ?ws = 4 * (nk + 7)" "\<forall>w \<in> set ?ws. length w = 4"
    using expandKey_shape [of nk "rev (chunks 4 key)" "4 * (nk + 6 + 1) - nk" nk 1] c nk by auto
  note b = chunks_exact [of "rev ?ws" 4 "nk + 7"]
  have "length k = 16" if "k \<in> set (map concat (chunks 4 (rev ?ws)))" for k
  proof -
    from that obtain c where c: "c \<in> set (chunks 4 (rev ?ws))" "k = concat c" by auto
    have "set c \<subseteq> set (concat (chunks 4 (rev ?ws)))" using c(1) by auto
    also have "\<dots> = set ?ws" using b w by (simp only: length_rev set_rev)
    finally have "\<forall>x \<in> set c. length x = 4" using w by blast
    moreover have "length c = 4" using b w c(1) by auto
    ultimately show ?thesis using c(2) length_concat_const [of c 4] by simp
  qed
  moreover have "map concat (chunks 4 (rev ?ws)) \<noteq> []"
    using b w by (auto simp flip: length_greater_0_conv)
  ultimately show ?thesis
    by (simp add: roundKeys_def Let_def nk_def [symmetric])
qed

lemma length_mixColumn [simp]: "length (mixColumn c) = length c"
  by (induction c rule: mixColumn.induct) (simp_all add: Let_def)

lemma length_mixColumns: "length s = 16 \<Longrightarrow> length (mixColumns s) = 16"
  using chunks_exact [of s 4 4] length_concat_const [of "map mixColumn (chunks 4 s)" 4]
  by (auto simp: mixColumns_def)

lemma length_aesRounds:
  "\<forall>k \<in> set ks. length k = 16 \<Longrightarrow> length s = 16 \<Longrightarrow> length (aesRounds ks s) = 16"
  by (induction ks s rule: aesRounds.induct) (simp_all add: length_mixColumns shiftRows_def)

lemma length_encryptBlock:
  assumes "aesKey key" "length blk = 16"
  shows "length (encryptBlock key blk) = 16"
  using roundKeys_shape [OF assms(1)] assms(2)
  by (auto simp: encryptBlock_def intro!: length_aesRounds split: list.splits)

lemma length_keyStream:
  assumes "aesKey key" "length nonce = 12"
  shows "n \<le> length (keyStream key nonce n)"
proof -
  have "length (ctrBlock key nonce i) = 16" for i
    using assms by (simp add: ctrBlock_def length_encryptBlock)
  then have "length (concat (map (ctrBlock key nonce) is)) = 16 * length is" for "is"
    by (induction "is") simp_all
  then have "length (keyStream key nonce n) = 16 * ((n + 15) div 16)"
    by (simp only: keyStream_def length_upt diff_add_inverse)
  then show ?thesis by simp
qed

lemma xor_stream_twice:
  "length m \<le> length ks \<Longrightarrow> map2 (XOR) (map2 (XOR) m ks) ks = (m :: bytes)"
  by (induction m ks rule: list_induct2') (simp_all add: ac_simps flip: xor.assoc)

lemma length_ctrXor:
  "aesKey key \<Longrightarrow> length nonce = 12 \<Longrightarrow> length (ctrXor key nonce m) = length m"
  by (simp add: ctrXor_def length_keyStream min_absorb1)

lemma ctrXor_ctrXor:
  "aesKey key \<Longrightarrow> length nonce = 12 \<Longrightarrow> ctrXor key nonce (ctrXor key nonce m) = m"
  using length_ctrXor [of key nonce m] xor_stream_twice [OF length_keyStream [of key nonce "length m"]]
  by (simp add: ctrXor_def)

lemma length_gcmTag:
  "aesKey key \<Longrightarrow> length nonce = 12 \<Longrightarrow> length (gcmTag key nonce ct ad) = gcmTagSize"
  by (simp add: gcmTag_def gcmTagSize_def ctrBlock_def length_encryptBlock ghash_def)

lemma Open_Seal:
  assumes "aesKey key" "length nonce = 12"
  shows "Open key nonce (Seal key nonce m ad) ad = Some m"
  using length_gcmTag [OF assms] assms
  by (simp add: Open_def Seal_def Let_def ctrXor_ctrXor)

lemma length_Seal:
  "aesKey key \<Longrightarrow> length nonce = 12 \<Longrightarrow> length (Seal key nonce m ad) = length m + gcmTagSize"
  by (simp add: Seal_def Let_def length_ctrXor length_gcmTag)

end
