(* ===== verification/Neth_Cert.thy ===== *)
theory Neth_Cert
  imports Neth_Netip Neth_Der Neth_Crypto
begin

text \<open>
  The \<^verbatim>\<open>cert\<close> package: the neth extensions of an X.509 certificate (\<^verbatim>\<open>extensions.go\<close>), parsing (\<^verbatim>\<open>cert.go\<close>),
  issuing (\<^verbatim>\<open>ca.go\<close>), verification (\<^verbatim>\<open>verify.go\<close>) and key files (\<^verbatim>\<open>keys.go\<close>).  The X.509, PKCS#8 and PEM
  codecs and X25519 are the fields of the parameter \<open>x509_lib\<close>; random draws and the current time are
  arguments.  Of an \<^verbatim>\<open>x509.Certificate\<close> the record keeps what the program reads.
\<close>

section \<open>Data\<close>

record Extension =
  extId :: "int list"
  extValue :: bytes

definition oidVpnIP :: "int list" where
  "oidVpnIP = [1, 3, 6, 1, 4, 1, 65535, 1, 1]"

definition oidGroups :: "int list" where
  "oidGroups = [1, 3, 6, 1, 4, 1, 65535, 1, 2]"

definition oidCurve25519Key :: "int list" where
  "oidCurve25519Key = [1, 3, 6, 1, 4, 1, 65535, 1, 3]"

lemmas oid_defs = oidVpnIP_def oidGroups_def oidCurve25519Key_def

datatype PublicKey = Ed25519Public bytes | OtherPublic string

record X509 =
  xIsCA :: bool
  xCommonName :: string
  xExtensions :: "Extension list"
  xSignature :: bytes
  xPublicKey :: PublicKey
  xNotBefore :: int
  xNotAfter :: int

record Template =
  tSerialNumber :: int
  tCommonName :: string
  tNotBefore :: int
  tNotAfter :: int
  tIsCA :: bool
  tKeyUsage :: nat
  tBasicConstraintsValid :: bool
  tExtraExtensions :: "Extension list"

datatype PrivateKey = Ed25519Key bytes | OtherKey string

record x509_lib =
  pem_Decode :: "bytes \<Rightarrow> (string \<times> bytes) option"
  pem_EncodeToMemory :: "string \<Rightarrow> bytes \<Rightarrow> bytes"
  ParseCertificate :: "bytes \<Rightarrow> X509 option"
  x509_Verify :: "X509 \<Rightarrow> X509 list \<Rightarrow> int \<Rightarrow> bool"
  CreateCertificate :: "Template \<Rightarrow> X509 option \<Rightarrow> bytes \<Rightarrow> PrivateKey \<Rightarrow> bytes option"
  MarshalPKCS8PrivateKey :: "PrivateKey \<Rightarrow> bytes option"
  ParsePKCS8PrivateKey :: "bytes \<Rightarrow> PrivateKey option"
  X25519Base :: "bytes \<Rightarrow> bytes option"

record Certificate =
  certRaw :: bytes
  certX509 :: X509
  VpnIP :: Prefix
  Groups :: "string list"
  X25519PublicKey :: bytes

datatype cert_error =
    NoPEMBlock | WrongPEMType string | ParseX509Failed
  | DecodeVpnIPFailed | VpnIPLength nat | DecodeGroupsFailed | DecodeCurveFailed | CurveKeyLength nat
  | GotCACertificate | VerifyFailed | NotACA
  | GenerateKeyFailed | SerialPanic | CreateFailed | KeyFileLength nat | NotEd25519 string | DeriveFailed

section \<open>Extensions\<close>

definition encodeVpnIP :: "Prefix \<Rightarrow> Extension" where
  "encodeVpnIP prefix =
     (let addr = pfxAddr prefix;
          ip = (if Is4 addr then As4 addr else As16 addr)
      in \<lparr>extId = oidVpnIP, extValue = marshal_seq [marshal_bytes ip, marshal_int (pfxBits prefix)]\<rparr>)"

definition decodeVpnIP :: "Extension \<Rightarrow> (cert_error, Prefix) res" where
  "decodeVpnIP ext =
     (case unmarshal_bytes_int (extValue ext) of
        None \<Rightarrow> Inl DecodeVpnIPFailed
      | Some (ip, bits) \<Rightarrow>
          if length ip = 4 then Inr (PrefixFrom (AddrFrom4 ip) bits)
          else if length ip = 16 then Inr (PrefixFrom (AddrFrom16 ip) bits)
          else Inl (VpnIPLength (length ip)))"

definition encodeGroups :: "string list \<Rightarrow> Extension" where
  "encodeGroups groups =
     \<lparr>extId = oidGroups, extValue = marshal_seq (map (\<lambda>g. tlv tagUTF8String (str_bytes g)) groups)\<rparr>"

definition decodeGroups :: "Extension \<Rightarrow> (cert_error, string list) res" where
  "decodeGroups ext =
     (case unmarshal_raws (extValue ext) of
        None \<Rightarrow> Inl DecodeGroupsFailed
      | Some vals \<Rightarrow> Inr (map bytes_str vals))"

definition encodeCurve25519Key :: "bytes \<Rightarrow> (cert_error, Extension) res" where
  "encodeCurve25519Key pub =
     (if length pub \<noteq> 32 then Inl (CurveKeyLength (length pub))
      else Inr \<lparr>extId = oidCurve25519Key, extValue = marshal_bytes pub\<rparr>)"

definition decodeCurve25519Key :: "Extension \<Rightarrow> (cert_error, bytes) res" where
  "decodeCurve25519Key ext =
     (case unmarshal_bytes (extValue ext) of
        None \<Rightarrow> Inl DecodeCurveFailed
      | Some b \<Rightarrow> if length b \<noteq> 32 then Inl (CurveKeyLength (length b)) else Inr b)"

section \<open>Parsing\<close>

definition pemTypeCert :: string where
  "pemTypeCert = ''CERTIFICATE''"

primrec walkExtensions :: "Extension list \<Rightarrow> Certificate \<Rightarrow> (cert_error, Certificate) res" where
  "walkExtensions [] c = Inr c"
| "walkExtensions (ext # exts) c =
     (if extId ext = oidVpnIP then
        (case decodeVpnIP ext of Inl e \<Rightarrow> Inl e | Inr v \<Rightarrow> walkExtensions exts (c\<lparr>VpnIP := v\<rparr>))
      else if extId ext = oidGroups then
        (case decodeGroups ext of Inl e \<Rightarrow> Inl e | Inr v \<Rightarrow> walkExtensions exts (c\<lparr>Groups := v\<rparr>))
      else if extId ext = oidCurve25519Key then
        (case decodeCurve25519Key ext of
           Inl e \<Rightarrow> Inl e
         | Inr v \<Rightarrow> walkExtensions exts (c\<lparr>X25519PublicKey := v\<rparr>))
      else walkExtensions exts c)"

definition parseDER :: "x509_lib \<Rightarrow> bytes \<Rightarrow> (cert_error, Certificate) res" where
  "parseDER L der =
     (case ParseCertificate L der of
        None \<Rightarrow> Inl ParseX509Failed
      | Some x \<Rightarrow> walkExtensions (xExtensions x)
          \<lparr>certRaw = der, certX509 = x, VpnIP = PrefixZero, Groups = [], X25519PublicKey = []\<rparr>)"

definition ParseCert :: "x509_lib \<Rightarrow> bytes \<Rightarrow> (cert_error, Certificate) res" where
  "ParseCert L pemBytes =
     (case pem_Decode L pemBytes of
        None \<Rightarrow> Inl NoPEMBlock
      | Some (type, b) \<Rightarrow> if type \<noteq> pemTypeCert then Inl (WrongPEMType type) else parseDER L b)"

definition PEM :: "x509_lib \<Rightarrow> Certificate \<Rightarrow> bytes" where
  "PEM L c = pem_EncodeToMemory L pemTypeCert (certRaw c)"

definition Fingerprint :: "Certificate \<Rightarrow> bytes" where
  "Fingerprint c = Sum256 (certRaw c)"

definition IsCA :: "Certificate \<Rightarrow> bool" where
  "IsCA c = xIsCA (certX509 c)"

definition Name :: "Certificate \<Rightarrow> string" where
  "Name c = xCommonName (certX509 c)"

section \<open>Verification\<close>

definition Verify :: "x509_lib \<Rightarrow> Certificate \<Rightarrow> Certificate list \<Rightarrow> int \<Rightarrow> (cert_error, unit) res" where
  "Verify L c caPool now =
     (if IsCA c then Inl GotCACertificate
      else if \<not> x509_Verify L (certX509 c) (map certX509 caPool) now then Inl VerifyFailed
      else Inr ())"

definition VerifyCA :: "x509_lib \<Rightarrow> Certificate \<Rightarrow> int \<Rightarrow> (cert_error, unit) res" where
  "VerifyCA L ca now =
     (if \<not> IsCA ca then Inl NotACA
      else if \<not> x509_Verify L (certX509 ca) [certX509 ca] now then Inl VerifyFailed
      else Inr ())"

section \<open>Issuing\<close>

text \<open>
  The key pair drawn by \<^verbatim>\<open>ed25519.GenerateKey\<close> and the draw of \<^verbatim>\<open>rand.Int\<close> below a bound are arguments;
  \<open>None\<close> is a failing random source, on which \<open>newSerial\<close> panics.  A self-signed certificate has the
  template itself as parent (\<open>None\<close>).
\<close>

definition KeyUsageDigitalSignature :: nat where "KeyUsageDigitalSignature = 1"
definition KeyUsageCertSign :: nat where "KeyUsageCertSign = 32"
definition KeyUsageCRLSign :: nat where "KeyUsageCRLSign = 64"

definition newSerial :: "(int \<Rightarrow> int option) \<Rightarrow> (cert_error, int) res" where
  "newSerial rand_Int = (case rand_Int (push_bit 128 1) of None \<Rightarrow> Inl SerialPanic | Some n \<Rightarrow> Inr n)"

definition GenerateCA ::
  "x509_lib \<Rightarrow> (bytes \<times> bytes) option \<Rightarrow> (int \<Rightarrow> int option) \<Rightarrow> int \<Rightarrow> string \<Rightarrow> int
    \<Rightarrow> (cert_error, Certificate \<times> PrivateKey) res" where
  "GenerateCA L keys rnd now name duration =
     (case keys of
        None \<Rightarrow> Inl GenerateKeyFailed
      | Some (pub, priv) \<Rightarrow>
          (case newSerial rnd of
             Inl e \<Rightarrow> Inl e
           | Inr serial \<Rightarrow>
               let template = \<lparr>tSerialNumber = serial, tCommonName = name, tNotBefore = now,
                     tNotAfter = now + duration, tIsCA = True,
                     tKeyUsage = KeyUsageCertSign + KeyUsageCRLSign,
                     tBasicConstraintsValid = True, tExtraExtensions = []\<rparr> in
               (case CreateCertificate L template None pub (Ed25519Key priv) of
                  None \<Rightarrow> Inl CreateFailed
                | Some der \<Rightarrow>
                    (case parseDER L der of
                       Inl e \<Rightarrow> Inl e
                     | Inr c \<Rightarrow> Inr (c, Ed25519Key priv)))))"

definition Sign ::
  "x509_lib \<Rightarrow> (bytes \<times> bytes) option \<Rightarrow> (int \<Rightarrow> int option) \<Rightarrow> int \<Rightarrow> Certificate \<Rightarrow> string \<Rightarrow> Prefix
    \<Rightarrow> string list \<Rightarrow> bytes \<Rightarrow> int \<Rightarrow> PrivateKey \<Rightarrow> (cert_error, Certificate) res" where
  "Sign L keys rnd now ca name vpnIP groups curve25519Pub duration caKey =
     (case keys of
        None \<Rightarrow> Inl GenerateKeyFailed
      | Some (nodePub, _) \<Rightarrow>
          let extVpnIP = encodeVpnIP vpnIP in
          (case encodeCurve25519Key curve25519Pub of
             Inl e \<Rightarrow> Inl e
           | Inr extCurve \<Rightarrow>
               let extras = [extVpnIP, extCurve] @ (if length groups > 0 then [encodeGroups groups] else []) in
               (case newSerial rnd of
                  Inl e \<Rightarrow> Inl e
                | Inr serial \<Rightarrow>
                    let template = \<lparr>tSerialNumber = serial, tCommonName = name, tNotBefore = now,
                          tNotAfter = now + duration, tIsCA = False,
                          tKeyUsage = KeyUsageDigitalSignature,
                          tBasicConstraintsValid = False, tExtraExtensions = extras\<rparr> in
                    (case CreateCertificate L template (Some (certX509 ca)) nodePub caKey of
                       None \<Rightarrow> Inl CreateFailed
                     | Some der \<Rightarrow> parseDER L der))))"

section \<open>Keys\<close>

definition clamp :: "bytes \<Rightarrow> bytes" where
  "clamp priv =
     (let priv = priv[0 := priv ! 0 AND 248];
          priv = priv[31 := priv ! 31 AND 127]
      in priv[31 := priv ! 31 OR 64])"

text \<open>The 32 bytes read from the random source, or \<open>None\<close> when it fails.\<close>

definition GenerateX25519KeyPair :: "x509_lib \<Rightarrow> bytes option \<Rightarrow> (cert_error, bytes \<times> bytes) res" where
  "GenerateX25519KeyPair L rnd =
     (case rnd of
        None \<Rightarrow> Inl GenerateKeyFailed
      | Some r \<Rightarrow>
          let priv = clamp r in
          (case X25519Base L priv of
             None \<Rightarrow> Inl DeriveFailed
           | Some pub \<Rightarrow> Inr (priv, pub)))"

definition MarshalEd25519PrivateKey :: "x509_lib \<Rightarrow> PrivateKey \<Rightarrow> (cert_error, bytes) res" where
  "MarshalEd25519PrivateKey L key =
     (case MarshalPKCS8PrivateKey L key of
        None \<Rightarrow> Inl CreateFailed
      | Some der \<Rightarrow> Inr (pem_EncodeToMemory L ''PRIVATE KEY'' der))"

definition ParseEd25519PrivateKey :: "x509_lib \<Rightarrow> bytes \<Rightarrow> (cert_error, PrivateKey) res" where
  "ParseEd25519PrivateKey L pemBytes =
     (case pem_Decode L pemBytes of
        None \<Rightarrow> Inl NoPEMBlock
      | Some (_, b) \<Rightarrow>
          (case ParsePKCS8PrivateKey L b of
             None \<Rightarrow> Inl ParseX509Failed
           | Some (Ed25519Key k) \<Rightarrow> Inr (Ed25519Key k)
           | Some (OtherKey t) \<Rightarrow> Inl (NotEd25519 t)))"

definition pemTypeCurve25519Key :: string where
  "pemTypeCurve25519Key = ''NETH CURVE25519 PRIVATE KEY''"

definition MarshalX25519PrivateKey :: "x509_lib \<Rightarrow> bytes \<Rightarrow> (cert_error, bytes) res" where
  "MarshalX25519PrivateKey L key =
     (if length key \<noteq> 32 then Inl (KeyFileLength (length key))
      else Inr (pem_EncodeToMemory L pemTypeCurve25519Key key))"

definition ParseX25519PrivateKey :: "x509_lib \<Rightarrow> bytes \<Rightarrow> (cert_error, bytes) res" where
  "ParseX25519PrivateKey L pemBytes =
     (case pem_Decode L pemBytes of
        None \<Rightarrow> Inl NoPEMBlock
      | Some (type, b) \<Rightarrow>
          if type \<noteq> pemTypeCurve25519Key then Inl (WrongPEMType type)
          else if length b \<noteq> 32 then Inl (KeyFileLength (length b))
          else Inr b)"

section \<open>What the codecs promise\<close>

text \<open>
  \<^verbatim>\<open>pem.Decode\<close> inverts \<^verbatim>\<open>pem.EncodeToMemory\<close> on the block types the program writes; a certificate
  made by \<^verbatim>\<open>x509.CreateCertificate\<close> parses, keeps the template's name and CA flag, and carries the
  template's extra extensions unchanged after extensions of the standard's own.  The second is said of
  templates like those of \<^verbatim>\<open>ca.go\<close>: the CA flag comes with the basic constraints that express it, and the extra
  extensions are neth's, each at most once.
\<close>

definition pem_inverse :: "x509_lib \<Rightarrow> bool" where
  "pem_inverse L \<longleftrightarrow> (\<forall>ty b. ty \<in> {pemTypeCert, ''PRIVATE KEY'', pemTypeCurve25519Key} \<longrightarrow>
     pem_Decode L (pem_EncodeToMemory L ty b) = Some (ty, b))"

definition neth_oids :: "int list set" where
  "neth_oids = {oidVpnIP, oidGroups, oidCurve25519Key}"

definition issues_template :: "x509_lib \<Rightarrow> bool" where
  "issues_template L \<longleftrightarrow> (\<forall>t parent pub key der. CreateCertificate L t parent pub key = Some der \<and>
     (tIsCA t \<longrightarrow> tBasicConstraintsValid t) \<and> distinct (map extId (tExtraExtensions t)) \<and>
     extId ` set (tExtraExtensions t) \<subseteq> neth_oids \<longrightarrow>
     (\<exists>x pre. ParseCertificate L der = Some x \<and> xIsCA x = tIsCA t \<and> xCommonName x = tCommonName t \<and>
       xExtensions x = pre @ tExtraExtensions t \<and> (\<forall>e \<in> set pre. extId e \<notin> neth_oids)))"

section \<open>Extensions survive issuing and parsing\<close>

lemma length_der_len: "length (der_len n) \<le> 2 + n div 256"
proof -
  have "length (be_bytes n) \<le> 1 + n div 256" for n
  proof (induction n rule: be_bytes.induct)
    case (1 n)
    show ?case
    proof (cases "n < 256")
      case False
      then have "length (be_bytes n) \<le> 2 + n div 256 div 256"
        using 1 by (subst be_bytes.simps) simp
      moreover have "1 + n div 256 div 256 \<le> n div 256" using False by linarith
      ultimately show ?thesis by linarith
    qed (simp add: be_bytes.simps)
  qed
  then show ?thesis by (simp add: der_len_def)
qed

lemma decode_encode_VpnIP:
  assumes "p = PrefixFrom a n" "IsValid p"
  shows "decodeVpnIP (encodeVpnIP p) = Inr p"
proof -
  let ?ip = "if Is4 (pfxAddr p) then As4 (pfxAddr p) else As16 (pfxAddr p)"
  let ?content = "marshal_bytes ?ip @ marshal_int (pfxBits p)"
  have b: "0 \<le> pfxBits p" "pfxBits p \<le> 128" "pfxAddr p \<noteq> AddrZero"
    using assms by (cases a; auto simp: PrefixFrom_def IsValid_def BitLen_def withoutZone_def split: if_splits)+
  have ib: "length (int_bytes (pfxBits p)) \<le> 2"
    using b by (subst int_bytes.simps, subst int_bytes.simps) (simp add: div_pos_pos_trivial)
  have l: "length ?ip = (if Is4 (pfxAddr p) then 4 else 16)"
    by (cases "pfxAddr p") (auto simp: Is4_def As4_def)
  have c: "length ?content < 2147483648"
    using ib l length_der_len [of "length ?ip"] length_der_len [of "length (int_bytes (pfxBits p))"]
    by (auto simp: marshal_bytes_def marshal_int_def length_tlv split: if_splits)
  have "unmarshal_bytes_int (extValue (encodeVpnIP p)) = Some (?ip, pfxBits p)"
    using expect_tlv [of tagSequence ?content "[]"]
      expect_tlv [of tagOctetString ?ip "marshal_int (pfxBits p)"]
      expect_tlv [of tagInteger "int_bytes (pfxBits p)" "[]"] c ib l b parse_int_bytes [of "pfxBits p"]
    by (simp add: unmarshal_bytes_int_def encodeVpnIP_def marshal_seq_def marshal_bytes_def
        marshal_int_def Let_def)
  then have "decodeVpnIP (encodeVpnIP p) =
      Inr (PrefixFrom (if Is4 (pfxAddr p) then AddrFrom4 ?ip else AddrFrom16 ?ip) (pfxBits p))"
    using l by (simp add: decodeVpnIP_def)
  also have "PrefixFrom (if Is4 (pfxAddr p) then AddrFrom4 ?ip else AddrFrom16 ?ip) (pfxBits p) = p"
    using assms b
    by (cases a) (auto simp: PrefixFrom_def IsValid_def withoutZone_def Is4_def AddrFrom4_def AddrFrom16_def
        As4_def As16_def BitLen_def get_put_be split: if_splits)
  finally show ?thesis .
qed

definition groups_fit :: "string list \<Rightarrow> bool" where
  "groups_fit gs \<longleftrightarrow> length (concat (map (\<lambda>g. tlv tagUTF8String (str_bytes g)) gs)) < 2147483648"

lemma decode_encode_Groups:
  assumes "groups_fit gs"
  shows "decodeGroups (encodeGroups gs) = Inr gs"
proof -
  define vs where "vs = map str_bytes gs"
  define content where "content = concat (map (tlv tagUTF8String) vs)"
  have e: "map (\<lambda>g. tlv tagUTF8String (str_bytes g)) gs = map (tlv tagUTF8String) vs"
    by (simp add: vs_def)
  have fit: "length content < 2147483648"
    using assms by (simp only: groups_fit_def e content_def)
  have "length v \<le> length content" if "v \<in> set vs" for v
    unfolding content_def using that by (induction vs) (auto simp: length_tlv)
  with fit have "rawValues content = Some vs"
    unfolding content_def by (intro rawValues_tlvs) (meson le_less_trans)
  moreover have "expect tagSequence (tlv tagSequence content) = Some (content, [])"
    using expect_tlv [of tagSequence content "[]"] fit by simp
  moreover have "extValue (encodeGroups gs) = tlv tagSequence content"
    by (simp only: encodeGroups_def marshal_seq_def e content_def Extension.simps)
  moreover have "map bytes_str vs = gs" by (simp add: vs_def comp_def)
  ultimately show ?thesis
    by (simp add: decodeGroups_def unmarshal_raws_def)
qed

lemma decode_encode_Curve:
  assumes "encodeCurve25519Key pub = Inr e"
  shows "length pub = 32" "extId e = oidCurve25519Key" "decodeCurve25519Key e = Inr pub"
  using assms expect_tlv [of tagOctetString pub "[]"]
  by (auto simp: encodeCurve25519Key_def decodeCurve25519Key_def unmarshal_bytes_def marshal_bytes_def
      split: if_splits)

lemma ext_ids [simp]: "extId (encodeVpnIP p) = oidVpnIP" "extId (encodeGroups gs) = oidGroups"
  by (simp_all add: encodeVpnIP_def encodeGroups_def Let_def)

lemma oids_distinct [simp]: "oidVpnIP \<noteq> oidGroups" "oidVpnIP \<noteq> oidCurve25519Key"
  "oidGroups \<noteq> oidVpnIP" "oidGroups \<noteq> oidCurve25519Key" "oidCurve25519Key \<noteq> oidVpnIP"
  "oidCurve25519Key \<noteq> oidGroups"
  by (simp_all add: oid_defs)

lemma walkExtensions_skip:
  "\<forall>e \<in> set pre. extId e \<notin> neth_oids \<Longrightarrow> walkExtensions (pre @ exts) c = walkExtensions exts c"
  by (induction pre) (auto simp: neth_oids_def)

lemma walkExtensions_frame:
  "walkExtensions exts c = Inr c' \<Longrightarrow> certRaw c' = certRaw c \<and> certX509 c' = certX509 c"
  by (induction exts arbitrary: c) (auto split: if_splits sum.splits)

lemma parseDER_frame:
  "parseDER L der = Inr c \<Longrightarrow> certRaw c = der \<and> ParseCertificate L der = Some (certX509 c)"
  by (auto simp: parseDER_def split: option.splits dest: walkExtensions_frame)

lemma PEM_roundtrip:
  assumes "pem_inverse L" "parseDER L der = Inr c"
  shows "ParseCert L (PEM L c) = Inr c"
  using assms parseDER_frame [OF assms(2)]
  by (simp add: ParseCert_def PEM_def pem_inverse_def)

text \<open>What a successful request handed to \<^verbatim>\<open>x509.CreateCertificate\<close>.\<close>

definition node_template :: "int \<Rightarrow> string \<Rightarrow> int \<Rightarrow> int \<Rightarrow> Prefix \<Rightarrow> Extension \<Rightarrow> string list \<Rightarrow> Template" where
  "node_template serial name now duration vpnIP extCurve groups =
     \<lparr>tSerialNumber = serial, tCommonName = name, tNotBefore = now, tNotAfter = now + duration, tIsCA = False,
      tKeyUsage = KeyUsageDigitalSignature, tBasicConstraintsValid = False,
      tExtraExtensions = [encodeVpnIP vpnIP, extCurve] @ (if length groups > 0 then [encodeGroups groups] else [])\<rparr>"

definition ca_template :: "int \<Rightarrow> string \<Rightarrow> int \<Rightarrow> int \<Rightarrow> Template" where
  "ca_template serial name now duration =
     \<lparr>tSerialNumber = serial, tCommonName = name, tNotBefore = now, tNotAfter = now + duration, tIsCA = True,
      tKeyUsage = KeyUsageCertSign + KeyUsageCRLSign, tBasicConstraintsValid = True, tExtraExtensions = []\<rparr>"

lemma Sign_InrE:
  assumes "Sign L keys rand_Int now ca name vpnIP groups pub duration caKey = Inr c"
  obtains serial nodePub nodeKey ext der where "encodeCurve25519Key pub = Inr ext" "keys = Some (nodePub, nodeKey)"
    "CreateCertificate L (node_template serial name now duration vpnIP ext groups) (Some (certX509 ca)) nodePub caKey = Some der"
    "parseDER L der = Inr c"
  using assms
  by (auto simp: Sign_def node_template_def Let_def split: option.splits prod.splits sum.splits)

lemma GenerateCA_InrE:
  assumes "GenerateCA L (Some (pub, priv)) rand_Int now name duration = Inr (c, key)"
  obtains serial der where "key = Ed25519Key priv" "parseDER L der = Inr c"
    "CreateCertificate L (ca_template serial name now duration) None pub (Ed25519Key priv) = Some der"
  using assms by (auto simp: GenerateCA_def ca_template_def Let_def split: option.splits sum.splits)

lemma Sign_reads_back:
  assumes "issues_template L"
    and "Sign L keys rand_Int now ca name (PrefixFrom a n) groups pub duration caKey = Inr c"
    and "IsValid (PrefixFrom a n)" "groups_fit groups"
  shows "VpnIP c = PrefixFrom a n \<and> Groups c = groups \<and> X25519PublicKey c = pub \<and> length pub = 32 \<and>
    Name c = name \<and> \<not> IsCA c"
proof -
  from assms(2) obtain serial nodePub nodeKey ext der where ext: "encodeCurve25519Key pub = Inr ext" "keys = Some (nodePub, nodeKey)"
    and der: "CreateCertificate L (node_template serial name now duration (PrefixFrom a n) ext groups)
      (Some (certX509 ca)) nodePub caKey = Some der"
    and c: "parseDER L der = Inr c"
    by (rule Sign_InrE)
  define t where "t = node_template serial name now duration (PrefixFrom a n) ext groups"
  have t: "tIsCA t = False" "tCommonName t = name"
    "tExtraExtensions t = [encodeVpnIP (PrefixFrom a n), ext] @ (if length groups > 0 then [encodeGroups groups] else [])"
    by (simp_all add: t_def node_template_def)
  note k = decode_encode_Curve [OF ext(1)]
  have "distinct (map extId (tExtraExtensions t))" "extId ` set (tExtraExtensions t) \<subseteq> neth_oids"
    using k(2) by (auto simp: t(3) neth_oids_def oid_defs)
  with assms(1) der [folded t_def] t(1) obtain x pre where x: "ParseCertificate L der = Some x" "xIsCA x = tIsCA t"
    "xCommonName x = tCommonName t" "xExtensions x = pre @ tExtraExtensions t"
    "\<forall>e \<in> set pre. extId e \<notin> neth_oids"
    unfolding issues_template_def by blast
  from c x have "walkExtensions (tExtraExtensions t)
      \<lparr>certRaw = der, certX509 = x, VpnIP = PrefixZero, Groups = [], X25519PublicKey = []\<rparr> = Inr c"
    by (simp add: parseDER_def walkExtensions_skip)
  then have "c = \<lparr>certRaw = der, certX509 = x, VpnIP = PrefixFrom a n, Groups = groups,
      X25519PublicKey = pub\<rparr>"
    using k decode_encode_VpnIP [OF refl assms(3)] decode_encode_Groups [OF assms(4)]
    by (cases groups) (simp_all add: t(3))
  with x t k show ?thesis by (simp add: Name_def IsCA_def)
qed

section \<open>A sample library\<close>

text \<open>
  A concrete instance of the parameter, with two node certificates and a CA, on which the laws above
  hold; the examples below and those of the handshake are evaluated on it.
\<close>

definition sample_ext :: "byte \<Rightarrow> Extension list" where
  "sample_ext k = [encodeVpnIP (PrefixFrom (Addr4 (0x0A000000 OR ucast k)) 24),
     \<lparr>extId = oidCurve25519Key, extValue = marshal_bytes (replicate 32 k)\<rparr>, encodeGroups [''web'']]"

definition sample_template :: Template where
  "sample_template = \<lparr>tSerialNumber = 5, tCommonName = ''node'', tNotBefore = 0, tNotAfter = 100,
     tIsCA = False, tKeyUsage = 1, tBasicConstraintsValid = False, tExtraExtensions = sample_ext 1\<rparr>"

definition sample_lib :: x509_lib where
  "sample_lib =
     \<lparr>pem_Decode = (\<lambda>bs. case bs of [] \<Rightarrow> None
        | x # b \<Rightarrow> Some (if x = 0 then pemTypeCert else if x = 1 then ''PRIVATE KEY'' else pemTypeCurve25519Key, b)),
      pem_EncodeToMemory = (\<lambda>ty b. (if ty = pemTypeCert then 0 else if ty = ''PRIVATE KEY'' then 1 else 2) # b),
      ParseCertificate = (\<lambda>der. if der = [1] \<or> der = [2]
        then Some \<lparr>xIsCA = False, xCommonName = ''node'', xExtensions = sample_ext (hd der), xSignature = der,
          xPublicKey = Ed25519Public (replicate 32 0), xNotBefore = 0, xNotAfter = 100\<rparr>
        else if der = [3] then Some \<lparr>xIsCA = True, xCommonName = ''ca'', xExtensions = [], xSignature = der,
          xPublicKey = Ed25519Public (replicate 32 0), xNotBefore = 0, xNotAfter = 100\<rparr>
        else None),
      x509_Verify = (\<lambda>x pool now. \<exists>ca \<in> set pool. xIsCA ca \<and> 0 \<le> now \<and> now \<le> 100),
      CreateCertificate = (\<lambda>t parent pub key. if t = sample_template then Some [1] else None),
      MarshalPKCS8PrivateKey = (\<lambda>k. case k of Ed25519Key b \<Rightarrow> Some b | OtherKey _ \<Rightarrow> None),
      ParsePKCS8PrivateKey = (\<lambda>b. Some (Ed25519Key b)),
      X25519Base = (\<lambda>k. if length k = 32 then Some (replicate 32 (k ! 1)) else None)\<rparr>"

definition sample_cert :: "byte \<Rightarrow> Certificate" where
  "sample_cert k =
     (if k = 3 then
        \<lparr>certRaw = [3], certX509 = \<lparr>xIsCA = True, xCommonName = ''ca'', xExtensions = [], xSignature = [3],
          xPublicKey = Ed25519Public (replicate 32 0), xNotBefore = 0, xNotAfter = 100\<rparr>,
         VpnIP = PrefixZero, Groups = [], X25519PublicKey = []\<rparr>
      else
        \<lparr>certRaw = [k], certX509 = \<lparr>xIsCA = False, xCommonName = ''node'', xExtensions = sample_ext k, xSignature = [k],
          xPublicKey = Ed25519Public (replicate 32 0), xNotBefore = 0, xNotAfter = 100\<rparr>,
         VpnIP = PrefixFrom (Addr4 (0x0A000000 OR ucast k)) 24, Groups = [''web''],
         X25519PublicKey = replicate 32 k\<rparr>)"

lemma sample_groups_fit: "groups_fit [''web'']"
  by (simp add: groups_fit_def tlv_def der_len_def)

lemma sample_valid: "IsValid (PrefixFrom (Addr4 w) 24)"
  by (simp add: IsValid_def PrefixFrom_def BitLen_def)

lemma sample_curve: "encodeCurve25519Key (replicate 32 k) =
    Inr \<lparr>extId = oidCurve25519Key, extValue = marshal_bytes (replicate 32 k)\<rparr>"
  by (simp add: encodeCurve25519Key_def)

lemma sample_walk: "walkExtensions (sample_ext k) c =
    Inr (c\<lparr>VpnIP := PrefixFrom (Addr4 (0x0A000000 OR ucast k)) 24, X25519PublicKey := replicate 32 k,
      Groups := [''web'']\<rparr>)"
  using decode_encode_Curve(3) [OF sample_curve [of k]]
  by (simp add: sample_ext_def decode_encode_VpnIP [OF refl sample_valid]
      decode_encode_Groups [OF sample_groups_fit])

lemma sample_certs:
  "parseDER sample_lib [1] = Inr (sample_cert 1)" "parseDER sample_lib [2] = Inr (sample_cert 2)"
  "parseDER sample_lib [3] = Inr (sample_cert 3)"
  by (simp_all add: parseDER_def sample_lib_def sample_walk sample_cert_def)

lemma sample_pem: "pem_inverse sample_lib"
  by (auto simp: pem_inverse_def sample_lib_def pemTypeCert_def pemTypeCurve25519Key_def)

lemma sample_issues: "issues_template sample_lib"
  unfolding issues_template_def
  by (auto simp: sample_lib_def sample_template_def split: if_splits intro: exI [of _ "[]"])

section \<open>Properties\<close>

text \<open>
  C20: issuing is faithful.  A certificate \<open>Sign\<close> returns carries exactly the requested VPN prefix,
  groups, Curve25519 key and name, is not a CA, and its key has the 32 bytes Noise needs: what was
  encoded into the X.509 extensions is what the extension walk reads back.
\<close>
theorem Sign_faithful:
  assumes "issues_template L"
    and "Sign L keys rand_Int now ca name (PrefixFrom a n) groups pub duration caKey = Inr c"
    and "IsValid (PrefixFrom a n)" "groups_fit groups"
  shows "VpnIP c = PrefixFrom a n \<and> Groups c = groups \<and> X25519PublicKey c = pub \<and> length pub = 32 \<and>
    Name c = name \<and> \<not> IsCA c"
  using Sign_reads_back [OF assms] .

theorem Sign_faithful_witness:
  "VpnIP (sample_cert 1) = PrefixFrom (Addr4 0x0A000001) 24 \<and> Groups (sample_cert 1) = [''web''] \<and>
   X25519PublicKey (sample_cert 1) = replicate 32 1 \<and> length (replicate 32 (1 :: byte)) = 32 \<and>
   Name (sample_cert 1) = ''node'' \<and> \<not> IsCA (sample_cert 1)"
proof (rule Sign_faithful [OF sample_issues])
  show "Sign sample_lib (Some ([], [])) (\<lambda>_. Some 5) 0 (sample_cert 3) ''node'' (PrefixFrom (Addr4 0x0A000001) 24)
      [''web''] (replicate 32 1) 100 (Ed25519Key []) = Inr (sample_cert 1)"
    using sample_certs(1)
    by (simp add: Sign_def sample_curve newSerial_def KeyUsageDigitalSignature_def sample_template_def sample_ext_def
        sample_lib_def)
qed (simp_all add: sample_valid sample_groups_fit)

text \<open>
  A parsed certificate survives its PEM form: what a node sends in a handshake is, for the
  receiver, the very certificate it holds, so both compute the same fingerprint.
\<close>
theorem ParseCert_PEM:
  assumes "pem_inverse L" "parseDER L der = Inr c"
  shows "ParseCert L (PEM L c) = Inr c \<and> Fingerprint c = Sum256 der"
  using PEM_roundtrip [OF assms] parseDER_frame [OF assms(2)] by (simp add: Fingerprint_def)

theorem ParseCert_PEM_witness: "ParseCert sample_lib (PEM sample_lib (sample_cert 2)) = Inr (sample_cert 2)"
  using ParseCert_PEM [OF sample_pem sample_certs(2)] by blast

text \<open>
  A generated Curve25519 private key is a clamped scalar whatever the random source returned:
  32 bytes, a multiple of eight, with bit 254 set and bit 255 clear; and the key file written for
  it reads back as the same key.
\<close>
theorem GenerateX25519KeyPair_clamped:
  assumes "pem_inverse L" "length r = 32" "GenerateX25519KeyPair L (Some r) = Inr (priv, pub)"
  shows "length priv = 32 \<and> priv ! 0 AND 7 = 0 \<and> bit (priv ! 31) 6 \<and> \<not> bit (priv ! 31) 7 \<and>
    X25519Base L priv = Some pub \<and>
    (\<exists>file. MarshalX25519PrivateKey L priv = Inr file \<and> ParseX25519PrivateKey L file = Inr priv)"
proof -
  from assms(3) have p: "priv = clamp r" "X25519Base L priv = Some pub"
    by (auto simp: GenerateX25519KeyPair_def Let_def split: option.splits)
  have l: "length priv = 32" using assms(2) by (simp add: p clamp_def Let_def)
  have z: "(w AND 248) AND 7 = 0" for w :: byte by (simp add: and.assoc)
  have "priv ! 0 = r ! 0 AND 248" "priv ! 31 = (r ! 31 AND 127) OR 64"
    using assms(2) by (simp_all add: p clamp_def Let_def)
  with z have "priv ! 0 AND 7 = 0 \<and> bit (priv ! 31) 6 \<and> \<not> bit (priv ! 31) 7"
    by (simp add: bit_simps)
  with l p assms(1) show ?thesis
    by (simp add: MarshalX25519PrivateKey_def ParseX25519PrivateKey_def pem_inverse_def)
qed

theorem GenerateX25519KeyPair_clamped_witness:
  "length (clamp (replicate 32 255)) = 32 \<and> clamp (replicate 32 255) ! 0 AND 7 = 0 \<and>
   bit (clamp (replicate 32 255) ! 31) 6 \<and> \<not> bit (clamp (replicate 32 255) ! 31) 7"
proof -
  have "GenerateX25519KeyPair sample_lib (Some (replicate 32 255)) =
      Inr (clamp (replicate 32 255), replicate 32 255)"
    by (simp add: GenerateX25519KeyPair_def sample_lib_def clamp_def Let_def)
  from GenerateX25519KeyPair_clamped [OF sample_pem _ this] show ?thesis by simp
qed

end
