(* ===== verification/Neth_Pki.thy ===== *)
theory Neth_Pki
  imports Neth_Cert Neth_Config
begin

text \<open>
  \<^verbatim>\<open>pki.go\<close>: loading and cross-checking the node's CA certificate, node certificate and private key.
  The file system is the argument \<open>readFile\<close>; the two calls of \<^verbatim>\<open>time.Now\<close> are two arguments.
\<close>

record PKI =
  CACerts :: "Certificate list"
  NodeCert :: Certificate
  Curve25519Key :: bytes

datatype pki_error =
    ReadCA string | ReadCert string | ReadKey string
  | BadCA cert_error | BadCert cert_error | BadKey cert_error
  | DerivePublicKey | KeyMismatch

definition loadAndParseCA :: "x509_lib \<Rightarrow> (string \<Rightarrow> bytes option) \<Rightarrow> int \<Rightarrow> string
    \<Rightarrow> (pki_error, Certificate) res" where
  "loadAndParseCA L readFile now path =
     (case readFile path of
        None \<Rightarrow> Inl (ReadCA path)
      | Some d \<Rightarrow>
          (case ParseCert L d of
             Inl e \<Rightarrow> Inl (BadCA e)
           | Inr caCert \<Rightarrow>
               (case VerifyCA L caCert now of Inl e \<Rightarrow> Inl (BadCA e) | Inr _ \<Rightarrow> Inr caCert)))"

definition loadAndParseNodeCert :: "x509_lib \<Rightarrow> (string \<Rightarrow> bytes option) \<Rightarrow> int \<Rightarrow> string \<Rightarrow> Certificate
    \<Rightarrow> (pki_error, Certificate) res" where
  "loadAndParseNodeCert L readFile now path ca =
     (case readFile path of
        None \<Rightarrow> Inl (ReadCert path)
      | Some d \<Rightarrow>
          (case ParseCert L d of
             Inl e \<Rightarrow> Inl (BadCert e)
           | Inr nodeCert \<Rightarrow>
               (case Verify L nodeCert [ca] now of Inl e \<Rightarrow> Inl (BadCert e) | Inr _ \<Rightarrow> Inr nodeCert)))"

definition loadAndVerifyKey :: "x509_lib \<Rightarrow> (string \<Rightarrow> bytes option) \<Rightarrow> string \<Rightarrow> Certificate
    \<Rightarrow> (pki_error, bytes) res" where
  "loadAndVerifyKey L readFile path nodeCert =
     (case readFile path of
        None \<Rightarrow> Inl (ReadKey path)
      | Some d \<Rightarrow>
          (case ParseX25519PrivateKey L d of
             Inl e \<Rightarrow> Inl (BadKey e)
           | Inr privKey \<Rightarrow>
               (case X25519Base L privKey of
                  None \<Rightarrow> Inl DerivePublicKey
                | Some derivedPub \<Rightarrow>
                    if derivedPub \<noteq> X25519PublicKey nodeCert then Inl KeyMismatch else Inr privKey)))"

definition LoadPKI :: "x509_lib \<Rightarrow> (string \<Rightarrow> bytes option) \<Rightarrow> int \<Rightarrow> int \<Rightarrow> PKIConfig
    \<Rightarrow> (pki_error, PKI) res" where
  "LoadPKI L readFile now now' cfg =
     (case loadAndParseCA L readFile now (pkiCA cfg) of
        Inl e \<Rightarrow> Inl e
      | Inr caCert \<Rightarrow>
          (case loadAndParseNodeCert L readFile now' (pkiCert cfg) caCert of
             Inl e \<Rightarrow> Inl e
           | Inr nodeCert \<Rightarrow>
               (case loadAndVerifyKey L readFile (pkiKey cfg) nodeCert of
                  Inl e \<Rightarrow> Inl e
                | Inr privKey \<Rightarrow>
                    Inr \<lparr>CACerts = [caCert], NodeCert = nodeCert, Curve25519Key = privKey\<rparr>)))"

lemma loadAndParseCA_Inr:
  "loadAndParseCA L readFile now path = Inr ca \<longleftrightarrow>
     (\<exists>d. readFile path = Some d \<and> ParseCert L d = Inr ca \<and> IsCA ca \<and>
       x509_Verify L (certX509 ca) [certX509 ca] now)"
  by (auto simp: loadAndParseCA_def VerifyCA_def split: option.splits sum.splits if_splits)

lemma loadAndParseNodeCert_Inr:
  "loadAndParseNodeCert L readFile now path ca = Inr c \<longleftrightarrow>
     (\<exists>d. readFile path = Some d \<and> ParseCert L d = Inr c \<and> \<not> IsCA c \<and>
       x509_Verify L (certX509 c) [certX509 ca] now)"
  by (auto simp: loadAndParseNodeCert_def Verify_def split: option.splits sum.splits if_splits)

lemma loadAndVerifyKey_Inr:
  "loadAndVerifyKey L readFile path c = Inr k \<longleftrightarrow>
     (\<exists>d. readFile path = Some d \<and> ParseX25519PrivateKey L d = Inr k \<and>
       X25519Base L k = Some (X25519PublicKey c))"
  by (auto simp: loadAndVerifyKey_def split: option.splits sum.splits if_splits)

section \<open>Properties\<close>

text \<open>
  The node starts exactly on a consistent identity: the CA file holds a CA certificate valid
  under itself, the node file a non-CA certificate valid under that CA, and the key file a private
  key whose public half is the one in the node's certificate.
\<close>
theorem LoadPKI_ok_iff:
  "LoadPKI L readFile now now' cfg = Inr p \<longleftrightarrow>
     (\<exists>d d' d'' ca. CACerts p = [ca] \<and>
       readFile (pkiCA cfg) = Some d \<and> ParseCert L d = Inr ca \<and> IsCA ca \<and>
       x509_Verify L (certX509 ca) [certX509 ca] now \<and>
       readFile (pkiCert cfg) = Some d' \<and> ParseCert L d' = Inr (NodeCert p) \<and> \<not> IsCA (NodeCert p) \<and>
       x509_Verify L (certX509 (NodeCert p)) [certX509 ca] now' \<and>
       readFile (pkiKey cfg) = Some d'' \<and> ParseX25519PrivateKey L d'' = Inr (Curve25519Key p) \<and>
       X25519Base L (Curve25519Key p) = Some (X25519PublicKey (NodeCert p)))"
  (is "?l \<longleftrightarrow> ?r")
proof -
  have "?l \<longleftrightarrow> (\<exists>ca. loadAndParseCA L readFile now (pkiCA cfg) = Inr ca \<and>
      loadAndParseNodeCert L readFile now' (pkiCert cfg) ca = Inr (NodeCert p) \<and>
      loadAndVerifyKey L readFile (pkiKey cfg) (NodeCert p) = Inr (Curve25519Key p) \<and> CACerts p = [ca])"
    by (cases p) (auto simp: LoadPKI_def split: sum.splits)
  also have "\<dots> \<longleftrightarrow> ?r"
    unfolding loadAndParseCA_Inr loadAndParseNodeCert_Inr loadAndVerifyKey_Inr by blast
  finally show ?thesis .
qed

end
