(* ===== verification/Neth_Messages.thy ===== *)
theory Neth_Messages
  imports Neth_Prelude
begin

text \<open>
  The wire messages of \<^verbatim>\<open>nethpb/neth.pb.go\<close> as records, and the protobuf runtime as the parameter
  \<open>proto_lib\<close>.  A pointer to a sub-message is an option; the oneof of \<^verbatim>\<open>LightHouseMessage\<close> is a datatype
  with the generated wrapper types as constructors.
\<close>

record IpPort =
  ipIp :: string
  ipPort :: u32

record HostQuery =
  hqVpnIp :: string

record HostQueryReply =
  hqrVpnIp :: string
  hqrAddrs :: "IpPort list"

record HostUpdateNotification =
  hunAddrs :: "IpPort list"

record WhoAmIReply =
  wrAddr :: "IpPort option"

record HostPunchNotification =
  hpnVpnIp :: string
  hpnAddrs :: "IpPort list"

datatype LightHouseMessage_Body =
    LightHouseMessage_Query HostQuery
  | LightHouseMessage_QueryReply HostQueryReply
  | LightHouseMessage_Update HostUpdateNotification
  | LightHouseMessage_WhoAmI
  | LightHouseMessage_WhoAmIReply WhoAmIReply
  | LightHouseMessage_Punch HostPunchNotification

record LightHouseMessage =
  Body :: "LightHouseMessage_Body option"

record HandshakeDetails =
  dCert :: bytes
  dInitiatorIndex :: u32
  dResponderIndex :: u32
  dTime :: u64

record HandshakeMessage =
  mDetails :: bytes
  mNoisePayload :: bytes
  mHmac :: bytes

text \<open>\<^verbatim>\<open>proto.Marshal\<close> and \<^verbatim>\<open>proto.Unmarshal\<close> at the three message types that go over the wire.\<close>

record proto_lib =
  marshalDetails :: "HandshakeDetails \<Rightarrow> bytes option"
  unmarshalDetails :: "bytes \<Rightarrow> HandshakeDetails option"
  marshalHandshake :: "HandshakeMessage \<Rightarrow> bytes option"
  unmarshalHandshake :: "bytes \<Rightarrow> HandshakeMessage option"
  marshalLightHouse :: "LightHouseMessage \<Rightarrow> bytes option"
  unmarshalLightHouse :: "bytes \<Rightarrow> LightHouseMessage option"

text \<open>The documented behaviour the program relies on: what was marshalled unmarshals to itself.\<close>

definition proto_inverse :: "proto_lib \<Rightarrow> bool" where
  "proto_inverse P \<longleftrightarrow>
     (\<forall>d b. marshalDetails P d = Some b \<longrightarrow> unmarshalDetails P b = Some d) \<and>
     (\<forall>m b. marshalHandshake P m = Some b \<longrightarrow> unmarshalHandshake P b = Some m) \<and>
     (\<forall>m b. marshalLightHouse P m = Some b \<longrightarrow> unmarshalLightHouse P b = Some m)"

text \<open>Handshake messages hold only bytes and integers, which always have an encoding.\<close>

definition proto_total :: "proto_lib \<Rightarrow> bool" where
  "proto_total P \<longleftrightarrow> (\<forall>d. marshalDetails P d \<noteq> None) \<and> (\<forall>m. marshalHandshake P m \<noteq> None)"

lemma proto_inverseD:
  "proto_inverse P \<Longrightarrow> marshalDetails P d = Some b \<Longrightarrow> unmarshalDetails P b = Some d"
  "proto_inverse P \<Longrightarrow> marshalHandshake P m = Some b \<Longrightarrow> unmarshalHandshake P b = Some m"
  "proto_inverse P \<Longrightarrow> marshalLightHouse P l = Some b \<Longrightarrow> unmarshalLightHouse P b = Some l"
  by (auto simp: proto_inverse_def)

section \<open>The oneof accessors\<close>

definition GetQuery :: "LightHouseMessage \<Rightarrow> HostQuery option" where
  "GetQuery m = (case Body m of Some (LightHouseMessage_Query q) \<Rightarrow> Some q | _ \<Rightarrow> None)"

definition GetQueryReply :: "LightHouseMessage \<Rightarrow> HostQueryReply option" where
  "GetQueryReply m = (case Body m of Some (LightHouseMessage_QueryReply r) \<Rightarrow> Some r | _ \<Rightarrow> None)"

definition GetUpdate :: "LightHouseMessage \<Rightarrow> HostUpdateNotification option" where
  "GetUpdate m = (case Body m of Some (LightHouseMessage_Update u) \<Rightarrow> Some u | _ \<Rightarrow> None)"

definition GetWhoAmI :: "LightHouseMessage \<Rightarrow> unit option" where
  "GetWhoAmI m = (case Body m of Some LightHouseMessage_WhoAmI \<Rightarrow> Some () | _ \<Rightarrow> None)"

definition GetWhoAmIReply :: "LightHouseMessage \<Rightarrow> WhoAmIReply option" where
  "GetWhoAmIReply m = (case Body m of Some (LightHouseMessage_WhoAmIReply r) \<Rightarrow> Some r | _ \<Rightarrow> None)"

definition GetPunch :: "LightHouseMessage \<Rightarrow> HostPunchNotification option" where
  "GetPunch m = (case Body m of Some (LightHouseMessage_Punch p) \<Rightarrow> Some p | _ \<Rightarrow> None)"

lemmas getter_defs = GetQuery_def GetQueryReply_def GetUpdate_def GetWhoAmI_def GetWhoAmIReply_def
  GetPunch_def

section \<open>A sample codec\<close>

text \<open>A concrete instance of the parameter on which both laws hold.\<close>

definition esc :: "bytes \<Rightarrow> bytes" where
  "esc bs = concat (map (\<lambda>b. [1, b]) bs) @ [0]"

fun unesc :: "bytes \<Rightarrow> (bytes \<times> bytes) option" where
  "unesc [] = None"
| "unesc [x] = (if x = 0 then Some ([], []) else None)"
| "unesc (x # b # bs) = (if x = 0 then Some ([], b # bs)
     else case unesc bs of None \<Rightarrow> None | Some (m, rest) \<Rightarrow> Some (b # m, rest))"

lemma unesc_esc: "unesc (esc bs @ rest) = Some (bs, rest)"
proof (induction bs)
  case Nil
  then show ?case by (cases rest) (simp_all add: esc_def)
next
  case (Cons b bs)
  then show ?case by (simp add: esc_def)
qed

definition sample_proto :: "(nat \<Rightarrow> LightHouseMessage) \<Rightarrow> proto_lib" where
  "sample_proto lh =
     \<lparr>marshalDetails = (\<lambda>d. Some (put_be 4 (dInitiatorIndex d) @ put_be 4 (dResponderIndex d) @ put_be 8 (dTime d) @ dCert d)),
      unmarshalDetails = (\<lambda>b. if length b < 16 then None else
        Some \<lparr>dCert = drop 16 b, dInitiatorIndex = get_be (take 4 b), dResponderIndex = get_be (take 4 (drop 4 b)),
          dTime = get_be (take 8 (drop 8 b))\<rparr>),
      marshalHandshake = (\<lambda>m. Some (esc (mDetails m) @ esc (mNoisePayload m) @ mHmac m)),
      unmarshalHandshake = (\<lambda>b. case unesc b of None \<Rightarrow> None
        | Some (d, b) \<Rightarrow> (case unesc b of None \<Rightarrow> None
            | Some (n, h) \<Rightarrow> Some \<lparr>mDetails = d, mNoisePayload = n, mHmac = h\<rparr>)),
      marshalLightHouse = (\<lambda>m. if m = lh 1 then Some [1] else if m = lh 2 then Some [2]
        else if m = lh 3 then Some [3] else None),
      unmarshalLightHouse = (\<lambda>b. if b = [1] then Some (lh 1) else if b = [2] then Some (lh 2)
        else if b = [3] then Some (lh 3) else None)\<rparr>"

lemma sample_proto_inverse: "proto_inverse (sample_proto lh)"
  by (auto simp: proto_inverse_def sample_proto_def unesc_esc split: if_splits)

lemma sample_proto_total: "proto_total (sample_proto lh)"
  by (simp add: proto_total_def sample_proto_def)

end
