(* ===== verification/Neth_Handshake.thy ===== *)
theory Neth_Handshake
  imports Neth_Messages Neth_Cert
begin

text \<open>
  The \<^verbatim>\<open>handshake\<close> package: the pre-shared key derived from two certificates, the outer envelope of a
  handshake packet with its HMAC (\<^verbatim>\<open>handshake.go\<close>), and the configuration of the Noise states
  (\<^verbatim>\<open>noise.go\<close>).  The Noise library is the parameter \<open>noise_lib\<close>: its handshake states and cipher states
  are the type parameters \<open>'hs\<close> and \<open>'cs\<close>, and the ephemeral key a \<open>WriteMessage\<close> draws is an argument.
\<close>

section \<open>Pre-shared key and envelope\<close>

datatype handshake_error =
    MarshalFailed | ParseMessageFailed | ParseDetailsFailed | HMACFailed | NoiseStateFailed

definition DerivePreSharedKey :: "Certificate \<Rightarrow> Certificate \<Rightarrow> bytes" where
  "DerivePreSharedKey local remote =
     (let lf = Fingerprint local; rf = Fingerprint remote
      in map (\<lambda>i. lf ! i XOR rf ! i) [0..<32])"

definition handshakeMAC :: "Certificate \<Rightarrow> bytes \<Rightarrow> bytes \<Rightarrow> bytes" where
  "handshakeMAC c details noisePayload = hmac_sha256 (Fingerprint c) (details @ noisePayload)"

text \<open>\<open>now\<close> is the result of \<^verbatim>\<open>time.Now().UnixNano()\<close>, converted to \<^verbatim>\<open>uint64\<close>.\<close>

definition BuildInitiatorMessage ::
  "proto_lib \<Rightarrow> x509_lib \<Rightarrow> int \<Rightarrow> Certificate \<Rightarrow> bytes \<Rightarrow> u32 \<Rightarrow> (handshake_error, HandshakeMessage) res" where
  "BuildInitiatorMessage P L now localCert noisePayload localIndex =
     (case marshalDetails P \<lparr>dCert = PEM L localCert, dInitiatorIndex = localIndex, dResponderIndex = 0,
             dTime = word_of_int now\<rparr> of
        None \<Rightarrow> Inl MarshalFailed
      | Some detailsBytes \<Rightarrow>
          Inr \<lparr>mDetails = detailsBytes, mNoisePayload = noisePayload,
               mHmac = handshakeMAC localCert detailsBytes noisePayload\<rparr>)"

definition BuildResponderMessage ::
  "proto_lib \<Rightarrow> x509_lib \<Rightarrow> int \<Rightarrow> Certificate \<Rightarrow> bytes \<Rightarrow> u32 \<Rightarrow> u32
    \<Rightarrow> (handshake_error, HandshakeMessage) res" where
  "BuildResponderMessage P L now localCert noisePayload initiatorIndex responderIndex =
     (case marshalDetails P \<lparr>dCert = PEM L localCert, dInitiatorIndex = initiatorIndex,
             dResponderIndex = responderIndex, dTime = word_of_int now\<rparr> of
        None \<Rightarrow> Inl MarshalFailed
      | Some detailsBytes \<Rightarrow>
          Inr \<lparr>mDetails = detailsBytes, mNoisePayload = noisePayload,
               mHmac = handshakeMAC localCert detailsBytes noisePayload\<rparr>)"

definition ParseHandshakeMessage :: "proto_lib \<Rightarrow> bytes \<Rightarrow> (handshake_error, HandshakeMessage) res" where
  "ParseHandshakeMessage P raw =
     (case unmarshalHandshake P raw of None \<Rightarrow> Inl ParseMessageFailed | Some msg \<Rightarrow> Inr msg)"

definition ParseDetails :: "proto_lib \<Rightarrow> HandshakeMessage \<Rightarrow> (handshake_error, HandshakeDetails) res" where
  "ParseDetails P msg =
     (case unmarshalDetails P (mDetails msg) of None \<Rightarrow> Inl ParseDetailsFailed | Some d \<Rightarrow> Inr d)"

definition VerifyHMAC :: "HandshakeMessage \<Rightarrow> Certificate \<Rightarrow> (handshake_error, unit) res" where
  "VerifyHMAC msg senderCert =
     (if handshakeMAC senderCert (mDetails msg) (mNoisePayload msg) \<noteq> mHmac msg
      then Inl HMACFailed else Inr ())"

section \<open>Noise states\<close>

record DHKey =
  dhPrivate :: bytes
  dhPublic :: bytes

record noise_Config =
  ncPattern :: string
  ncInitiator :: bool
  ncStaticKeypair :: DHKey
  ncPeerStatic :: bytes
  ncPresharedKey :: bytes
  ncPresharedKeyPlacement :: int

text \<open>
  \<open>WriteMessage\<close> and \<open>ReadMessage\<close> return the next handshake state; after the last message of the
  pattern they also return the two cipher states of the split.
\<close>

record ('hs, 'cs) noise_lib =
  NewHandshakeState :: "noise_Config \<Rightarrow> 'hs option"
  WriteMessage :: "bytes \<Rightarrow> 'hs \<Rightarrow> (bytes \<times> ('cs \<times> 'cs) option \<times> 'hs) option"
  ReadMessage :: "bytes \<Rightarrow> 'hs \<Rightarrow> (('cs \<times> 'cs) option \<times> 'hs) option"
  UnsafeKey :: "'cs \<Rightarrow> bytes"

definition initiatorConfig :: "DHKey \<Rightarrow> bytes \<Rightarrow> bytes \<Rightarrow> noise_Config" where
  "initiatorConfig localStatic remoteStatic psk =
     \<lparr>ncPattern = ''Noise_IKpsk0_25519_AESGCM_SHA256'', ncInitiator = True, ncStaticKeypair = localStatic,
      ncPeerStatic = remoteStatic, ncPresharedKey = psk, ncPresharedKeyPlacement = 0\<rparr>"

definition responderConfig :: "DHKey \<Rightarrow> bytes \<Rightarrow> noise_Config" where
  "responderConfig localStatic psk =
     \<lparr>ncPattern = ''Noise_IKpsk0_25519_AESGCM_SHA256'', ncInitiator = False, ncStaticKeypair = localStatic,
      ncPeerStatic = [], ncPresharedKey = psk, ncPresharedKeyPlacement = 0\<rparr>"

definition NewInitiatorState ::
  "('hs, 'cs) noise_lib \<Rightarrow> DHKey \<Rightarrow> bytes \<Rightarrow> bytes \<Rightarrow> (handshake_error, 'hs) res" where
  "NewInitiatorState N localStatic remoteStatic psk =
     (case NewHandshakeState N (initiatorConfig localStatic remoteStatic psk) of
        None \<Rightarrow> Inl NoiseStateFailed
      | Some hs \<Rightarrow> Inr hs)"

definition NewResponderState ::
  "('hs, 'cs) noise_lib \<Rightarrow> DHKey \<Rightarrow> bytes \<Rightarrow> (handshake_error, 'hs) res" where
  "NewResponderState N localStatic psk =
     (case NewHandshakeState N (responderConfig localStatic psk) of
        None \<Rightarrow> Inl NoiseStateFailed
      | Some hs \<Rightarrow> Inr hs)"

section \<open>Lemmas\<close>

lemma length_Fingerprint [simp]: "length (Fingerprint c) = 32"
  by (simp add: Fingerprint_def)

text \<open>What a receiver gets out of an envelope some node built for its own certificate.\<close>

definition envelope_of :: "proto_lib \<Rightarrow> x509_lib \<Rightarrow> HandshakeMessage \<Rightarrow> Certificate \<Rightarrow> bytes \<Rightarrow> u32 \<Rightarrow> u32 \<Rightarrow> bool" where
  "envelope_of P L msg c noisePayload i r \<longleftrightarrow>
     (\<exists>d. ParseDetails P msg = Inr d \<and> ParseCert L (dCert d) = Inr c \<and> dInitiatorIndex d = i \<and>
       dResponderIndex d = r \<and> VerifyHMAC msg c = Inr () \<and> mNoisePayload msg = noisePayload)"

lemma envelope_built:
  assumes "proto_inverse P" "ParseCert L (PEM L c) = Inr c"
    and "marshalDetails P \<lparr>dCert = PEM L c, dInitiatorIndex = i, dResponderIndex = r, dTime = t\<rparr> = Some b"
  shows "envelope_of P L \<lparr>mDetails = b, mNoisePayload = n, mHmac = handshakeMAC c b n\<rparr> c n i r"
  using assms proto_inverseD(1) [OF assms(1,3)]
  by (simp add: envelope_of_def ParseDetails_def VerifyHMAC_def)

lemma envelope_initiator:
  assumes "proto_inverse P" "ParseCert L (PEM L c) = Inr c"
    and "BuildInitiatorMessage P L now c n i = Inr msg"
  shows "envelope_of P L msg c n i 0"
  using assms envelope_built [OF assms(1,2)]
  by (auto simp: BuildInitiatorMessage_def split: option.splits)

lemma envelope_responder:
  assumes "proto_inverse P" "ParseCert L (PEM L c) = Inr c"
    and "BuildResponderMessage P L now c n i r = Inr msg"
  shows "envelope_of P L msg c n i r"
  using assms envelope_built [OF assms(1,2)]
  by (auto simp: BuildResponderMessage_def split: option.splits)

text \<open>
  The documented behaviour of an IKpsk0 exchange between two parties that agree on the pre-shared
  key, the initiator knowing the responder's public key: both messages are accepted, both parties
  obtain the same two cipher states, and these hold 32-byte keys.
\<close>

definition IK_completes :: "('hs, 'cs) noise_lib \<Rightarrow> DHKey \<Rightarrow> DHKey \<Rightarrow> bytes \<Rightarrow> bool" where
  "IK_completes N ki kr psk \<longleftrightarrow>
     (\<forall>e e'. \<exists>hi hr m0 hi' hr' m1 cs1 cs2 hr'' hi''.
        NewHandshakeState N (initiatorConfig ki (dhPublic kr) psk) = Some hi \<and>
        NewHandshakeState N (responderConfig kr psk) = Some hr \<and>
        WriteMessage N e hi = Some (m0, None, hi') \<and> ReadMessage N m0 hr = Some (None, hr') \<and>
        WriteMessage N e' hr' = Some (m1, Some (cs1, cs2), hr'') \<and>
        ReadMessage N m1 hi' = Some (Some (cs1, cs2), hi'') \<and>
        length (UnsafeKey N cs1) = 32 \<and> length (UnsafeKey N cs2) = 32)"

lemma IK_completesE:
  assumes "IK_completes N ki kr psk"
  obtains hi hr m0 hi' hr' m1 cs1 cs2 hr'' hi'' where
    "NewHandshakeState N (initiatorConfig ki (dhPublic kr) psk) = Some hi"
    "NewHandshakeState N (responderConfig kr psk) = Some hr"
    "WriteMessage N e hi = Some (m0, None, hi')" "ReadMessage N m0 hr = Some (None, hr')"
    "WriteMessage N e' hr' = Some (m1, Some (cs1, cs2), hr'')"
    "ReadMessage N m1 hi' = Some (Some (cs1, cs2), hi'')"
    "length (UnsafeKey N cs1) = 32" "length (UnsafeKey N cs2) = 32"
proof -
  from assms [unfolded IK_completes_def, rule_format, of e e'] that show ?thesis
    by (elim exE conjE) assumption
qed

definition sample_noise :: "(nat, byte) noise_lib" where
  "sample_noise =
     \<lparr>NewHandshakeState = (\<lambda>c. Some (if ncInitiator c then 0 else 10)),
      WriteMessage = (\<lambda>e hs. if hs = 0 then Some ([5], None, 1)
        else if hs = 11 then Some ([6], Some (1, 2), 12) else None),
      ReadMessage = (\<lambda>m hs. if hs = 10 \<and> m = [5] then Some (None, 11)
        else if hs = 1 \<and> m = [6] then Some (Some (1, 2), 2) else None),
      UnsafeKey = replicate 32\<rparr>"

lemma sample_IK: "IK_completes sample_noise ki kr psk"
  by (simp add: IK_completes_def sample_noise_def initiatorConfig_def responderConfig_def)

section \<open>Properties\<close>

text \<open>
  Both ends of a handshake derive the same 32-byte pre-shared key, whichever of the two
  certificates each calls its own.
\<close>
theorem DerivePreSharedKey_agree:
  "DerivePreSharedKey a b = DerivePreSharedKey b a \<and> length (DerivePreSharedKey a b) = 32"
  by (simp add: DerivePreSharedKey_def Let_def xor.commute)

text \<open>
  An envelope built by either role for a node's own certificate passes every check of the
  receiver and hands it the sender's certificate, both indices and the Noise message unchanged.
\<close>
theorem handshake_envelope_accepted:
  assumes "proto_inverse P" "pem_inverse L" "parseDER L der = Inr c"
  shows "(BuildInitiatorMessage P L now c n i = Inr msg \<longrightarrow> envelope_of P L msg c n i 0) \<and>
    (BuildResponderMessage P L now c n i r = Inr msg \<longrightarrow> envelope_of P L msg c n i r)"
  using envelope_initiator envelope_responder PEM_roundtrip [OF assms(2,3)] assms(1) by blast

theorem handshake_envelope_accepted_witness:
  "\<exists>msg. BuildInitiatorMessage (sample_proto (\<lambda>_. \<lparr>Body = None\<rparr>)) sample_lib 0 (sample_cert 1) [5] 7 = Inr msg \<and>
     envelope_of (sample_proto (\<lambda>_. \<lparr>Body = None\<rparr>)) sample_lib msg (sample_cert 1) [5] 7 0"
proof -
  let ?P = "sample_proto (\<lambda>_. \<lparr>Body = None\<rparr>)"
  obtain msg where "BuildInitiatorMessage ?P sample_lib 0 (sample_cert 1) [5] 7 = Inr msg"
    by (simp add: BuildInitiatorMessage_def sample_proto_def)
  then show ?thesis
    using handshake_envelope_accepted [OF sample_proto_inverse sample_pem sample_certs(1)] by blast
qed

end
