(* ===== verification/Neth_Replay.thy ===== *)
theory Neth_Replay
  imports Neth_Prelude
begin

text \<open>
  Replay detection of \<^verbatim>\<open>hostmap.go\<close>: the 4096-slot bitmap of a session (\<open>window\<close>, \<open>windowEnd\<close>),
  \<open>CheckReplay\<close> and \<open>shiftWindow\<close> with its two in-place loops, an abstract specification (the set of
  counters accepted so far and the highest of them), and the refinement between the two.
\<close>

section \<open>State and operations\<close>

text \<open>
  The two replay fields of \<^verbatim>\<open>HostInfo\<close>.  The record of the whole session extends this one, so the
  operations below are stated for every extension of it.
\<close>

record replay_window =
  windowEnd :: u64
  window :: "u64 list"

definition replayWindowSize :: u64 where
  "replayWindowSize = 64 * 64"

definition emptyWindow :: "u64 list" where
  "emptyWindow = replicate 64 0"

text \<open>
  The first loop of \<open>shiftWindow\<close>, \<^verbatim>\<open>for i := 63; i >= 0; i--\<close>, moves whole words in place; the second,
  \<^verbatim>\<open>for i := 63; i > 0; i--\<close>, shifts inside words and carries, and is followed by the shift of word 0.
  The argument counts the iterations that are left.
\<close>

primrec shiftWords :: "nat \<Rightarrow> nat \<Rightarrow> u64 list \<Rightarrow> u64 list" where
  "shiftWords wordShift 0 w = w"
| "shiftWords wordShift (Suc i) w =
     shiftWords wordShift i (w[i := (if int i - int wordShift < 0 then 0 else w ! (i - wordShift))])"

primrec shiftBits :: "nat \<Rightarrow> nat \<Rightarrow> u64 list \<Rightarrow> u64 list" where
  "shiftBits bitShift 0 w = w[0 := push_bit bitShift (w ! 0)]"
| "shiftBits bitShift (Suc i) w =
     shiftBits bitShift i
       (w[Suc i := push_bit bitShift (w ! Suc i) OR drop_bit (64 - bitShift) (w ! i)])"

definition shiftWindow :: "u64 list \<Rightarrow> u64 \<Rightarrow> u64 list" where
  "shiftWindow w n =
     (let wordShift = n div 64; bitShift = n mod 64 in
      if wordShift \<ge> 64 then emptyWindow
      else let w = shiftWords (unat wordShift) 64 w in
        if bitShift > 0 then shiftBits (unat bitShift) 63 w else w)"

definition CheckReplay :: "u64 \<Rightarrow> 'a replay_window_scheme \<Rightarrow> bool \<times> 'a replay_window_scheme" where
  "CheckReplay counter h =
     (let end = windowEnd h in
      if counter > end then
        let diff = counter - end;
            w = (if diff \<ge> replayWindowSize then emptyWindow else shiftWindow (window h) diff)
        in (False, h\<lparr>windowEnd := counter, window := w[0 := (w ! 0) OR 1]\<rparr>)
      else if end - counter \<ge> replayWindowSize then (True, h)
      else
        let pos = end - counter; word = unat (pos div 64); b = unat (pos mod 64) in
        if (window h ! word) AND push_bit b 1 \<noteq> 0 then (True, h)
        else (False, h\<lparr>window := (window h)[word := (window h ! word) OR push_bit b 1]\<rparr>))"

section \<open>The bitmap as a predicate on positions\<close>

definition wbit :: "u64 list \<Rightarrow> nat \<Rightarrow> bool" where
  "wbit w p \<longleftrightarrow> bit (w ! (p div 64)) (p mod 64)"

lemma length_shiftWords [simp]: "length (shiftWords s i w) = length w"
  by (induction i arbitrary: w) simp_all

lemma length_shiftBits [simp]: "length (shiftBits s i w) = length w"
  by (induction i arbitrary: w) simp_all

lemma shiftWords_nth:
  assumes "i \<le> length w" "j < length w"
  shows "shiftWords s i w ! j = (if j < i then if j < s then 0 else w ! (j - s) else w ! j)"
  using assms
proof (induction i arbitrary: w)
  case (Suc i)
  then show ?case by (auto simp: nth_list_update less_Suc_eq)
qed simp

lemma shiftBits_nth:
  assumes "i < length w" "j < length w"
  shows "shiftBits s i w ! j =
    (if j \<le> i then if j = 0 then push_bit s (w ! 0)
       else push_bit s (w ! j) OR drop_bit (64 - s) (w ! (j - 1)) else w ! j)"
  using assms
proof (induction i arbitrary: w)
  case (Suc i)
  then show ?case by (auto simp: nth_list_update le_Suc_eq)
qed simp

lemma wbit_shiftWords:
  assumes "length w = 64" "p < 4096"
  shows "wbit (shiftWords s 64 w) p \<longleftrightarrow> 64 * s \<le> p \<and> wbit w (p - 64 * s)"
proof (cases "64 * s \<le> p")
  case True
  then obtain q where p: "p = 64 * s + q" by (metis le_Suc_ex)
  moreover from p assms(2) have "s + q div 64 < 64" by linarith
  ultimately show ?thesis using assms by (simp add: wbit_def shiftWords_nth)
next
  case False
  then have "p div 64 < s" "p div 64 < 64" using assms by linarith+
  then show ?thesis using assms False by (simp add: wbit_def shiftWords_nth)
qed

lemma wbit_shiftBits:
  assumes "length w = 64" "p < 4096" "0 < s" "s < 64"
  shows "wbit (shiftBits s 63 w) p \<longleftrightarrow> s \<le> p \<and> wbit w (p - s)"
proof -
  define a r where "a = p div 64" and "r = p mod 64"
  then have p: "p = 64 * a + r" and r: "r < 64" and a: "a < 64" using assms(2) by auto
  note pos = a_def [symmetric] r_def [symmetric]
  have no: "\<not> bit (v :: u64) k" if "64 \<le> k" for v k
    using that by (auto dest: bit_imp_le_length)
  show ?thesis
  proof (cases "s \<le> r")
    case True
    then obtain q where q: "r = s + q" by (metis le_Suc_ex)
    then have "(p - s) div 64 = a" "(p - s) mod 64 = q" using p r by auto
    then show ?thesis
      using assms a r q p by (simp add: wbit_def shiftBits_nth bit_simps no pos)
  next
    case False
    show ?thesis
    proof (cases a)
      case 0
      with False p show ?thesis using assms by (simp add: wbit_def shiftBits_nth bit_simps pos)
    next
      case (Suc b)
      with False p assms have "p - s = 64 * b + (64 - s + r)" "64 - s + r < 64" "s \<le> p"
        by auto
      then have "(p - s) div 64 = b" "(p - s) mod 64 = 64 - s + r" "s \<le> p"
        by simp_all
      then show ?thesis
        using False Suc assms a r by (simp add: wbit_def shiftBits_nth bit_simps no pos)
    qed
  qed
qed

lemma length_emptyWindow [simp]: "length emptyWindow = 64"
  by (simp add: emptyWindow_def)

lemma wbit_emptyWindow [simp]: "p < 4096 \<Longrightarrow> \<not> wbit emptyWindow p"
  by (simp add: wbit_def emptyWindow_def)

lemma length_shiftWindow [simp]: "length w = 64 \<Longrightarrow> length (shiftWindow w n) = 64"
  by (simp add: shiftWindow_def Let_def)

lemma wbit_shiftWindow:
  assumes "length w = 64" "p < 4096"
  shows "wbit (shiftWindow w n) p \<longleftrightarrow> unat n \<le> p \<and> wbit w (p - unat n)"
proof -
  define s b where "s = unat n div 64" and "b = unat n mod 64"
  then have n: "unat n = 64 * s + b" and b: "b < 64" by auto
  have u: "unat (n div 64) = s" "unat (n mod 64) = b"
    by (simp_all add: s_def b_def unat_div unat_mod)
  show ?thesis
  proof (cases "64 \<le> s")
    case True
    then show ?thesis using assms n u
      by (simp add: shiftWindow_def word_le_nat_alt)
  next
    case False
    then have "shiftWindow w n =
        (if 0 < b then shiftBits b 63 (shiftWords s 64 w) else shiftWords s 64 w)"
      using u by (simp add: shiftWindow_def word_le_nat_alt word_less_nat_alt Let_def)
    then show ?thesis
      using assms b n by (auto simp: wbit_shiftBits wbit_shiftWords add.commute)
  qed
qed

lemma wbit_set:
  assumes "length w = 64" "i < 64" "b < 64" "p < 4096"
  shows "wbit (w[i := (w ! i) OR push_bit b 1]) p \<longleftrightarrow> p = 64 * i + b \<or> wbit w p"
proof -
  have "p mod 64 < 64" by simp
  moreover have "p = 64 * i + b \<longleftrightarrow> p div 64 = i \<and> p mod 64 = b" using assms by auto
  ultimately show ?thesis using assms
    by (auto simp: wbit_def nth_list_update bit_simps)
qed

section \<open>The interface of a replay filter\<close>

text \<open>
  Running a filter over the counters of the packets of a session: the counters it accepts, in
  order, and the final state.  \<open>spec_run\<close> is the specification: it remembers every counter ever
  accepted and rejects a counter that was accepted before or that lies \<open>wsz\<close> or more behind the
  highest accepted one.
\<close>

primrec run_checks :: "(u64 \<Rightarrow> 's \<Rightarrow> bool \<times> 's) \<Rightarrow> 's \<Rightarrow> u64 list \<Rightarrow> u64 list \<times> 's" where
  "run_checks check s [] = ([], s)"
| "run_checks check s (c # cs) =
     (let (replay, s') = check c s; (acc, s'') = run_checks check s' cs
      in (if replay then acc else c # acc, s''))"

primrec spec_run :: "nat \<Rightarrow> nat \<Rightarrow> nat set \<Rightarrow> u64 list \<Rightarrow> u64 list" where
  "spec_run wsz m S [] = []"
| "spec_run wsz m S (c # cs) =
     (if unat c \<in> S \<or> unat c + wsz \<le> m then spec_run wsz m S cs
      else c # spec_run wsz (max m (unat c)) (insert (unat c) S) cs)"

lemma spec_run_fresh: "c \<in> set (spec_run wsz m S cs) \<Longrightarrow> unat c \<notin> S"
  by (induction cs arbitrary: m S) (auto split: if_splits)

lemma spec_run_distinct: "distinct (spec_run wsz m S cs)"
proof (induction cs arbitrary: m S)
  case (Cons c cs)
  then show ?case using spec_run_fresh [of c wsz _ "insert (unat c) S"] by auto
qed simp

lemma spec_run_in_order:
  assumes "sorted_wrt (\<lambda>a b. unat a < unat b) cs" "\<And>c. c \<in> set cs \<Longrightarrow> m \<le> unat c \<and> unat c \<notin> S" "0 < wsz"
  shows "spec_run wsz m S cs = cs"
  using assms
proof (induction cs arbitrary: m S)
  case (Cons c cs)
  have "spec_run wsz (unat c) (insert (unat c) S) cs = cs"
    using Cons.prems by (intro Cons.IH) (auto simp: less_imp_le)
  moreover from Cons.prems(2) [of c] have "m \<le> unat c" "unat c \<notin> S" by simp_all
  ultimately show ?case using Cons.prems(3) by (simp add: max_def)
qed simp

locale replay_filter =
  fixes check :: "u64 \<Rightarrow> 's \<Rightarrow> bool \<times> 's"
    and inv :: "'s \<Rightarrow> bool"
    and highest :: "'s \<Rightarrow> nat"
    and marked :: "'s \<Rightarrow> nat set"
    and wsz :: nat
  assumes verdict: "inv s \<Longrightarrow> fst (check c s) \<longleftrightarrow> unat c \<in> marked s \<or> unat c + wsz \<le> highest s"
    and reject_keeps: "inv s \<Longrightarrow> fst (check c s) \<Longrightarrow> snd (check c s) = s"
    and accept_inv: "inv s \<Longrightarrow> \<not> fst (check c s) \<Longrightarrow> inv (snd (check c s))"
    and accept_highest: "inv s \<Longrightarrow> \<not> fst (check c s) \<Longrightarrow>
      highest (snd (check c s)) = max (highest s) (unat c)"
    and accept_marked: "inv s \<Longrightarrow> \<not> fst (check c s) \<Longrightarrow>
      marked (snd (check c s)) = {x \<in> insert (unat c) (marked s). highest (snd (check c s)) < x + wsz}"
begin

text \<open>
  \<open>remembers s S\<close>: the filter state stands for the history \<open>S\<close>, what fell out of the window being
  exactly what is too old to be accepted again.
\<close>

definition remembers :: "'s \<Rightarrow> nat set \<Rightarrow> bool" where
  "remembers s S \<longleftrightarrow> inv s \<and> marked s = {x \<in> S. highest s < x + wsz}"

lemma remembers_verdict:
  "remembers s S \<Longrightarrow> fst (check c s) \<longleftrightarrow> unat c \<in> S \<or> unat c + wsz \<le> highest s"
proof -
  assume r: "remembers s S"
  then have i: "inv s" and m: "marked s = {x \<in> S. highest s < x + wsz}"
    by (simp_all add: remembers_def)
  show ?thesis unfolding verdict [OF i] m by auto
qed

lemma remembers_accept:
  assumes "remembers s S" "\<not> fst (check c s)"
  shows "remembers (snd (check c s)) (insert (unat c) S)"
proof -
  from assms(1) have i: "inv s" and m: "marked s = {x \<in> S. highest s < x + wsz}"
    by (simp_all add: remembers_def)
  let ?s = "snd (check c s)"
  have "highest s \<le> highest ?s" by (simp add: accept_highest [OF i assms(2)])
  then have "marked ?s = {x \<in> insert (unat c) S. highest ?s < x + wsz}"
    unfolding accept_marked [OF i assms(2)] m by auto
  with accept_inv [OF i assms(2)] show ?thesis by (simp add: remembers_def)
qed

lemma run_refines:
  "remembers s S \<Longrightarrow> fst (run_checks check s cs) = spec_run wsz (highest s) S cs"
proof (induction cs arbitrary: s S)
  case (Cons c cs)
  then have i: "inv s" by (simp add: remembers_def)
  obtain r s' where ch: "check c s = (r, s')" by fastforce
  show ?case
  proof (cases r)
    case True
    with ch reject_keeps [OF i, of c] have "s' = s" by simp
    with True ch Cons.IH [OF Cons.prems] remembers_verdict [OF Cons.prems, of c]
    show ?thesis by (auto simp: split_beta)
  next
    case False
    with ch remembers_accept [OF Cons.prems, of c] have "remembers s' (insert (unat c) S)" by simp
    from Cons.IH [OF this] show ?thesis
      using False ch remembers_verdict [OF Cons.prems, of c] accept_highest [OF i, of c]
      by (auto simp: split_beta)
  qed
qed simp

end

section \<open>The bitmap implements the filter\<close>

definition window_inv :: "'a replay_window_scheme \<Rightarrow> bool" where
  "window_inv h \<longleftrightarrow> length (window h) = 64 \<and>
     (\<forall>p<4096. wbit (window h) p \<longrightarrow> p \<le> unat (windowEnd h))"

definition window_marked :: "'a replay_window_scheme \<Rightarrow> nat set" where
  "window_marked h = {x. x \<le> unat (windowEnd h) \<and> unat (windowEnd h) - x < 4096 \<and>
     wbit (window h) (unat (windowEnd h) - x)}"

lemma unat_replayWindowSize: "unat replayWindowSize = 4096"
  by (simp add: replayWindowSize_def)

lemma CheckReplay_verdict:
  assumes "window_inv h"
  shows "fst (CheckReplay c h) \<longleftrightarrow> unat c \<in> window_marked h \<or> unat c + 4096 \<le> unat (windowEnd h)"
proof (cases "windowEnd h < c")
  case True
  then show ?thesis
    by (simp add: CheckReplay_def Let_def window_marked_def word_less_nat_alt)
next
  case False
  then have le: "unat c \<le> unat (windowEnd h)" by (simp add: word_less_nat_alt)
  then have d: "unat (windowEnd h - c) = unat (windowEnd h) - unat c"
    by (simp add: unat_sub word_le_nat_alt)
  show ?thesis
    using assms le False
    by (auto simp: CheckReplay_def Let_def window_marked_def word_le_nat_alt unat_replayWindowSize d
        and_exp_eq_0_iff_not_bit unat_div unat_mod wbit_def)
qed

lemma CheckReplay_reject: "fst (CheckReplay c h) \<Longrightarrow> snd (CheckReplay c h) = h"
  by (auto simp: CheckReplay_def Let_def split: if_splits)

lemma CheckReplay_end:
  "\<not> fst (CheckReplay c h) \<Longrightarrow> windowEnd (snd (CheckReplay c h)) = max (windowEnd h) c"
  by (auto simp: CheckReplay_def Let_def max_def split: if_splits)

text \<open>
  The two ways a counter is accepted: it moves the window forward, or it fills a slot of it.  In
  both, the new bitmap is described position by position.
\<close>

lemma CheckReplay_forward:
  assumes "window_inv h" "windowEnd h < c" "p < 4096"
  defines "k \<equiv> unat c - unat (windowEnd h)"
  shows "wbit (window (snd (CheckReplay c h))) p \<longleftrightarrow> p = 0 \<or> k \<le> p \<and> wbit (window h) (p - k)"
proof -
  let ?w = "if c - windowEnd h \<ge> replayWindowSize then emptyWindow
    else shiftWindow (window h) (c - windowEnd h)"
  have k: "unat (c - windowEnd h) = k"
    using assms(2) unfolding k_def by (intro unat_sub) simp
  have len: "length (window h) = 64" using assms by (simp add: window_inv_def)
  have w: "wbit ?w p \<longleftrightarrow> k \<le> p \<and> wbit (window h) (p - k)"
    using assms(3) len k by (auto simp: wbit_shiftWindow word_le_nat_alt unat_replayWindowSize)
  have s: "window (snd (CheckReplay c h)) = ?w[0 := (?w ! 0) OR push_bit 0 1]"
    using assms(2) by (simp add: CheckReplay_def Let_def)
  show ?thesis
    unfolding s using wbit_set [of ?w 0 0 p] w assms(3) len by simp
qed

lemma CheckReplay_fill:
  assumes "window_inv h" "\<not> windowEnd h < c" "\<not> fst (CheckReplay c h)" "p < 4096"
  shows "wbit (window (snd (CheckReplay c h))) p \<longleftrightarrow>
    p = unat (windowEnd h) - unat c \<or> wbit (window h) p"
proof -
  let ?d = "windowEnd h - c"
  have d: "unat ?d = unat (windowEnd h) - unat c"
    using assms(2) by (intro unat_sub) simp
  have lt: "unat ?d < 4096"
    using assms(2,3) by (auto simp: CheckReplay_def Let_def word_le_nat_alt unat_replayWindowSize
        split: if_splits)
  have s: "window (snd (CheckReplay c h)) = (window h)[unat (?d div 64) :=
      (window h ! unat (?d div 64)) OR push_bit (unat (?d mod 64)) 1]"
    using assms(2,3) by (auto simp: CheckReplay_def Let_def split: if_splits)
  show ?thesis
    unfolding s using wbit_set [of "window h" "unat (?d div 64)" "unat (?d mod 64)" p] assms(1,4) lt d
    by (simp add: window_inv_def unat_div unat_mod)
qed

lemma length_CheckReplay:
  "length (window h) = 64 \<Longrightarrow> length (window (snd (CheckReplay c h))) = 64"
  by (auto simp: CheckReplay_def Let_def)

lemma CheckReplay_inv:
  assumes "window_inv h" "\<not> fst (CheckReplay c h)"
  shows "window_inv (snd (CheckReplay c h))"
proof -
  let ?h = "snd (CheckReplay c h)"
  have e: "windowEnd ?h = max (windowEnd h) c" by (rule CheckReplay_end [OF assms(2)])
  have "p \<le> unat (max (windowEnd h) c)" if p: "p < 4096" "wbit (window ?h) p" for p
  proof (cases "windowEnd h < c")
    case True
    let ?k = "unat c - unat (windowEnd h)"
    from True have "unat (windowEnd h) < unat c" by (simp add: word_less_nat_alt)
    moreover have "wbit (window h) (p - ?k) \<longrightarrow> p - ?k \<le> unat (windowEnd h)"
      using assms(1) p(1) by (simp add: window_inv_def)
    ultimately show ?thesis
      using True p CheckReplay_forward [OF assms(1) True p(1)] by (auto simp: max_def)
  next
    case False
    with p assms show ?thesis
      by (auto simp: CheckReplay_fill window_inv_def max_def word_le_nat_alt)
  qed
  then show ?thesis
    using assms(1) length_CheckReplay [of h c] by (simp add: window_inv_def e)
qed

lemma CheckReplay_marked:
  assumes "window_inv h" "\<not> fst (CheckReplay c h)"
  shows "window_marked (snd (CheckReplay c h)) =
    {x \<in> insert (unat c) (window_marked h). unat (windowEnd (snd (CheckReplay c h))) < x + 4096}"
proof (rule set_eqI)
  fix x
  have e: "windowEnd (snd (CheckReplay c h)) = max (windowEnd h) c"
    by (rule CheckReplay_end [OF assms(2)])
  show "x \<in> window_marked (snd (CheckReplay c h)) \<longleftrightarrow>
    x \<in> {x \<in> insert (unat c) (window_marked h).
      unat (windowEnd (snd (CheckReplay c h))) < x + 4096}"
  proof (cases "windowEnd h < c")
    case True
    then have lt: "unat (windowEnd h) < unat c" by (simp add: word_less_nat_alt)
    then have "unat c - x - (unat c - unat (windowEnd h)) = unat (windowEnd h) - x"
      if "x \<le> unat (windowEnd h)" using that by simp
    then show ?thesis
      using True lt assms(1) CheckReplay_forward [OF assms(1) True, of "unat c - x"]
      by (auto simp: window_marked_def e max_def)
  next
    case False
    then have "unat c \<le> unat (windowEnd h)" by (simp add: word_less_nat_alt)
    then show ?thesis
      using False CheckReplay_fill [OF assms(1) False assms(2), of "unat (windowEnd h) - x"]
      by (auto simp: window_marked_def e max_def)
  qed
qed

interpretation win: replay_filter CheckReplay window_inv "\<lambda>h. unat (windowEnd h)" window_marked 4096
proof (unfold_locales, goal_cases)
  case (1 s c)
  then show ?case by (rule CheckReplay_verdict)
next
  case (2 s c)
  then show ?case by (intro CheckReplay_reject)
next
  case (3 s c)
  then show ?case by (rule CheckReplay_inv)
next
  case (4 s c)
  then show ?case using CheckReplay_end [of c s] by (simp add: max_def word_le_nat_alt)
next
  case (5 s c)
  then show ?case by (rule CheckReplay_marked)
qed

definition fresh_window :: "'a replay_window_scheme \<Rightarrow> 'a replay_window_scheme" where
  "fresh_window h = h\<lparr>windowEnd := 0, window := emptyWindow\<rparr>"

lemma fresh_window_inv: "window_inv (fresh_window h)"
  by (simp add: window_inv_def fresh_window_def)

lemma fresh_remembers: "win.remembers (fresh_window h) {}"
  using fresh_window_inv [of h]
  by (simp add: win.remembers_def window_marked_def fresh_window_def)

lemma CheckReplay_preserves: "window_inv h \<Longrightarrow> window_inv (snd (CheckReplay c h))"
  using CheckReplay_inv [of h c] CheckReplay_reject [of c h] by fastforce

section \<open>Properties\<close>

text \<open>
  C11: the bitmap with its in-place shifts accepts, over any sequence of counters a fresh session
  sees, exactly the counters the specification accepts: those never accepted before and less than
  4096 behind the highest counter accepted so far.
\<close>
theorem CheckReplay_refines:
  "fst (run_checks CheckReplay (fresh_window h) cs) = spec_run 4096 0 {} cs"
  using win.run_refines [OF fresh_remembers] by (simp add: fresh_window_def)

text \<open>
  No counter is ever accepted twice in the life of a session, in whatever order, however often
  and with whatever gaps the counters arrive.
\<close>
theorem CheckReplay_at_most_once:
  "distinct (fst (run_checks CheckReplay (fresh_window h) cs))"
  by (simp add: win.run_refines [OF fresh_remembers] spec_run_distinct)

text \<open>
  Traffic that arrives in the order it was sent is never mistaken for a replay: strictly
  increasing counters are all accepted.
\<close>
theorem CheckReplay_accepts_in_order:
  assumes "sorted_wrt (<) cs"
  shows "fst (run_checks CheckReplay (fresh_window h) cs) = cs"
proof -
  have "((<) :: u64 \<Rightarrow> u64 \<Rightarrow> bool) = (\<lambda>a b. unat a < unat b)"
    by (intro ext) (simp add: word_less_nat_alt)
  with assms show ?thesis
    unfolding win.run_refines [OF fresh_remembers]
    by (intro spec_run_in_order) (simp_all add: fresh_window_def)
qed

theorem CheckReplay_accepts_in_order_witness:
  "fst (run_checks CheckReplay (fresh_window \<lparr>windowEnd = 0, window = []\<rparr>) [0, 1, 70, 5000, 18446744073709551615])
    = [0, 1, 70, 5000, 18446744073709551615]"
  by (rule CheckReplay_accepts_in_order) simp

text \<open>
  C35: shifting the bitmap by \<open>n\<close> moves the mark of every one of the 4096 positions by exactly \<open>n\<close>,
  drops what leaves the window and clears what enters it, although both loops work in place.
\<close>
theorem shiftWindow_correct:
  assumes "length w = 64" "p < 4096"
  shows "length (shiftWindow w n) = 64 \<and>
    (wbit (shiftWindow w n) p \<longleftrightarrow> unat n \<le> p \<and> wbit w (p - unat n))"
  using assms by (simp add: wbit_shiftWindow)

theorem shiftWindow_correct_witness:
  "length (shiftWindow (replicate 64 1) 65) = 64 \<and> wbit (shiftWindow (replicate 64 1) 65) 129"
  using shiftWindow_correct [of "replicate 64 1" 129 65] by (simp add: wbit_def)

end
