(* ===== verification/Neth_Header.thy ===== *)
theory Neth_Header
  imports Neth_Text
begin

text \<open>
  The 16-byte wire header of \<^verbatim>\<open>header/header.go\<close>: its record, \<open>Encode\<close>, \<open>Parse\<close> and \<open>Bytes\<close>, and the
  framing interface every packet builder of the program relies on.
\<close>

section \<open>Constants and types\<close>

definition Version :: byte where
  "Version = 1"

definition HeaderLen :: nat where
  "HeaderLen = 16"

type_synonym MessageType = byte

definition TypeHandshake :: MessageType where
  "TypeHandshake = 0"

definition TypeMessage :: MessageType where
  "TypeMessage = 1"

definition TypeLightHouse :: MessageType where
  "TypeLightHouse = 2"

definition TypeTest :: MessageType where
  "TypeTest = 3"

definition TypeCloseTunnel :: MessageType where
  "TypeCloseTunnel = 4"

definition HandshakeInitiation :: byte where
  "HandshakeInitiation = 0"

definition HandshakeResponse :: byte where
  "HandshakeResponse = 1"

lemmas type_defs = TypeHandshake_def TypeMessage_def TypeLightHouse_def TypeTest_def
  TypeCloseTunnel_def

definition MessageType_String :: "MessageType \<Rightarrow> string" where
  "MessageType_String t =
     (if t = TypeHandshake then ''Handshake''
      else if t = TypeMessage then ''Message''
      else if t = TypeLightHouse then ''LightHouse''
      else if t = TypeTest then ''Test''
      else if t = TypeCloseTunnel then ''CloseTunnel''
      else ''Unknown('' @ itoa (unat t) @ '')'')"

text \<open>The name of a type in the log identifies it.\<close>

lemma MessageType_String_inject: "MessageType_String s = MessageType_String t \<longleftrightarrow> s = t"
  by (auto simp: MessageType_String_def itoa_inject intro: word_unat_eq_iff [THEN iffD2])

record Header =
  hdrVersion :: byte
  hdrType :: MessageType
  hdrSubType :: byte
  hdrRemoteIndex :: u32
  hdrMessageCounter :: u64

datatype header_error = BufferTooSmall nat | TooShort nat | UnsupportedVersion byte

section \<open>Operations\<close>

text \<open>
  \<open>Encode\<close> overwrites the first sixteen bytes of the caller's buffer and leaves the rest alone.
\<close>

definition Encode :: "Header \<Rightarrow> bytes \<Rightarrow> (header_error, bytes) res" where
  "Encode h buf =
     (if length buf < HeaderLen then Inl (BufferTooSmall (length buf))
      else Inr ([push_bit 4 (hdrVersion h) OR (hdrType h AND 0x0F), hdrSubType h, 0, 0]
                @ put_be 4 (hdrRemoteIndex h) @ put_be 8 (hdrMessageCounter h)
                @ drop HeaderLen buf))"

definition Parse :: "bytes \<Rightarrow> (header_error, Header) res" where
  "Parse buf =
     (if length buf < HeaderLen then Inl (TooShort (length buf))
      else let v = drop_bit 4 (buf ! 0) in
        if v \<noteq> Version then Inl (UnsupportedVersion v)
        else Inr \<lparr>hdrVersion = v, hdrType = buf ! 0 AND 0x0F, hdrSubType = buf ! 1,
                  hdrRemoteIndex = get_be (slice 4 8 buf),
                  hdrMessageCounter = get_be (slice 8 16 buf)\<rparr>)"

definition Bytes :: "Header \<Rightarrow> bytes" where
  "Bytes h = (case Encode h (replicate HeaderLen 0) of Inl _ \<Rightarrow> replicate HeaderLen 0 | Inr b \<Rightarrow> b)"

section \<open>Framing\<close>

text \<open>
  A header fits the wire when its version is the supported one and its type fits the low nibble.
\<close>

definition wire_header :: "Header \<Rightarrow> bool" where
  "wire_header h \<longleftrightarrow> hdrVersion h = Version \<and> unat (hdrType h) < 16"

lemma Bytes_eq:
  "Bytes h = [push_bit 4 (hdrVersion h) OR (hdrType h AND 0x0F), hdrSubType h, 0, 0]
     @ put_be 4 (hdrRemoteIndex h) @ put_be 8 (hdrMessageCounter h)"
  by (simp add: Bytes_def Encode_def HeaderLen_def)

lemma length_Bytes [simp]: "length (Bytes h) = 16"
  by (simp add: Bytes_eq)

lemma nibble_split:
  fixes v t :: byte
  assumes "unat v < 16"
  shows "drop_bit 4 (push_bit 4 v OR (t AND 15)) = v" "(push_bit 4 v OR (t AND 15)) AND 15 = t AND 15"
proof -
  have m: "(15 :: byte) = mask 4" by (simp add: mask_eq_exp_minus_1)
  have vb: "bit v k \<Longrightarrow> k < 4" for k
    using assms bit_small_word [of v 4 k] by simp
  show "drop_bit 4 (push_bit 4 v OR (t AND 15)) = v"
    by (rule bit_word_eqI) (auto simp: m bit_simps dest: vb)
  show "(push_bit 4 v OR (t AND 15)) AND 15 = t AND 15"
    by (rule bit_word_eqI) (auto simp: m bit_simps)
qed

lemma nibble_id_iff: "t AND 15 = t \<longleftrightarrow> unat t < 16" for t :: byte
proof -
  have "unat (t AND 15) = unat t mod 16"
    by (simp add: and_15_take_bit unsigned_take_bit_eq take_bit_eq_mod unat_mod_distrib)
  then show ?thesis
    by (metis mod_less mod_less_divisor word_unat_eq_iff zero_less_numeral)
qed

text \<open>
  The interface of a fixed-size header in front of a body: the encoder always emits \<open>n\<close> bytes and
  the decoder recovers the header whatever follows it.  The clients are the three packet builders
  (data, handshake and lighthouse packets) and the receive path.
\<close>

locale framing =
  fixes enc :: "'h \<Rightarrow> bytes"
    and dec :: "bytes \<Rightarrow> ('e, 'h) res"
    and ok :: "'h \<Rightarrow> bool"
    and n :: nat
  assumes len_enc: "length (enc h) = n"
    and dec_enc: "ok h \<Longrightarrow> dec (enc h @ body) = Inr h"
begin

lemma frame_header: "take n (enc h @ body) = enc h"
  by (simp add: len_enc)

lemma frame_body: "drop n (enc h @ body) = body"
  by (simp add: len_enc)

lemma frame_inject:
  assumes "ok h" "ok h'" "enc h @ body = enc h' @ body'"
  shows "h = h' \<and> body = body'"
proof -
  from assms have "dec (enc h @ body) = Inr h" "dec (enc h @ body) = Inr h'"
    by (metis dec_enc)+
  moreover from assms(3) have "body = body'" by (metis frame_body)
  ultimately show ?thesis by simp
qed

lemma frame_size: "length (enc h @ body) = n + length body"
  by (simp add: len_enc)

end

lemma Parse_Bytes_append:
  assumes "wire_header h"
  shows "Parse (Bytes h @ body) = Inr h"
  using assms nibble_split [of "hdrVersion h" "hdrType h"]
  by (cases h) (simp add: Parse_def Bytes_eq wire_header_def HeaderLen_def Version_def Let_def
      slice_def nibble_id_iff)

interpretation hdr: framing Bytes Parse wire_header HeaderLen
  by unfold_locales (simp_all add: HeaderLen_def Parse_Bytes_append)

lemma Parse_InrD:
  assumes "Parse buf = Inr h"
  shows "HeaderLen \<le> length buf" "wire_header h" "hdrSubType h = buf ! 1"
    "hdrRemoteIndex h = get_be (slice 4 8 buf)" "hdrMessageCounter h = get_be (slice 8 16 buf)"
    "buf ! 0 = push_bit 4 (hdrVersion h) OR hdrType h"
proof -
  have n: "unat ((buf ! 0) AND 15) < 16"
    using nibble_id_iff [of "(buf ! 0) AND 15"] by (simp add: and.assoc)
  have b: "buf ! 0 = push_bit 4 (drop_bit 4 (buf ! 0)) OR ((buf ! 0) AND 15)"
    by (rule bit_word_eqI) (auto simp: and_15_take_bit bit_simps)
  show "HeaderLen \<le> length buf" "wire_header h" "hdrSubType h = buf ! 1"
    "hdrRemoteIndex h = get_be (slice 4 8 buf)" "hdrMessageCounter h = get_be (slice 8 16 buf)"
    "buf ! 0 = push_bit 4 (hdrVersion h) OR hdrType h"
    using assms n b by (auto simp: Parse_def wire_header_def Let_def split: if_splits)
qed

section \<open>Properties\<close>

text \<open>
  C34: a header placed in front of any body is recovered by \<open>Parse\<close> exactly when its version is the
  supported one and its type fits the four bits the wire gives it.
\<close>
theorem header_roundtrip: "Parse (Bytes h @ body) = Inr h \<longleftrightarrow> wire_header h"
  using Parse_Bytes_append Parse_InrD(2) by blast

text \<open>
  Whatever \<open>Parse\<close> accepts, re-encoding the parsed header reproduces the sixteen header bytes
  with the two reserved bytes cleared: reserved bytes are ignored on read and zero on write, and
  nothing else of the header is lost.
\<close>
theorem Parse_canonical:
  assumes "Parse buf = Inr h"
  shows "Bytes h = [buf ! 0, buf ! 1, 0, 0] @ slice 4 16 buf"
proof -
  note P = Parse_InrD [OF assms]
  have "slice 4 16 buf = slice 4 8 buf @ slice 8 16 buf"
    by (simp add: slice_concat)
  moreover have "hdrType h AND 15 = hdrType h"
    using P(2) by (simp add: wire_header_def nibble_id_iff)
  ultimately show ?thesis
    using P by (simp add: Bytes_eq HeaderLen_def put_get_be)
qed

theorem Parse_canonical_witness:
  "Bytes \<lparr>hdrVersion = 1, hdrType = 1, hdrSubType = 7, hdrRemoteIndex = 258, hdrMessageCounter = 9\<rparr>
    = [17, 7, 0, 0, 0, 0, 1, 2, 0, 0, 0, 0, 0, 0, 0, 9]"
proof -
  let ?b = "[17, 7, 255, 255, 0, 0, 1, 2, 0, 0, 0, 0, 0, 0, 0, 9] :: bytes"
  have "Parse ?b = Inr \<lparr>hdrVersion = 1, hdrType = 1, hdrSubType = 7, hdrRemoteIndex = 258,
      hdrMessageCounter = 9\<rparr>"
    by (simp add: Parse_def HeaderLen_def Version_def slice_def get_be_def)
  from Parse_canonical [OF this] show ?thesis by (simp add: slice_def)
qed

end
