(* ===== verification/Neth_Aead.thy ===== *)
theory Neth_Aead
  imports Neth_Crypto Neth_Header
begin

text \<open>
  The packet protection of \<^verbatim>\<open>noiseutil/aead.go\<close> on top of AES-GCM, and the interface of a sealed frame:
  a header in front of a ciphertext that authenticates it.  A \<^verbatim>\<open>cipher.AEAD\<close> made by
  \<^verbatim>\<open>cipher.NewGCM\<close> is determined by its AES key, so the key stands for it.
\<close>

type_synonym AEAD = bytes

datatype aead_error = BadAESKey nat | DecryptFailed

text \<open>
  \<open>UnsafeKey\<close> is the accessor of the Noise library's cipher state.  \<^verbatim>\<open>aes.NewCipher\<close> rejects keys of a
  wrong size; \<^verbatim>\<open>cipher.NewGCM\<close> cannot fail on an AES block.
\<close>

definition CipherFromState :: "('cs \<Rightarrow> bytes) \<Rightarrow> 'cs \<Rightarrow> (aead_error, AEAD) res" where
  "CipherFromState UnsafeKey cs =
     (let key = UnsafeKey cs in
      if aesKey key then Inr key else Inl (BadAESKey (length key)))"

definition CounterNonce :: "u64 \<Rightarrow> bytes" where
  "CounterNonce counter = put_le 8 counter @ replicate 4 0"

definition Encrypt :: "AEAD \<Rightarrow> u64 \<Rightarrow> bytes \<Rightarrow> bytes \<Rightarrow> (aead_error, bytes) res" where
  "Encrypt aead counter header plaintext = Inr (Seal aead (CounterNonce counter) plaintext header)"

definition Decrypt :: "AEAD \<Rightarrow> u64 \<Rightarrow> bytes \<Rightarrow> bytes \<Rightarrow> (aead_error, bytes) res" where
  "Decrypt aead counter header ciphertext =
     (case Open aead (CounterNonce counter) ciphertext header of
        None \<Rightarrow> Inl DecryptFailed
      | Some pt \<Rightarrow> Inr pt)"

lemma length_CounterNonce [simp]: "length (CounterNonce c) = 12"
  by (simp add: CounterNonce_def)

section \<open>Sealed frames\<close>

text \<open>
  A sealed frame is a header followed by the body sealed under the header's own counter with the
  header bytes as additional data.  The law is that the receiver's opener inverts the sealer.
\<close>

locale sealed_framing = framing enc dec ok n
  for enc :: "'h \<Rightarrow> bytes" and dec :: "bytes \<Rightarrow> ('e, 'h) res" and ok :: "'h \<Rightarrow> bool" and n :: nat +
  fixes seal :: "'k \<Rightarrow> 'c \<Rightarrow> bytes \<Rightarrow> bytes \<Rightarrow> ('f, bytes) res"
    and unseal :: "'k \<Rightarrow> 'c \<Rightarrow> bytes \<Rightarrow> bytes \<Rightarrow> ('f, bytes) res"
    and key_ok :: "'k \<Rightarrow> bool"
    and counter :: "'h \<Rightarrow> 'c"
  assumes seal_total: "is_ok (seal k c ad m)"
    and unseal_seal: "key_ok k \<Longrightarrow> seal k c ad m = Inr x \<Longrightarrow> unseal k c ad x = Inr m"
begin

lemma open_frame:
  assumes "ok h" "key_ok k" "seal k (counter h) (enc h) m = Inr x"
  shows "dec (enc h @ x) = Inr h \<and>
    unseal k (counter h) (take n (enc h @ x)) (drop n (enc h @ x)) = Inr m"
  unfolding frame_header frame_body using assms by (simp add: dec_enc unseal_seal)

lemma frame_determines:
  assumes "ok h" "ok h'" "key_ok k"
    and "seal k (counter h) (enc h) m = Inr x" "seal k (counter h') (enc h') m' = Inr x'"
    and "enc h @ x = enc h' @ x'"
  shows "h = h' \<and> m = m'"
proof -
  from frame_inject [OF assms(1,2,6)] have "h = h'" "x = x'" by auto
  with assms show ?thesis by (metis sum.inject(2) unseal_seal)
qed

end

lemma Decrypt_Encrypt:
  assumes "aesKey k" "Encrypt k c ad m = Inr x"
  shows "Decrypt k c ad x = Inr m"
  using assms by (auto simp: Encrypt_def Decrypt_def Open_Seal)

interpretation pkt: sealed_framing Bytes Parse wire_header HeaderLen Encrypt Decrypt aesKey
  hdrMessageCounter
proof (unfold_locales, goal_cases)
  case (1 k c ad m)
  then show ?case by (simp add: Encrypt_def)
next
  case (2 k c ad m x)
  then show ?case by (rule Decrypt_Encrypt)
qed

lemma Decrypt_too_short:
  "length x < gcmTagSize \<Longrightarrow> Decrypt k c ad x = Inl DecryptFailed"
  by (simp add: Decrypt_def Open_def)

section \<open>Properties\<close>

text \<open>
  Distinct packet counters give distinct nonces, all of the twelve bytes GCM asks for, over the
  whole 64-bit range of the counter.
\<close>
theorem CounterNonce_injective:
  "length (CounterNonce c) = 12 \<and> (CounterNonce c = CounterNonce c' \<longleftrightarrow> c = c')"
proof -
  have "c = c'" if "CounterNonce c = CounterNonce c'"
  proof -
    from that have "put_le 8 c = put_le 8 c'" by (simp add: CounterNonce_def)
    then have "get_le (put_le 8 c) = (get_le (put_le 8 c') :: u64)" by simp
    then show ?thesis by simp
  qed
  then show ?thesis by auto
qed

text \<open>
  C19: whatever key a completed Noise session hands to \<open>CipherFromState\<close>, a payload encrypted under
  it decrypts, with the same counter and the same header, to exactly that payload, and the
  ciphertext is the payload plus the sixteen bytes of the tag.
\<close>
theorem Encrypt_Decrypt_roundtrip:
  assumes "CipherFromState UnsafeKey cs = Inr aead" "Encrypt aead c hdr m = Inr x"
  shows "Decrypt aead c hdr x = Inr m \<and> length x = length m + 16"
proof -
  from assms(1) have "aesKey aead" by (auto simp: CipherFromState_def Let_def split: if_splits)
  with assms(2) show ?thesis
    by (auto simp: Decrypt_Encrypt) (auto simp: Encrypt_def length_Seal gcmTagSize_def)
qed

theorem Encrypt_Decrypt_roundtrip_witness:
  "Decrypt (replicate 32 7) 5 [1, 2] (Seal (replicate 32 7) (CounterNonce 5) [9, 9, 9] [1, 2]) = Inr [9, 9, 9]"
  using Encrypt_Decrypt_roundtrip
    [of "\<lambda>_ :: unit. replicate 32 7" "()" "replicate 32 7" 5 "[1, 2]" "[9, 9, 9]"]
  by (simp add: CipherFromState_def aesKey_def Encrypt_def)

end
