(* ===== verification/Neth_HostMap.thy ===== *)
theory Neth_HostMap
  imports Neth_Replay Neth_Aead Neth_Cert
begin

text \<open>
  The session record \<^verbatim>\<open>HostInfo\<close> and the registry \<^verbatim>\<open>HostMap\<close> of \<^verbatim>\<open>hostmap.go\<close>.  The registry stores
  pointers and one session can be reached through both of its maps, so sessions live in a heap (a
  list) and the maps hold positions in it.
\<close>

section \<open>Sessions and registry\<close>

record HostInfo = replay_window +
  hVpnIP :: Addr
  hRemote :: UDPAddr
  hIndex :: u32
  hRemoteIndex :: u32
  hSendCipher :: AEAD
  hRecvCipher :: AEAD
  hCounter :: u64
  hCert :: "Certificate option"

type_synonym href = nat
type_synonym host_heap = "HostInfo list"

record HostMap =
  byVpnIP :: "Addr \<rightharpoonup> href"
  byIndex :: "u32 \<rightharpoonup> href"

definition NewHostMap :: HostMap where
  "NewHostMap = \<lparr>byVpnIP = Map.empty, byIndex = Map.empty\<rparr>"

definition Add :: "host_heap \<Rightarrow> href \<Rightarrow> HostMap \<Rightarrow> HostMap" where
  "Add hp h m = m\<lparr>byVpnIP := (byVpnIP m)(hVpnIP (hp ! h) \<mapsto> h),
     byIndex := (byIndex m)(hIndex (hp ! h) \<mapsto> h)\<rparr>"

definition GetByVpnIP :: "HostMap \<Rightarrow> Addr \<Rightarrow> href option" where
  "GetByVpnIP m ip = byVpnIP m ip"

definition GetByIndex :: "HostMap \<Rightarrow> u32 \<Rightarrow> href option" where
  "GetByIndex m idx = byIndex m idx"

definition Remove :: "host_heap \<Rightarrow> Addr \<Rightarrow> HostMap \<Rightarrow> HostMap" where
  "Remove hp ip m =
     (let m = (case byVpnIP m ip of
                 None \<Rightarrow> m
               | Some h \<Rightarrow> m\<lparr>byIndex := (byIndex m)(hIndex (hp ! h) := None)\<rparr>)
      in m\<lparr>byVpnIP := (byVpnIP m)(ip := None)\<rparr>)"

section \<open>The contract of the registry\<close>

text \<open>
  What the packet handlers rely on: two lookups over sessions with two fixed keys each, and what
  each lookup returns after an insertion or a removal.
\<close>

locale peer_registry =
  fixes add :: "'r \<Rightarrow> 'm \<Rightarrow> 'm"
    and del :: "'ip \<Rightarrow> 'm \<Rightarrow> 'm"
    and get_ip :: "'m \<Rightarrow> 'ip \<Rightarrow> 'r option"
    and get_idx :: "'m \<Rightarrow> 'i \<Rightarrow> 'r option"
    and ip_of :: "'r \<Rightarrow> 'ip"
    and idx_of :: "'r \<Rightarrow> 'i"
  assumes get_ip_add: "get_ip (add r m) ip = (if ip = ip_of r then Some r else get_ip m ip)"
    and get_idx_add: "get_idx (add r m) i = (if i = idx_of r then Some r else get_idx m i)"
    and get_ip_del: "get_ip (del ip m) ip' = (if ip' = ip then None else get_ip m ip')"
    and get_idx_del: "get_idx (del ip m) i =
      (if \<exists>r. get_ip m ip = Some r \<and> idx_of r = i then None else get_idx m i)"
begin

definition keyed :: "'m \<Rightarrow> bool" where
  "keyed m \<longleftrightarrow> (\<forall>ip r. get_ip m ip = Some r \<longrightarrow> ip_of r = ip) \<and>
     (\<forall>i r. get_idx m i = Some r \<longrightarrow> idx_of r = i)"

lemma keyed_add: "keyed m \<Longrightarrow> keyed (add r m)"
  by (simp add: keyed_def get_ip_add get_idx_add)

lemma keyed_del: "keyed m \<Longrightarrow> keyed (del ip m)"
  by (simp add: keyed_def get_ip_del get_idx_del)

lemma lookup_after_add: "get_ip (add r m) (ip_of r) = Some r" "get_idx (add r m) (idx_of r) = Some r"
  by (simp_all add: get_ip_add get_idx_add)

lemma gone_after_del:
  "get_ip m ip = Some r \<Longrightarrow> get_ip (del ip m) ip = None \<and> get_idx (del ip m) (idx_of r) = None"
  by (simp add: get_ip_del get_idx_del)

lemma stored_add: "get_ip (add r m) ip = Some q \<Longrightarrow> q = r \<or> get_ip m ip = Some q"
  "get_idx (add r m) i = Some q \<Longrightarrow> q = r \<or> get_idx m i = Some q"
  by (auto simp: get_ip_add get_idx_add split: if_splits)

lemma stored_del: "get_ip (del ip m) ip' = Some q \<Longrightarrow> get_ip m ip' = Some q"
  "get_idx (del ip m) i = Some q \<Longrightarrow> get_idx m i = Some q"
  by (auto simp: get_ip_del get_idx_del split: if_splits)

lemma superseded_index_survives:
  assumes "ip_of r = ip_of s" "idx_of r \<noteq> idx_of s"
  shows "get_idx (add s (add r m)) (idx_of r) = Some r"
    "get_idx (del (ip_of s) (add s (add r m))) (idx_of r) = Some r"
  using assms by (simp_all add: get_idx_add get_idx_del get_ip_add)

end

interpretation hm: peer_registry "Add hp" "Remove hp" GetByVpnIP GetByIndex
  "\<lambda>h. hVpnIP (hp ! h)" "\<lambda>h. hIndex (hp ! h)" for hp
  by unfold_locales
    (auto simp: Add_def Remove_def GetByVpnIP_def GetByIndex_def Let_def split: option.splits)

section \<open>Well-formed registries over a growing heap\<close>

text \<open>
  Every entry points into the heap and is filed under the session's own keys.  Packet processing
  changes only the counter and the replay window of a session, which no lookup depends on.
\<close>

definition hm_ok :: "host_heap \<Rightarrow> HostMap \<Rightarrow> bool" where
  "hm_ok hp m \<longleftrightarrow> hm.keyed hp m \<and> (\<forall>ip h. GetByVpnIP m ip = Some h \<longrightarrow> h < length hp) \<and>
     (\<forall>i h. GetByIndex m i = Some h \<longrightarrow> h < length hp)"

definition same_keys :: "HostInfo \<Rightarrow> HostInfo \<Rightarrow> bool" where
  "same_keys h h' \<longleftrightarrow> hVpnIP h' = hVpnIP h \<and> hIndex h' = hIndex h"

lemma hm_ok_new [inv_keeps]: "hm_ok hp NewHostMap"
  by (simp add: hm_ok_def hm.keyed_def NewHostMap_def GetByVpnIP_def GetByIndex_def)

lemma hm_ok_iff: "hm_ok hp m \<longleftrightarrow>
    (\<forall>ip h. GetByVpnIP m ip = Some h \<longrightarrow> h < length hp \<and> hVpnIP (hp ! h) = ip) \<and>
    (\<forall>i h. GetByIndex m i = Some h \<longrightarrow> h < length hp \<and> hIndex (hp ! h) = i)"
  unfolding hm_ok_def hm.keyed_def by blast

lemma hm_ok_grow [inv_keeps]: "hm_ok hp m \<Longrightarrow> hm_ok (hp @ [h]) m"
  unfolding hm_ok_iff by (fastforce simp: nth_append)

lemma hm_ok_update [inv_keeps]: "hm_ok hp m \<Longrightarrow> same_keys (hp ! r) h \<Longrightarrow> hm_ok (hp[r := h]) m"
  unfolding hm_ok_iff same_keys_def by (cases "r < length hp") (auto simp: nth_list_update list_update_beyond)

lemma hm_ok_add [inv_keeps]: "hm_ok hp m \<Longrightarrow> h < length hp \<Longrightarrow> hm_ok hp (Add hp h m)"
  unfolding hm_ok_def by (metis hm.keyed_add hm.stored_add)

lemma hm_ok_remove [inv_keeps]: "hm_ok hp m \<Longrightarrow> hm_ok hp (Remove hp ip m)"
  unfolding hm_ok_def by (metis hm.keyed_del hm.stored_del)

lemma hm_okD:
  "hm_ok hp m \<Longrightarrow> GetByVpnIP m ip = Some h \<Longrightarrow> h < length hp \<and> hVpnIP (hp ! h) = ip"
  "hm_ok hp m \<Longrightarrow> GetByIndex m i = Some h \<Longrightarrow> h < length hp \<and> hIndex (hp ! h) = i"
  by (auto simp: hm_ok_def hm.keyed_def)

section \<open>Sequences of registry operations\<close>

datatype hm_op = Op_Add HostInfo | Op_Remove Addr

text \<open>\<open>Op_Add\<close> allocates the new session and registers it, as \<open>onHandshakeComplete\<close> does.\<close>

fun hm_step :: "hm_op \<Rightarrow> host_heap \<times> HostMap \<Rightarrow> host_heap \<times> HostMap" where
  "hm_step (Op_Add h) (hp, m) = (hp @ [h], Add (hp @ [h]) (length hp) m)"
| "hm_step (Op_Remove ip) (hp, m) = (hp, Remove hp ip m)"

lemma hm_ok_step: "hm_ok hp m \<Longrightarrow> hm_step op (hp, m) = (hp', m') \<Longrightarrow> hm_ok hp' m'"
  by (cases op) (auto intro: hm_ok_add [OF hm_ok_grow] hm_ok_remove)

lemma hm_ok_run: "hm_ok hp m \<Longrightarrow> fold hm_step ops (hp, m) = (hp', m') \<Longrightarrow> hm_ok hp' m'"
proof (induction ops arbitrary: hp m)
  case (Cons op ops)
  obtain hp1 m1 where s: "hm_step op (hp, m) = (hp1, m1)" by (cases "hm_step op (hp, m)")
  with Cons hm_ok_step [OF Cons.prems(1) s] show ?case by simp
qed simp

definition sample_host :: "Addr \<Rightarrow> u32 \<Rightarrow> HostInfo" where
  "sample_host ip idx = \<lparr>windowEnd = 0, window = emptyWindow, hVpnIP = ip, hRemote = \<lparr>udpIP = [], udpPort = 0\<rparr>,
     hIndex = idx, hRemoteIndex = 0, hSendCipher = replicate 32 0, hRecvCipher = replicate 32 0, hCounter = 0,
     hCert = None\<rparr>"

section \<open>Properties\<close>

text \<open>
  After any sequence of completed handshakes and removals, a lookup returns a live session that
  was registered under exactly the key asked for: no handler ever follows a dangling pointer or
  receives another peer's session.
\<close>
theorem HostMap_lookup_sound:
  assumes "fold hm_step ops ([], NewHostMap) = (hp, m)"
  shows "(GetByVpnIP m ip = Some h \<longrightarrow> h < length hp \<and> hVpnIP (hp ! h) = ip) \<and>
    (GetByIndex m i = Some h \<longrightarrow> h < length hp \<and> hIndex (hp ! h) = i)"
  using hm_ok_run [OF hm_ok_new assms] by (auto dest: hm_okD)

theorem HostMap_lookup_sound_witness:
  "hVpnIP ([sample_host (Addr4 1) 7, sample_host (Addr4 2) 8] ! 1) = Addr4 2"
proof -
  let ?hp = "[sample_host (Addr4 1) 7, sample_host (Addr4 2) 8]"
  have "fold hm_step [Op_Add (sample_host (Addr4 1) 7), Op_Add (sample_host (Addr4 2) 8)] ([], NewHostMap) =
      (?hp, Add ?hp 1 (Add [sample_host (Addr4 1) 7] 0 NewHostMap))"
    by simp
  from HostMap_lookup_sound [OF this, of "Addr4 2" 1] show ?thesis
    by (simp add: GetByVpnIP_def Add_def sample_host_def)
qed

text \<open>
  A completed handshake is found under both keys at once, a removal takes the current session
  of that address out of both maps, and neither touches the entries of other addresses and indices.
\<close>
theorem HostMap_add_remove:
  "GetByVpnIP (Add hp h m) ip = (if ip = hVpnIP (hp ! h) then Some h else GetByVpnIP m ip) \<and>
   GetByIndex (Add hp h m) i = (if i = hIndex (hp ! h) then Some h else GetByIndex m i) \<and>
   GetByVpnIP (Remove hp ip' m) ip = (if ip = ip' then None else GetByVpnIP m ip) \<and>
   GetByIndex (Remove hp ip' m) i =
     (if \<exists>h. GetByVpnIP m ip' = Some h \<and> hIndex (hp ! h) = i then None else GetByIndex m i)"
  by (simp add: hm.get_ip_add hm.get_idx_add hm.get_ip_del hm.get_idx_del)



end
