(* ===== verification/Neth_HandshakeManager.thy ===== *)
theory Neth_HandshakeManager
  imports Neth_Handshake Neth_HostMap
begin

text \<open>
  \<^verbatim>\<open>handshake_manager.go\<close>: the pending outbound handshakes, the two stages of the Noise exchange, the
  packet queue and the retry timer.  A pending handshake is reached through two maps and mutated
  through one of them, so it lives in a heap and the maps hold positions.  Time, random bytes, the
  ephemeral keys of Noise and the outcome of each UDP write are the fields of \<open>input\<close>; a call returns
  the datagrams it tried to write.
\<close>

section \<open>State\<close>

definition maxPendingPackets :: nat where
  "maxPendingPackets = 50"

definition maxHandshakeAttempts :: int where
  "maxHandshakeAttempts = 10"

definition millisecond :: int where
  "millisecond = 1000000"

definition retryBase :: int where
  "retryBase = 500 * millisecond"

definition retryMax :: int where
  "retryMax = 30000 * millisecond"

record 'hs pendingHandshake =
  phState :: 'hs
  phLocalIndex :: u32
  phRemoteVpnIP :: Addr
  phRemoteAddr :: UDPAddr
  phPendingPackets :: "bytes list"
  phAttempts :: int
  phNextRetry :: int
  phStage0msg :: bytes

type_synonym phref = nat

record 'hs HandshakeManager =
  localCert :: Certificate
  localKey :: DHKey
  caPool :: "Certificate list"
  phHeap :: "'hs pendingHandshake list"
  pending :: "Addr \<rightharpoonup> phref"
  indexMap :: "u32 \<rightharpoonup> phref"

record ('hs, 'cs) libs =
  libP :: proto_lib
  libL :: x509_lib
  libN :: "('hs, 'cs) noise_lib"

record input =
  inNow :: int
  inStamp :: int
  inRand :: "bytes option"
  inEntropy :: bytes
  inSendOk :: "bytes \<Rightarrow> UDPAddr \<Rightarrow> bool"

type_synonym outputs = "(bytes \<times> UDPAddr) list"

datatype hm_error =
    RandomFailed | StageTooShort nat | BadHeader header_error | Envelope handshake_error
  | PeerCert cert_error | CertVerify cert_error | NoiseWrite | NoiseRead | MarshalMessage | SendFailed
  | CipherError aead_error | NilCipherState | UnknownIndex u32

definition NewHandshakeManager :: "Certificate \<Rightarrow> DHKey \<Rightarrow> Certificate list \<Rightarrow> 'hs HandshakeManager" where
  "NewHandshakeManager c k pool =
     \<lparr>localCert = c, localKey = k, caPool = pool, phHeap = [], pending = Map.empty, indexMap = Map.empty\<rparr>"

section \<open>Helpers\<close>

definition randomIndex :: "bytes option \<Rightarrow> (hm_error, u32) res" where
  "randomIndex rnd = (case rnd of None \<Rightarrow> Inl RandomFailed | Some b \<Rightarrow> Inr (get_le b))"

definition marshalHandshakePacket ::
  "proto_lib \<Rightarrow> HandshakeMessage \<Rightarrow> u32 \<Rightarrow> byte \<Rightarrow> (hm_error, bytes) res" where
  "marshalHandshakePacket P msg remoteIndex subtype =
     (let hdrBytes = Bytes \<lparr>hdrVersion = Version, hdrType = TypeHandshake, hdrSubType = subtype,
            hdrRemoteIndex = remoteIndex, hdrMessageCounter = 0\<rparr>
      in case marshalHandshake P msg of
           None \<Rightarrow> Inl MarshalMessage
         | Some body \<Rightarrow> Inr (hdrBytes @ body))"

definition buildHandshakePacket ::
  "proto_lib \<Rightarrow> x509_lib \<Rightarrow> int \<Rightarrow> Certificate \<Rightarrow> bytes \<Rightarrow> u32 \<Rightarrow> byte \<Rightarrow> (hm_error, bytes) res" where
  "buildHandshakePacket P L now c noiseMsg localIndex subtype =
     (case BuildInitiatorMessage P L now c noiseMsg localIndex of
        Inl e \<Rightarrow> Inl (Envelope e)
      | Inr outerMsg \<Rightarrow> marshalHandshakePacket P outerMsg 0 subtype)"

text \<open>A handshake that has not reached the split has no cipher states: using them is a nil dereference.\<close>

definition ciphersFromStates ::
  "('hs, 'cs) noise_lib \<Rightarrow> ('cs \<times> 'cs) option \<Rightarrow> bool \<Rightarrow> (hm_error, AEAD \<times> AEAD) res" where
  "ciphersFromStates N split isInitiator =
     (case split of
        None \<Rightarrow> Inl NilCipherState
      | Some (cs1, cs2) \<Rightarrow>
          (case CipherFromState (UnsafeKey N) cs1 of
             Inl e \<Rightarrow> Inl (CipherError e)
           | Inr c1 \<Rightarrow>
               (case CipherFromState (UnsafeKey N) cs2 of
                  Inl e \<Rightarrow> Inl (CipherError e)
                | Inr c2 \<Rightarrow> Inr (if isInitiator then (c1, c2) else (c2, c1)))))"

text \<open>A new session: the fields the composite literals leave out start at zero.\<close>

definition newHost ::
  "Addr \<Rightarrow> UDPAddr \<Rightarrow> u32 \<Rightarrow> u32 \<Rightarrow> AEAD \<Rightarrow> AEAD \<Rightarrow> Certificate \<Rightarrow> HostInfo" where
  "newHost vpnIP remote index remoteIndex sendCipher recvCipher c =
     \<lparr>windowEnd = 0, window = emptyWindow, hVpnIP = vpnIP, hRemote = remote, hIndex = index,
      hRemoteIndex = remoteIndex, hSendCipher = sendCipher, hRecvCipher = recvCipher, hCounter = 0,
      hCert = Some c\<rparr>"

text \<open>The common prefix of both stages: parse and authenticate the outer envelope.\<close>

definition openEnvelope ::
  "('hs, 'cs) libs \<Rightarrow> Certificate list \<Rightarrow> int \<Rightarrow> bytes
    \<Rightarrow> (hm_error, HandshakeMessage \<times> HandshakeDetails \<times> Certificate) res" where
  "openEnvelope E pool now raw =
     (case ParseHandshakeMessage (libP E) raw of
        Inl e \<Rightarrow> Inl (Envelope e)
      | Inr msg \<Rightarrow>
          (case ParseDetails (libP E) msg of
             Inl e \<Rightarrow> Inl (Envelope e)
           | Inr details \<Rightarrow>
               (case ParseCert (libL E) (dCert details) of
                  Inl e \<Rightarrow> Inl (PeerCert e)
                | Inr c \<Rightarrow>
                    (case Verify (libL E) c pool now of
                       Inl e \<Rightarrow> Inl (CertVerify e)
                     | Inr _ \<Rightarrow>
                         (case VerifyHMAC msg c of
                            Inl e \<Rightarrow> Inl (Envelope e)
                          | Inr _ \<Rightarrow> Inr (msg, details, c))))))"

section \<open>Starting a handshake\<close>

definition StartHandshake ::
  "('hs, 'cs) libs \<Rightarrow> input \<Rightarrow> Addr \<Rightarrow> UDPAddr \<Rightarrow> Certificate \<Rightarrow> 'hs HandshakeManager
    \<Rightarrow> (hm_error, unit) res \<times> 'hs HandshakeManager \<times> outputs" where
  "StartHandshake E i remoteVpnIP addr remoteCert m =
     (if pending m remoteVpnIP \<noteq> None then (Inr (), m, [])
      else case randomIndex (inRand i) of
        Inl e \<Rightarrow> (Inl e, m, [])
      | Inr localIndex \<Rightarrow>
          let psk = DerivePreSharedKey (localCert m) remoteCert in
          (case NewInitiatorState (libN E) (localKey m) (X25519PublicKey remoteCert) psk of
             Inl e \<Rightarrow> (Inl (Envelope e), m, [])
           | Inr hs \<Rightarrow>
               (case WriteMessage (libN E) (inEntropy i) hs of
                  None \<Rightarrow> (Inl NoiseWrite, m, [])
                | Some (noiseMsg, _, hs) \<Rightarrow>
                    (case buildHandshakePacket (libP E) (libL E) (inStamp i) (localCert m) noiseMsg
                            localIndex HandshakeInitiation of
                       Inl e \<Rightarrow> (Inl e, m, [])
                     | Inr wireBytes \<Rightarrow>
                         let ph = \<lparr>phState = hs, phLocalIndex = localIndex, phRemoteVpnIP = remoteVpnIP,
                               phRemoteAddr = addr, phPendingPackets = [], phAttempts = 1,
                               phNextRetry = inNow i + retryBase, phStage0msg = wireBytes\<rparr>;
                             r = length (phHeap m);
                             m = m\<lparr>phHeap := phHeap m @ [ph],
                                   pending := (pending m)(remoteVpnIP \<mapsto> r),
                                   indexMap := (indexMap m)(localIndex \<mapsto> r)\<rparr>
                         in (if inSendOk i wireBytes addr then Inr () else Inl SendFailed, m,
                             [(wireBytes, addr)])))))"

section \<open>Stage 0: the responder\<close>

text \<open>
  Both stages return the session and the queued packets they pass to \<open>onComplete\<close>; the interface
  theory runs that callback.  Stage 0 does not touch the manager's maps.
\<close>

definition HandleStage0 ::
  "('hs, 'cs) libs \<Rightarrow> input \<Rightarrow> bytes \<Rightarrow> UDPAddr \<Rightarrow> 'hs HandshakeManager
    \<Rightarrow> (hm_error, HostInfo \<times> bytes list) res \<times> outputs" where
  "HandleStage0 E i pkt from m =
     (if length pkt < HeaderLen then (Inl (StageTooShort (length pkt)), [])
      else case Parse pkt of
        Inl e \<Rightarrow> (Inl (BadHeader e), [])
      | Inr _ \<Rightarrow>
      (case openEnvelope E (caPool m) (inNow i) (drop HeaderLen pkt) of
        Inl e \<Rightarrow> (Inl e, [])
      | Inr (msg, details, senderCert) \<Rightarrow>
          let psk = DerivePreSharedKey (localCert m) senderCert in
          (case NewResponderState (libN E) (localKey m) psk of
             Inl e \<Rightarrow> (Inl (Envelope e), [])
           | Inr respHS \<Rightarrow>
          (case ReadMessage (libN E) (mNoisePayload msg) respHS of
             None \<Rightarrow> (Inl NoiseRead, [])
           | Some (_, respHS) \<Rightarrow>
          (case randomIndex (inRand i) of
             Inl e \<Rightarrow> (Inl e, [])
           | Inr localIndex \<Rightarrow>
          (case WriteMessage (libN E) (inEntropy i) respHS of
             None \<Rightarrow> (Inl NoiseWrite, [])
           | Some (noiseReply, split, _) \<Rightarrow>
          (case BuildResponderMessage (libP E) (libL E) (inStamp i) (localCert m) noiseReply
                  (dInitiatorIndex details) localIndex of
             Inl e \<Rightarrow> (Inl (Envelope e), [])
           | Inr respMsg \<Rightarrow>
          (case marshalHandshakePacket (libP E) respMsg (dInitiatorIndex details) HandshakeResponse of
             Inl e \<Rightarrow> (Inl e, [])
           | Inr respBytes \<Rightarrow>
               if \<not> inSendOk i respBytes from then (Inl SendFailed, [(respBytes, from)])
               else
                 (case ciphersFromStates (libN E) split False of
                    Inl e \<Rightarrow> (Inl e, [(respBytes, from)])
                  | Inr (sendCipher, recvCipher) \<Rightarrow>
                      (Inr (newHost (pfxAddr (VpnIP senderCert)) from localIndex
                              (dInitiatorIndex details) sendCipher recvCipher senderCert, []),
                       [(respBytes, from)]))))))))))"

section \<open>Stage 1: the initiator\<close>

definition HandleStage1 ::
  "('hs, 'cs) libs \<Rightarrow> input \<Rightarrow> bytes \<Rightarrow> 'hs HandshakeManager
    \<Rightarrow> (hm_error, HostInfo \<times> bytes list) res \<times> 'hs HandshakeManager" where
  "HandleStage1 E i pkt m =
     (if length pkt < HeaderLen then (Inl (StageTooShort (length pkt)), m)
      else case Parse pkt of
        Inl e \<Rightarrow> (Inl (BadHeader e), m)
      | Inr h \<Rightarrow>
      (case indexMap m (hdrRemoteIndex h) of
         None \<Rightarrow> (Inl (UnknownIndex (hdrRemoteIndex h)), m)
       | Some r \<Rightarrow>
           let ph = phHeap m ! r;
               m = m\<lparr>pending := (pending m)(phRemoteVpnIP ph := None),
                     indexMap := (indexMap m)(hdrRemoteIndex h := None)\<rparr>
           in (case openEnvelope E (caPool m) (inNow i) (drop HeaderLen pkt) of
                 Inl e \<Rightarrow> (Inl e, m)
               | Inr (msg, details, responderCert) \<Rightarrow>
                   (case ReadMessage (libN E) (mNoisePayload msg) (phState ph) of
                      None \<Rightarrow> (Inl NoiseRead, m)
                    | Some (split, _) \<Rightarrow>
                        (case ciphersFromStates (libN E) split True of
                           Inl e \<Rightarrow> (Inl e, m)
                         | Inr (sendCipher, recvCipher) \<Rightarrow>
                             (Inr (newHost (phRemoteVpnIP ph) (phRemoteAddr ph) (phLocalIndex ph)
                                     (dResponderIndex details) sendCipher recvCipher responderCert,
                                   phPendingPackets ph), m))))))"

section \<open>Queue and retries\<close>

definition QueuePacket :: "Addr \<Rightarrow> bytes \<Rightarrow> 'hs HandshakeManager \<Rightarrow> 'hs HandshakeManager" where
  "QueuePacket remoteVpnIP pkt m =
     (case pending m remoteVpnIP of
        None \<Rightarrow> m
      | Some r \<Rightarrow>
          let ph = phHeap m ! r;
              q = (if length (phPendingPackets ph) \<ge> maxPendingPackets then drop 1 (phPendingPackets ph)
                   else phPendingPackets ph)
          in m\<lparr>phHeap := (phHeap m)[r := ph\<lparr>phPendingPackets := q @ [pkt]\<rparr>]\<rparr>)"

definition retryDelay :: "int \<Rightarrow> int" where
  "retryDelay attempts =
     (let delay = retryBase * push_bit (nat (min attempts 6)) 1
      in if delay > retryMax then retryMax else delay)"

text \<open>
  One tick of \<open>Run\<close>.  The list is the order in which the range loop visits the pending map; deleting the
  visited entry does not disturb it.
\<close>

primrec retryPending :: "int \<Rightarrow> Addr list \<Rightarrow> 'hs HandshakeManager \<Rightarrow> 'hs HandshakeManager \<times> outputs" where
  "retryPending now [] m = (m, [])"
| "retryPending now (vpnIP # order) m =
     (case pending m vpnIP of
        None \<Rightarrow> retryPending now order m
      | Some r \<Rightarrow>
          let ph = phHeap m ! r in
          if now < phNextRetry ph then retryPending now order m
          else if phAttempts ph \<ge> maxHandshakeAttempts then
            retryPending now order
              (m\<lparr>pending := (pending m)(vpnIP := None), indexMap := (indexMap m)(phLocalIndex ph := None)\<rparr>)
          else
            let attempts = phAttempts ph + 1;
                ph = ph\<lparr>phAttempts := attempts, phNextRetry := now + retryDelay attempts\<rparr>;
                (m, out) = retryPending now order (m\<lparr>phHeap := (phHeap m)[r := ph]\<rparr>)
            in (m, (phStage0msg ph, phRemoteAddr ph) # out))"

section \<open>Reachable managers\<close>

text \<open>
  The manager's lock makes each operation atomic; a reachable state is the result of any
  interleaving of them.  \<open>HandleStage0\<close> leaves the manager unchanged.
\<close>

inductive hsm_reach :: "('hs, 'cs) libs \<Rightarrow> 'hs HandshakeManager \<Rightarrow> bool" for E where
  hsm_new: "hsm_reach E (NewHandshakeManager c k pool)"
| hsm_start: "hsm_reach E m \<Longrightarrow> hsm_reach E (fst (snd (StartHandshake E i ip addr c m)))"
| hsm_stage1: "hsm_reach E m \<Longrightarrow> hsm_reach E (snd (HandleStage1 E i pkt m))"
| hsm_queue: "hsm_reach E m \<Longrightarrow> hsm_reach E (QueuePacket ip pkt m)"
| hsm_tick: "hsm_reach E m \<Longrightarrow> hsm_reach E (fst (retryPending now order m))"

definition ph_ok :: "'hs pendingHandshake \<Rightarrow> bool" where
  "ph_ok ph \<longleftrightarrow> length (phPendingPackets ph) \<le> maxPendingPackets \<and>
     1 \<le> phAttempts ph \<and> phAttempts ph \<le> maxHandshakeAttempts"

definition hsm_inv :: "'hs HandshakeManager \<Rightarrow> bool" where
  "hsm_inv m \<longleftrightarrow>
     (\<forall>ip r. pending m ip = Some r \<longrightarrow> r < length (phHeap m) \<and> phRemoteVpnIP (phHeap m ! r) = ip) \<and>
     (\<forall>i r. indexMap m i = Some r \<longrightarrow> r < length (phHeap m) \<and> phLocalIndex (phHeap m ! r) = i \<and>
        pending m (phRemoteVpnIP (phHeap m ! r)) = Some r) \<and>
     (\<forall>ph \<in> set (phHeap m). ph_ok ph)"

lemma hsm_invD:
  assumes "hsm_inv m"
  shows "pending m ip = Some r \<Longrightarrow> r < length (phHeap m)"
    "pending m ip = Some r \<Longrightarrow> phRemoteVpnIP (phHeap m ! r) = ip"
    "pending m ip = Some r \<Longrightarrow> ph_ok (phHeap m ! r)"
    "indexMap m i = Some r \<Longrightarrow> r < length (phHeap m)"
    "indexMap m i = Some r \<Longrightarrow> phLocalIndex (phHeap m ! r) = i"
    "indexMap m i = Some r \<Longrightarrow> pending m (phRemoteVpnIP (phHeap m ! r)) = Some r"
  using assms by (auto simp: hsm_inv_def)

lemma hsm_inv_new [inv_keeps]: "hsm_inv (NewHandshakeManager c k pool)"
  by (simp add: hsm_inv_def NewHandshakeManager_def)

lemma hsm_inv_update:
  assumes "hsm_inv m" "phLocalIndex ph = phLocalIndex (phHeap m ! r)"
    "phRemoteVpnIP ph = phRemoteVpnIP (phHeap m ! r)" "ph_ok ph"
  shows "hsm_inv (m\<lparr>phHeap := (phHeap m)[r := ph]\<rparr>)"
proof (cases "r < length (phHeap m)")
  case True
  have "\<forall>x \<in> set ((phHeap m)[r := ph]). ph_ok x"
    using assms(1,4) set_update_subset_insert [of "phHeap m" r ph] by (auto simp: hsm_inv_def)
  with True assms show ?thesis
    unfolding hsm_inv_def by (auto simp: nth_list_update)
next
  case False
  with assms(1) show ?thesis by (simp add: list_update_beyond)
qed

lemma hsm_inv_drop:
  assumes "hsm_inv m" "pending m ip = Some r"
  shows "hsm_inv (m\<lparr>pending := (pending m)(ip := None),
    indexMap := (indexMap m)(phLocalIndex (phHeap m ! r) := None)\<rparr>)"
  using assms unfolding hsm_inv_def by (auto split: if_splits)

lemma hsm_inv_insert:
  assumes inv: "hsm_inv m" and ok: "ph_ok ph" and new: "pending m (phRemoteVpnIP ph) = None"
  shows "hsm_inv (m\<lparr>phHeap := phHeap m @ [ph],
    pending := (pending m)(phRemoteVpnIP ph \<mapsto> length (phHeap m)),
    indexMap := (indexMap m)(phLocalIndex ph \<mapsto> length (phHeap m))\<rparr>)" (is "hsm_inv ?m")
proof -
  have p: "r < length (phHeap ?m) \<and> phRemoteVpnIP (phHeap ?m ! r) = ip" if "pending ?m ip = Some r" for ip r
    using that hsm_invD(1,2) [OF inv] by (auto simp: nth_append less_Suc_eq split: if_splits)
  have q: "r < length (phHeap ?m) \<and> phLocalIndex (phHeap ?m ! r) = i \<and>
      pending ?m (phRemoteVpnIP (phHeap ?m ! r)) = Some r" if "indexMap ?m i = Some r" for i r
  proof (cases "i = phLocalIndex ph")
    case True
    with that show ?thesis by (auto simp: nth_append)
  next
    case False
    with that have "indexMap m i = Some r" by simp
    note d = hsm_invD(4,5,6) [OF inv this]
    with new have "phRemoteVpnIP (phHeap m ! r) \<noteq> phRemoteVpnIP ph" by auto
    with d show ?thesis by (simp add: nth_append)
  qed
  have "\<forall>x \<in> set (phHeap ?m). ph_ok x" using inv ok by (auto simp: hsm_inv_def)
  with p q show ?thesis unfolding hsm_inv_def by blast
qed

lemma hsm_inv_start [inv_keeps]:
  "hsm_inv m \<Longrightarrow> hsm_inv (fst (snd (StartHandshake E i ip addr c m)))"
proof -
  assume inv: "hsm_inv m"
  have "ph_ok \<lparr>phState = hs, phLocalIndex = idx, phRemoteVpnIP = ip, phRemoteAddr = addr,
      phPendingPackets = [], phAttempts = 1, phNextRetry = t, phStage0msg = w\<rparr>" for hs idx t w
    by (simp add: ph_ok_def maxHandshakeAttempts_def)
  from hsm_inv_insert [OF inv this] inv show ?thesis
    by (auto simp: StartHandshake_def Let_def split: sum.splits option.splits prod.splits)
qed

lemma HandleStage1_state:
  "snd (HandleStage1 E i pkt m) =
     (case Parse pkt of
        Inl _ \<Rightarrow> m
      | Inr h \<Rightarrow>
          (case indexMap m (hdrRemoteIndex h) of
             None \<Rightarrow> m
           | Some r \<Rightarrow> m\<lparr>pending := (pending m)(phRemoteVpnIP (phHeap m ! r) := None),
                         indexMap := (indexMap m)(hdrRemoteIndex h := None)\<rparr>))"
  by (auto simp: HandleStage1_def Let_def Parse_def split: sum.splits option.splits prod.splits)

lemma hsm_inv_stage1 [inv_keeps]: "hsm_inv m \<Longrightarrow> hsm_inv (snd (HandleStage1 E i pkt m))"
  unfolding HandleStage1_state
  by (auto split: sum.splits option.splits) (metis hsm_invD(5,6) hsm_inv_drop)

lemma hsm_inv_queue [inv_keeps]: "hsm_inv m \<Longrightarrow> hsm_inv (QueuePacket ip pkt m)"
  using hsm_invD(3) [of m ip]
  by (auto simp: QueuePacket_def Let_def ph_ok_def maxPendingPackets_def split: option.splits
      intro!: hsm_inv_update)

text \<open>
  What one tick does to one pending handshake, and the tick as a fold of that over the map.
\<close>

definition retryOne :: "int \<Rightarrow> 'hs pendingHandshake \<Rightarrow> 'hs pendingHandshake option" where
  "retryOne now ph =
     (if now < phNextRetry ph then Some ph
      else if phAttempts ph \<ge> maxHandshakeAttempts then None
      else Some (ph\<lparr>phAttempts := phAttempts ph + 1, phNextRetry := now + retryDelay (phAttempts ph + 1)\<rparr>))"

definition retryStep :: "int \<Rightarrow> Addr \<Rightarrow> 'hs HandshakeManager \<Rightarrow> 'hs HandshakeManager" where
  "retryStep now ip m =
     (case pending m ip of
        None \<Rightarrow> m
      | Some r \<Rightarrow>
          (case retryOne now (phHeap m ! r) of
             None \<Rightarrow> m\<lparr>pending := (pending m)(ip := None),
                       indexMap := (indexMap m)(phLocalIndex (phHeap m ! r) := None)\<rparr>
           | Some ph \<Rightarrow> m\<lparr>phHeap := (phHeap m)[r := ph]\<rparr>))"

lemma retryPending_fold: "fst (retryPending now order m) = fold (retryStep now) order m"
proof (induction order arbitrary: m)
  case (Cons ip order)
  then show ?case
    by (simp add: retryStep_def retryOne_def Let_def case_prod_unfold split: option.splits)
qed simp

lemma retryOne_keys:
  "retryOne now ph = Some ph' \<Longrightarrow> phLocalIndex ph' = phLocalIndex ph \<and> phRemoteVpnIP ph' = phRemoteVpnIP ph \<and>
     phStage0msg ph' = phStage0msg ph \<and> phRemoteAddr ph' = phRemoteAddr ph \<and>
     phPendingPackets ph' = phPendingPackets ph \<and> phState ph' = phState ph"
  by (auto simp: retryOne_def split: if_splits)

lemma retryOne_ok: "ph_ok ph \<Longrightarrow> retryOne now ph = Some ph' \<Longrightarrow> ph_ok ph'"
  by (auto simp: retryOne_def ph_ok_def split: if_splits)

lemma hsm_inv_retryStep [inv_keeps]: "hsm_inv m \<Longrightarrow> hsm_inv (retryStep now ip m)"
  using retryOne_keys retryOne_ok hsm_invD(3)
  by (auto simp: retryStep_def hsm_inv_drop split: option.splits intro!: hsm_inv_update) blast+

lemma hsm_inv_tick [inv_keeps]: "hsm_inv m \<Longrightarrow> hsm_inv (fst (retryPending now order m))"
  unfolding retryPending_fold by (induction order arbitrary: m) (simp_all add: hsm_inv_retryStep)

lemma hsm_reach_inv: "hsm_reach E m \<Longrightarrow> hsm_inv m"
  by (induction rule: hsm_reach.induct)
    (simp_all add: inv_keeps)

section \<open>The packet queue\<close>

lemma QueuePacket_hit:
  assumes "pending m ip = Some r" "r < length (phHeap m)" "length (phPendingPackets (phHeap m ! r)) \<le> 50"
  defines "q \<equiv> phPendingPackets (phHeap m ! r)"
  shows "QueuePacket ip pkt m =
    m\<lparr>phHeap := (phHeap m)[r := (phHeap m ! r)\<lparr>phPendingPackets := drop (length q + 1 - 50) (q @ [pkt])\<rparr>]\<rparr>"
proof -
  have "(if length q \<ge> 50 then drop 1 q else q) @ [pkt] = drop (length q + 1 - 50) (q @ [pkt])"
    using assms(3) by (auto simp: q_def)
  then show ?thesis
    by (simp only: QueuePacket_def assms(1) option.case Let_def maxPendingPackets_def q_def)
qed

lemma QueuePacket_fold:
  assumes "pending m ip = Some r" "r < length (phHeap m)" "length (phPendingPackets (phHeap m ! r)) \<le> 50"
  shows "fold (QueuePacket ip) pkts m =
    m\<lparr>phHeap := (phHeap m)[r := (phHeap m ! r)\<lparr>phPendingPackets :=
      drop (length (phPendingPackets (phHeap m ! r)) + length pkts - 50) (phPendingPackets (phHeap m ! r) @ pkts)\<rparr>]\<rparr>"
  using assms
proof (induction pkts arbitrary: m)
  case Nil
  then show ?case by simp
next
  case (Cons pkt pkts)
  let ?q = "phPendingPackets (phHeap m ! r)"
  let ?q' = "drop (length ?q + 1 - 50) (?q @ [pkt])"
  let ?m = "m\<lparr>phHeap := (phHeap m)[r := (phHeap m ! r)\<lparr>phPendingPackets := ?q'\<rparr>]\<rparr>"
  have e: "drop (length ?q' + length pkts - 50) (?q' @ pkts) =
      drop (length ?q + length (pkt # pkts) - 50) (?q @ pkt # pkts)"
  proof (cases "length ?q = 50")
    case True
    then have "?q' @ pkts = drop 1 (?q @ pkt # pkts)" "length ?q' = 50" by auto
    then show ?thesis using True by (simp add: drop_drop)
  next
    case False
    with Cons.prems(3) show ?thesis by simp
  qed
  have "fold (QueuePacket ip) (pkt # pkts) m = fold (QueuePacket ip) pkts ?m"
    using QueuePacket_hit [OF Cons.prems, of pkt] by simp
  also have "\<dots> = ?m\<lparr>phHeap := (phHeap ?m)[r := (phHeap ?m ! r)\<lparr>phPendingPackets :=
      drop (length ?q' + length pkts - 50) (?q' @ pkts)\<rparr>]\<rparr>"
    using Cons.IH [of ?m] Cons.prems by simp
  finally show ?case unfolding e using Cons.prems(2) by simp
qed

section \<open>The retry timer\<close>

lemma retryStep_other:
  assumes "hsm_inv m" "a \<noteq> ip" "pending m ip = Some r"
  shows "pending (retryStep now a m) ip = Some r \<and> phHeap (retryStep now a m) ! r = phHeap m ! r"
proof (cases "pending m a")
  case (Some s)
  then have "s \<noteq> r" using hsm_invD(2) [OF assms(1)] assms(2,3) by metis
  with assms Some show ?thesis by (auto simp: retryStep_def split: option.splits)
qed (simp add: retryStep_def assms)

lemma retryStep_none: "pending m ip = None \<Longrightarrow> pending (retryStep now a m) ip = None"
  by (auto simp: retryStep_def split: option.splits)

lemma retryFold_other:
  "hsm_inv m \<Longrightarrow> ip \<notin> set order \<Longrightarrow> pending m ip = Some r \<Longrightarrow>
     pending (fold (retryStep now) order m) ip = Some r \<and>
     phHeap (fold (retryStep now) order m) ! r = phHeap m ! r"
proof (induction order arbitrary: m)
  case (Cons a order)
  then have "a \<noteq> ip" by auto
  from retryStep_other [OF Cons.prems(1) this Cons.prems(3)] Cons show ?case
    by (simp add: hsm_inv_retryStep)
qed simp

lemma retryFold_none: "pending m ip = None \<Longrightarrow> pending (fold (retryStep now) order m) ip = None"
  by (induction order arbitrary: m) (simp_all add: retryStep_none)

definition after_tick :: "'hs HandshakeManager \<Rightarrow> Addr \<Rightarrow> phref \<Rightarrow> 'hs pendingHandshake option \<Rightarrow> bool" where
  "after_tick m ip r o' \<longleftrightarrow>
     (case o' of None \<Rightarrow> pending m ip = None | Some ph \<Rightarrow> pending m ip = Some r \<and> phHeap m ! r = ph)"

lemma retryPending_target:
  assumes "hsm_inv m" "distinct order" "ip \<in> set order" "pending m ip = Some r"
  shows "after_tick (fst (retryPending now order m)) ip r (retryOne now (phHeap m ! r))"
proof -
  from assms(2,3) obtain xs ys where o: "order = xs @ ip # ys" "ip \<notin> set xs" "ip \<notin> set ys"
    by (metis distinct.simps(2) distinct_append split_list_first)
  let ?m = "fold (retryStep now) xs m"
  have inv: "hsm_inv ?m" using hsm_inv_tick [OF assms(1)] by (simp add: retryPending_fold)
  have p: "pending ?m ip = Some r" "phHeap ?m ! r = phHeap m ! r"
    using retryFold_other [OF assms(1) o(2) assms(4)] by auto
  note l = hsm_invD(1) [OF inv p(1)]
  show ?thesis
  proof (cases "retryOne now (phHeap m ! r)")
    case None
    with p have "pending (retryStep now ip ?m) ip = None" by (simp add: retryStep_def)
    with None show ?thesis by (simp add: after_tick_def retryPending_fold o retryFold_none)
  next
    case (Some ph)
    with p l have "pending (retryStep now ip ?m) ip = Some r" "phHeap (retryStep now ip ?m) ! r = ph"
      by (simp_all add: retryStep_def)
    with Some retryFold_other [OF hsm_inv_retryStep [OF inv] o(3), of now ip r] show ?thesis
      by (simp add: after_tick_def retryPending_fold o)
  qed
qed

text \<open>Ticks given as the tick's time and the iteration order of the map at that time.\<close>

definition run_ticks :: "(int \<times> Addr list) list \<Rightarrow> 'hs HandshakeManager \<Rightarrow> 'hs HandshakeManager" where
  "run_ticks ticks m = fold (\<lambda>(now, order) m. fst (retryPending now order m)) ticks m"

text \<open>Every tick comes when the handshake toward \<open>ip\<close> is due, and visits it once.\<close>

fun all_due :: "Addr \<Rightarrow> (int \<times> Addr list) list \<Rightarrow> 'hs pendingHandshake \<Rightarrow> bool" where
  "all_due ip [] ph = True"
| "all_due ip ((now, order) # ticks) ph \<longleftrightarrow>
     phNextRetry ph \<le> now \<and> distinct order \<and> ip \<in> set order \<and>
     (case retryOne now ph of None \<Rightarrow> True | Some ph \<Rightarrow> all_due ip ticks ph)"

lemma run_ticks_due:
  assumes "hsm_inv m" "pending m ip = Some r" "all_due ip ticks (phHeap m ! r)"
    and "int (length ticks) = maxHandshakeAttempts - phAttempts (phHeap m ! r) + 1"
  shows "pending (run_ticks ticks m) ip = None \<and> pending (run_ticks (butlast ticks) m) ip = Some r \<and>
    phAttempts (phHeap (run_ticks (butlast ticks) m) ! r) = maxHandshakeAttempts"
  using assms
proof (induction ticks arbitrary: m)
  case Nil
  then show ?case using hsm_invD(3) [OF Nil(1,2)] by (simp add: ph_ok_def)
next
  case (Cons t ticks)
  obtain now order where t: "t = (now, order)" by (cases t)
  let ?m = "fst (retryPending now order m)"
  let ?ph = "phHeap m ! r"
  from Cons.prems t have due: "phNextRetry ?ph \<le> now" "distinct order" "ip \<in> set order" by auto
  note tk = retryPending_target [OF Cons.prems(1) due(2,3) Cons.prems(2), of now]
  show ?case
  proof (cases "ticks = []")
    case True
    with Cons.prems(4) have "phAttempts ?ph = maxHandshakeAttempts" by simp
    with due tk Cons.prems(2) True t show ?thesis
      by (simp add: run_ticks_def retryOne_def after_tick_def)
  next
    case False
    then have "0 < length ticks" by simp
    then have "phAttempts ?ph < maxHandshakeAttempts" using Cons.prems(4) by (simp del: length_greater_0_conv)
    with due have o: "retryOne now ?ph = Some (?ph\<lparr>phAttempts := phAttempts ?ph + 1,
        phNextRetry := now + retryDelay (phAttempts ?ph + 1)\<rparr>)"
      by (simp add: retryOne_def)
    with tk have a: "pending ?m ip = Some r" "retryOne now ?ph = Some (phHeap ?m ! r)"
      by (simp_all add: after_tick_def)
    have "all_due ip ticks (phHeap ?m ! r)" using Cons.prems(3) t a(2) by simp
    moreover have "phAttempts (phHeap ?m ! r) = phAttempts ?ph + 1"
      using tk o by (simp add: after_tick_def)
    then have "int (length ticks) = maxHandshakeAttempts - phAttempts (phHeap ?m ! r) + 1"
      using Cons.prems(4) by simp
    ultimately show ?thesis
      using Cons.IH [OF hsm_inv_tick [OF Cons.prems(1)] a(1)] False t by (simp add: run_ticks_def)
  qed
qed

section \<open>Two managers completing a handshake\<close>

lemma marshalHandshakePacket_Inr:
  assumes "marshalHandshakePacket P msg ri st = Inr pkt"
  obtains body where "marshalHandshake P msg = Some body" "drop HeaderLen pkt = body" "HeaderLen \<le> length pkt"
    "Parse pkt = Inr \<lparr>hdrVersion = Version, hdrType = TypeHandshake, hdrSubType = st, hdrRemoteIndex = ri,
       hdrMessageCounter = 0\<rparr>"
proof -
  let ?h = "\<lparr>hdrVersion = Version, hdrType = TypeHandshake, hdrSubType = st, hdrRemoteIndex = ri,
    hdrMessageCounter = 0\<rparr>"
  from assms obtain body where b: "marshalHandshake P msg = Some body" "pkt = Bytes ?h @ body"
    by (auto simp: marshalHandshakePacket_def Let_def split: option.splits)
  have "wire_header ?h" by (simp add: wire_header_def TypeHandshake_def)
  with b that show ?thesis by (simp add: hdr.frame_body hdr.dec_enc) (simp add: HeaderLen_def)
qed

text \<open>Two sessions are the two ends of one tunnel.\<close>

definition session_pair :: "HostInfo \<Rightarrow> HostInfo \<Rightarrow> bool" where
  "session_pair a b \<longleftrightarrow> hSendCipher a = hRecvCipher b \<and> hRecvCipher a = hSendCipher b \<and>
     hRemoteIndex a = hIndex b \<and> hRemoteIndex b = hIndex a \<and>
     aesKey (hSendCipher a) \<and> aesKey (hRecvCipher a)"

lemma ciphers_crossed:
  assumes "length (UnsafeKey N cs1) = 32" "length (UnsafeKey N cs2) = 32"
  shows "ciphersFromStates N (Some (cs1, cs2)) True = Inr (UnsafeKey N cs1, UnsafeKey N cs2)"
    "ciphersFromStates N (Some (cs1, cs2)) False = Inr (UnsafeKey N cs2, UnsafeKey N cs1)"
  using assms by (simp_all add: ciphersFromStates_def CipherFromState_def aesKey_def)

text \<open>What the three calls need of the two nodes and their libraries.\<close>

definition peers_agree ::
  "('hs, 'cs) libs \<Rightarrow> 'hs HandshakeManager \<Rightarrow> 'hs HandshakeManager \<Rightarrow> bool" where
  "peers_agree E mA mB \<longleftrightarrow>
     proto_inverse (libP E) \<and> proto_total (libP E) \<and> pem_inverse (libL E) \<and>
     (\<exists>derA. parseDER (libL E) derA = Inr (localCert mA)) \<and>
     (\<exists>derB. parseDER (libL E) derB = Inr (localCert mB)) \<and>
     IK_completes (libN E) (localKey mA) (localKey mB) (DerivePreSharedKey (localCert mA) (localCert mB)) \<and>
     X25519PublicKey (localCert mB) = dhPublic (localKey mB)"

lemma StartHandshake_ok:
  assumes "pending m ip = None" "inRand i = Some b"
    and "NewHandshakeState (libN E) (initiatorConfig (localKey m) (X25519PublicKey c)
          (DerivePreSharedKey (localCert m) c)) = Some hs"
    and "WriteMessage (libN E) (inEntropy i) hs = Some (n, s, hs')"
    and "buildHandshakePacket (libP E) (libL E) (inStamp i) (localCert m) n (get_le b) HandshakeInitiation = Inr w"
    and "inSendOk i w addr"
  shows "StartHandshake E i ip addr c m =
    (Inr (), m\<lparr>phHeap := phHeap m @ [\<lparr>phState = hs', phLocalIndex = get_le b, phRemoteVpnIP = ip,
        phRemoteAddr = addr, phPendingPackets = [], phAttempts = 1, phNextRetry = inNow i + retryBase,
        phStage0msg = w\<rparr>],
      pending := (pending m)(ip \<mapsto> length (phHeap m)),
      indexMap := (indexMap m)(get_le b \<mapsto> length (phHeap m))\<rparr>, [(w, addr)])"
  using assms by (simp add: StartHandshake_def randomIndex_def NewInitiatorState_def Let_def)

text \<open>A packet that carries a node's certificate, a Noise message and the two indices past all checks.\<close>

definition carries ::
  "('hs, 'cs) libs \<Rightarrow> bytes \<Rightarrow> byte \<Rightarrow> u32 \<Rightarrow> Certificate \<Rightarrow> bytes \<Rightarrow> u32 \<Rightarrow> u32 \<Rightarrow> bool" where
  "carries E pkt st ri c n i r \<longleftrightarrow> HeaderLen \<le> length pkt \<and>
     Parse pkt = Inr \<lparr>hdrVersion = Version, hdrType = TypeHandshake, hdrSubType = st, hdrRemoteIndex = ri,
       hdrMessageCounter = 0\<rparr> \<and>
     (\<exists>msg d. dInitiatorIndex d = i \<and> dResponderIndex d = r \<and> mNoisePayload msg = n \<and>
       (\<forall>pool now. Verify (libL E) c pool now = Inr () \<longrightarrow>
         openEnvelope E pool now (drop HeaderLen pkt) = Inr (msg, d, c)))"

lemma carries_built:
  assumes "proto_inverse (libP E)" "proto_total (libP E)" "envelope_of (libP E) (libL E) msg c n i r"
  shows "\<exists>pkt. marshalHandshakePacket (libP E) msg ri st = Inr pkt \<and> carries E pkt st ri c n i r"
proof -
  obtain raw where "marshalHandshake (libP E) msg = Some raw"
    using assms(2) by (auto simp: proto_total_def)
  then obtain pkt where p: "marshalHandshakePacket (libP E) msg ri st = Inr pkt"
    by (simp add: marshalHandshakePacket_def)
  obtain body where b: "marshalHandshake (libP E) msg = Some body" "drop HeaderLen pkt = body"
    "HeaderLen \<le> length pkt"
    "Parse pkt = Inr \<lparr>hdrVersion = Version, hdrType = TypeHandshake, hdrSubType = st, hdrRemoteIndex = ri,
       hdrMessageCounter = 0\<rparr>"
    using marshalHandshakePacket_Inr [OF p] by blast
  from assms(3) obtain d where "ParseDetails (libP E) msg = Inr d" "ParseCert (libL E) (dCert d) = Inr c"
    "dInitiatorIndex d = i" "dResponderIndex d = r" "VerifyHMAC msg c = Inr ()" "mNoisePayload msg = n"
    by (auto simp: envelope_of_def)
  with b p proto_inverseD(2) [OF assms(1) b(1)] show ?thesis
    unfolding carries_def by (auto simp: openEnvelope_def ParseHandshakeMessage_def)
qed

lemma carries_initiator:
  assumes "proto_inverse (libP E)" "proto_total (libP E)" "ParseCert (libL E) (PEM (libL E) c) = Inr c"
  shows "\<exists>pkt. buildHandshakePacket (libP E) (libL E) now c n i st = Inr pkt \<and> carries E pkt st 0 c n i 0"
proof -
  obtain raw where "marshalDetails (libP E) \<lparr>dCert = PEM (libL E) c, dInitiatorIndex = i,
      dResponderIndex = 0, dTime = word_of_int now\<rparr> = Some raw"
    using assms(2) by (auto simp: proto_total_def)
  then obtain msg where m: "BuildInitiatorMessage (libP E) (libL E) now c n i = Inr msg"
    by (simp add: BuildInitiatorMessage_def)
  from carries_built [OF assms(1,2) envelope_initiator [OF assms(1,3) m]] m show ?thesis
    by (simp add: buildHandshakePacket_def)
qed

lemma carries_responder:
  assumes "proto_inverse (libP E)" "proto_total (libP E)" "ParseCert (libL E) (PEM (libL E) c) = Inr c"
  shows "\<exists>msg pkt. BuildResponderMessage (libP E) (libL E) now c n i r = Inr msg \<and>
    marshalHandshakePacket (libP E) msg i st = Inr pkt \<and> carries E pkt st i c n i r"
proof -
  obtain raw where "marshalDetails (libP E) \<lparr>dCert = PEM (libL E) c, dInitiatorIndex = i,
      dResponderIndex = r, dTime = word_of_int now\<rparr> = Some raw"
    using assms(2) by (auto simp: proto_total_def)
  then obtain msg where m: "BuildResponderMessage (libP E) (libL E) now c n i r = Inr msg"
    by (simp add: BuildResponderMessage_def)
  from carries_built [OF assms(1,2) envelope_responder [OF assms(1,3) m]] m show ?thesis by blast
qed

lemma HandleStage0_carries:
  assumes "carries E pkt st ri c n i r" "Verify (libL E) c (caPool m) (inNow inp) = Inr ()"
    and "NewHandshakeState (libN E) (responderConfig (localKey m) (DerivePreSharedKey (localCert m) c)) = Some hs"
    and "ReadMessage (libN E) n hs = Some (s0, hs')"
    and "inRand inp = Some b" "WriteMessage (libN E) (inEntropy inp) hs' = Some (n', s, hs'')"
    and "BuildResponderMessage (libP E) (libL E) (inStamp inp) (localCert m) n' i (get_le b) = Inr rm"
    and "marshalHandshakePacket (libP E) rm i HandshakeResponse = Inr w"
    and "inSendOk inp w src" "ciphersFromStates (libN E) s False = Inr (sc, rc)"
  shows "HandleStage0 E inp pkt src m =
    (Inr (newHost (pfxAddr (VpnIP c)) src (get_le b) i sc rc c, []), [(w, src)])"
  using assms by (auto simp: carries_def HandleStage0_def randomIndex_def NewResponderState_def Let_def)

lemma HandleStage1_carries:
  assumes "carries E pkt st ri c n i r" "Verify (libL E) c (caPool m) (inNow inp) = Inr ()"
    and "indexMap m ri = Some p" "ReadMessage (libN E) n (phState (phHeap m ! p)) = Some (s, hs)"
    and "ciphersFromStates (libN E) s True = Inr (sc, rc)"
  shows "fst (HandleStage1 E inp pkt m) =
    Inr (newHost (phRemoteVpnIP (phHeap m ! p)) (phRemoteAddr (phHeap m ! p)) (phLocalIndex (phHeap m ! p))
      r sc rc c, phPendingPackets (phHeap m ! p))"
  using assms by (auto simp: carries_def HandleStage1_def Let_def)

definition handshake_datagram :: "byte \<Rightarrow> bytes \<Rightarrow> bool" where
  "handshake_datagram st pkt \<longleftrightarrow> (\<exists>h. Parse pkt = Inr h \<and> hdrType h = TypeHandshake \<and> hdrSubType h = st)"

lemma carries_datagram: "carries E pkt st ri c n i r \<Longrightarrow> handshake_datagram st pkt"
  by (auto simp: carries_def handshake_datagram_def)

lemma queued_index:
  assumes "indexMap m i = Some p" "pending m ip = Some p" "p < length (phHeap m)"
    "phPendingPackets (phHeap m ! p) = []"
  shows "indexMap (fold (QueuePacket ip) pkts m) i = Some p"
    "phHeap (fold (QueuePacket ip) pkts m) ! p =
      (phHeap m ! p)\<lparr>phPendingPackets := drop (length pkts - 50) pkts\<rparr>"
    "caPool (fold (QueuePacket ip) pkts m) = caPool m"
  using assms by (simp_all add: QueuePacket_fold)

lemma handshake_run:
  assumes ag: "peers_agree E mA mB"
    and ver: "Verify (libL E) (localCert mA) (caPool mB) (inNow iB) = Inr ()"
      "Verify (libL E) (localCert mB) (caPool mA) (inNow iA') = Inr ()"
    and fresh: "pending mA ipB = None" and rnd: "inRand iA = Some ra" "inRand iB = Some rb"
    and snd: "\<And>p a. inSendOk iA p a" "\<And>p a. inSendOk iB p a"
  shows "\<exists>p0 p1 mA' k1 k2. aesKey k1 \<and> aesKey k2 \<and> pending mA' ipB \<noteq> None \<and>
    handshake_datagram HandshakeInitiation p0 \<and> handshake_datagram HandshakeResponse p1 \<and>
    StartHandshake E iA ipB addrB (localCert mB) mA = (Inr (), mA', [(p0, addrB)]) \<and>
    HandleStage0 E iB p0 addrA mB =
      (Inr (newHost (pfxAddr (VpnIP (localCert mA))) addrA (get_le rb) (get_le ra) k2 k1 (localCert mA), []),
       [(p1, addrA)]) \<and>
    fst (HandleStage1 E iA' p1 (fold (QueuePacket ipB) pkts mA')) =
      Inr (newHost ipB addrB (get_le ra) (get_le rb) k1 k2 (localCert mB), drop (length pkts - 50) pkts)"
proof -
  let ?L = "libL E" and ?N = "libN E" and ?cA = "localCert mA" and ?cB = "localCert mB"
  let ?psk = "DerivePreSharedKey ?cA ?cB"
  from ag have P: "proto_inverse (libP E)" "proto_total (libP E)"
    and L: "ParseCert ?L (PEM ?L ?cA) = Inr ?cA" "ParseCert ?L (PEM ?L ?cB) = Inr ?cB"
    and IK: "IK_completes ?N (localKey mA) (localKey mB) ?psk"
    and k: "X25519PublicKey ?cB = dhPublic (localKey mB)"
    by (auto simp: peers_agree_def dest: PEM_roundtrip)
  obtain hi hr n0 hi' hr' n1 cs1 cs2 hr'' hi'' where
    N: "NewHandshakeState ?N (initiatorConfig (localKey mA) (dhPublic (localKey mB)) ?psk) = Some hi"
      "NewHandshakeState ?N (responderConfig (localKey mB) ?psk) = Some hr"
      "WriteMessage ?N (inEntropy iA) hi = Some (n0, None, hi')" "ReadMessage ?N n0 hr = Some (None, hr')"
      "WriteMessage ?N (inEntropy iB) hr' = Some (n1, Some (cs1, cs2), hr'')"
      "ReadMessage ?N n1 hi' = Some (Some (cs1, cs2), hi'')"
    and keys: "length (UnsafeKey ?N cs1) = 32" "length (UnsafeKey ?N cs2) = 32"
    by (rule IK_completesE [OF IK])
  obtain p0 where p0: "buildHandshakePacket (libP E) ?L (inStamp iA) ?cA n0 (get_le ra) HandshakeInitiation = Inr p0"
    "carries E p0 HandshakeInitiation 0 ?cA n0 (get_le ra) 0"
    using carries_initiator [OF P L(1)] by blast
  obtain m1 p1 where p1: "BuildResponderMessage (libP E) ?L (inStamp iB) ?cB n1 (get_le ra) (get_le rb) = Inr m1"
    "marshalHandshakePacket (libP E) m1 (get_le ra) HandshakeResponse = Inr p1"
    "carries E p1 HandshakeResponse (get_le ra) ?cB n1 (get_le ra) (get_le rb)"
    using carries_responder [OF P L(2)] by blast
  have psk: "DerivePreSharedKey ?cB ?cA = ?psk"
    by (simp add: DerivePreSharedKey_def Let_def xor.commute)
  note stage0 = HandleStage0_carries [where src = addrA, OF p0(2) ver(1) N(2) [folded psk] N(4) rnd(2) N(5) p1(1,2)
    snd(2) ciphers_crossed(2) [OF keys]]
  note start = StartHandshake_ok [where addr = addrB and c = ?cB and E = E, OF fresh rnd(1) N(1) [folded k] N(3) p0(1) snd(1)]
  let ?mA = "fst (Product_Type.snd (StartHandshake E iA ipB addrB ?cB mA))"
  let ?r = "length (phHeap mA)"
  have m: "indexMap ?mA (get_le ra) = Some ?r" "pending ?mA ipB = Some ?r" "?r < length (phHeap ?mA)"
    "phPendingPackets (phHeap ?mA ! ?r) = []" "caPool ?mA = caPool mA" "phState (phHeap ?mA ! ?r) = hi'"
    "phRemoteVpnIP (phHeap ?mA ! ?r) = ipB" "phRemoteAddr (phHeap ?mA ! ?r) = addrB"
    "phLocalIndex (phHeap ?mA ! ?r) = get_le ra"
    by (simp_all add: start)
  note q = queued_index [OF m(1-4), of pkts]
  have "fst (HandleStage1 E iA' p1 (fold (QueuePacket ipB) pkts ?mA)) =
      Inr (newHost ipB addrB (get_le ra) (get_le rb) (UnsafeKey ?N cs1) (UnsafeKey ?N cs2) ?cB,
        drop (length pkts - 50) pkts)"
    using HandleStage1_carries [OF p1(3) _ q(1) _ ciphers_crossed(1) [OF keys], of iA'] ver(2) N(6)
    by (simp add: q m)
  moreover have "StartHandshake E iA ipB addrB ?cB mA = (Inr (), ?mA, [(p0, addrB)])"
    by (simp add: start)
  moreover have "aesKey (UnsafeKey ?N cs1)" "aesKey (UnsafeKey ?N cs2)"
    using keys by (simp_all add: aesKey_def)
  moreover note carries_datagram [OF p0(2)] carries_datagram [OF p1(3)]
  moreover have "pending ?mA ipB \<noteq> None" using m(2) by simp
  ultimately show ?thesis using stage0 by blast
qed

section \<open>What a completed handshake has checked\<close>

lemma openEnvelope_Inr:
  assumes "openEnvelope E pool now raw = Inr (msg, d, c)"
  shows "Verify (libL E) c pool now = Inr ()" "VerifyHMAC msg c = Inr ()" "ParseCert (libL E) (dCert d) = Inr c"
  using assms by (auto simp: openEnvelope_def split: sum.splits)

lemma ciphersFromStates_Inr: "ciphersFromStates N s b = Inr (sc, rc) \<Longrightarrow> aesKey sc \<and> aesKey rc"
  by (auto simp: ciphersFromStates_def CipherFromState_def Let_def split: option.splits sum.splits if_splits)

lemma HandleStage0_Inr:
  assumes "HandleStage0 E i pkt src m = (Inr (h, q), out)"
  shows "q = [] \<and> (\<exists>c b sc rc ri w. Verify (libL E) c (caPool m) (inNow i) = Inr () \<and> out = [(w, src)] \<and>
    h = newHost (pfxAddr (VpnIP c)) src (get_le b) ri sc rc c \<and> inRand i = Some b \<and> aesKey sc \<and> aesKey rc)"
  using assms
  by (auto simp: HandleStage0_def Let_def randomIndex_def split: res_splits
      dest: openEnvelope_Inr(1) ciphersFromStates_Inr)

lemma HandleStage1_Inr:
  assumes "fst (HandleStage1 E i pkt m) = Inr (h, q)"
  shows "\<exists>hdr r c sc rc ri. Parse pkt = Inr hdr \<and> indexMap m (hdrRemoteIndex hdr) = Some r \<and>
    Verify (libL E) c (caPool m) (inNow i) = Inr () \<and> q = phPendingPackets (phHeap m ! r) \<and>
    h = newHost (phRemoteVpnIP (phHeap m ! r)) (phRemoteAddr (phHeap m ! r)) (phLocalIndex (phHeap m ! r)) ri sc rc c \<and>
    aesKey sc \<and> aesKey rc"
  using assms
  by (auto simp: HandleStage1_def Let_def split: res_splits
      dest: openEnvelope_Inr(1) ciphersFromStates_Inr)

section \<open>A sample pair of nodes\<close>

definition sample_libs :: "(nat, byte) libs" where
  "sample_libs = \<lparr>libP = sample_proto (\<lambda>_. \<lparr>Body = None\<rparr>), libL = sample_lib, libN = sample_noise\<rparr>"

definition sample_manager :: "byte \<Rightarrow> nat HandshakeManager" where
  "sample_manager k = NewHandshakeManager (sample_cert k) \<lparr>dhPrivate = [], dhPublic = replicate 32 k\<rparr> [sample_cert 3]"

definition sample_input :: "byte \<Rightarrow> input" where
  "sample_input b = \<lparr>inNow = 10, inStamp = 10, inRand = Some [b, 0, 0, 0], inEntropy = [], inSendOk = (\<lambda>_ _. True)\<rparr>"

lemma sample_agree: "peers_agree sample_libs (sample_manager 1) (sample_manager 2)"
  using sample_proto_inverse sample_proto_total sample_pem sample_certs sample_IK
  by (auto simp: peers_agree_def sample_libs_def sample_manager_def NewHandshakeManager_def)
    (simp add: sample_cert_def)

lemma sample_verify: "k \<noteq> 3 \<Longrightarrow> Verify sample_lib (sample_cert k) [sample_cert 3] 10 = Inr ()"
  by (simp add: Verify_def IsCA_def sample_cert_def sample_lib_def)

lemma sample_manager_sel [simp]:
  "localCert (sample_manager k) = sample_cert k" "caPool (sample_manager k) = [sample_cert 3]"
  "pending (sample_manager k) = Map.empty" "libL sample_libs = sample_lib"
  "inRand (sample_input b) = Some [b, 0, 0, 0]" "inNow (sample_input b) = 10" "inSendOk (sample_input b) p a"
  by (simp_all add: sample_manager_def NewHandshakeManager_def sample_libs_def sample_input_def)

text \<open>The first node of the pair after it has started a handshake toward the second.\<close>

definition sample_started :: "nat HandshakeManager" where
  "sample_started = fst (snd (StartHandshake sample_libs (sample_input 7) (Addr4 2) \<lparr>udpIP = [], udpPort = 1\<rparr>
     (sample_cert 2) (sample_manager 1)))"

lemma sample_started_reach: "hsm_reach sample_libs sample_started"
  unfolding sample_started_def sample_manager_def by (intro hsm_start hsm_new)

lemma sample_started_pending: "pending sample_started (Addr4 2) = Some 0" "indexMap sample_started 7 = Some 0"
  "phAttempts (phHeap sample_started ! 0) = 1" "phNextRetry (phHeap sample_started ! 0) = 500000010"
  "phRemoteVpnIP (phHeap sample_started ! 0) = Addr4 2"
proof -
  obtain w where "buildHandshakePacket (libP sample_libs) (libL sample_libs) 10 (sample_cert 1) [5]
      (get_le [7, 0, 0, 0]) HandshakeInitiation = Inr w"
    by (simp add: buildHandshakePacket_def BuildInitiatorMessage_def marshalHandshakePacket_def sample_libs_def sample_proto_def)
  moreover have "get_le [7, 0, 0, 0] = (7 :: u32)" by (simp add: get_le_def get_be_def)
  ultimately show "pending sample_started (Addr4 2) = Some 0" "indexMap sample_started 7 = Some 0"
    "phAttempts (phHeap sample_started ! 0) = 1" "phNextRetry (phHeap sample_started ! 0) = 500000010"
    "phRemoteVpnIP (phHeap sample_started ! 0) = Addr4 2"
    by (simp_all add: sample_started_def StartHandshake_def randomIndex_def NewInitiatorState_def sample_libs_def
        sample_noise_def initiatorConfig_def sample_input_def sample_manager_def NewHandshakeManager_def Let_def
        retryBase_def millisecond_def)
qed

section \<open>Properties\<close>

text \<open>
  C2: two nodes with certificates from each other's CA complete the exchange.  The initiator's
  packet makes the responder create a session and answer; the answer makes the initiator create
  the matching session, with send and receive keys crossed and each end holding the index the other
  chose; and of the packets queued meanwhile the newest fifty are handed over, in order.
\<close>
theorem handshake_completes:
  assumes "peers_agree E mA mB"
    and "Verify (libL E) (localCert mA) (caPool mB) (inNow iB) = Inr ()"
    and "Verify (libL E) (localCert mB) (caPool mA) (inNow iA') = Inr ()"
    and "pending mA ipB = None" "inRand iA = Some ra" "inRand iB = Some rb"
    and "\<And>p a. inSendOk iA p a" "\<And>p a. inSendOk iB p a"
  shows "\<exists>p0 p1 mA' hA hB.
    StartHandshake E iA ipB addrB (localCert mB) mA = (Inr (), mA', [(p0, addrB)]) \<and>
    HandleStage0 E iB p0 addrA mB = (Inr (hB, []), [(p1, addrA)]) \<and>
    fst (HandleStage1 E iA' p1 (fold (QueuePacket ipB) pkts mA')) = Inr (hA, drop (length pkts - 50) pkts) \<and>
    session_pair hA hB \<and> hVpnIP hA = ipB \<and> hRemote hA = addrB \<and>
    hVpnIP hB = pfxAddr (VpnIP (localCert mA)) \<and> hRemote hB = addrA \<and>
    hCert hA = Some (localCert mB) \<and> hCert hB = Some (localCert mA)"
proof -
  from handshake_run [OF assms, of addrB addrA pkts] obtain p0 p1 mA' k1 k2 where
    k: "aesKey k1" "aesKey k2" and
    r: "StartHandshake E iA ipB addrB (localCert mB) mA = (Inr (), mA', [(p0, addrB)])"
      "HandleStage0 E iB p0 addrA mB =
        (Inr (newHost (pfxAddr (VpnIP (localCert mA))) addrA (get_le rb) (get_le ra) k2 k1 (localCert mA), []),
         [(p1, addrA)])"
      "fst (HandleStage1 E iA' p1 (fold (QueuePacket ipB) pkts mA')) =
        Inr (newHost ipB addrB (get_le ra) (get_le rb) k1 k2 (localCert mB), drop (length pkts - 50) pkts)"
    by blast
  show ?thesis
    by (intro exI conjI, rule r(1), rule r(2), rule r(3)) (use k in \<open>simp_all add: session_pair_def newHost_def\<close>)
qed

theorem handshake_completes_witness:
  "\<exists>p0 p1 mA' hA hB.
    StartHandshake sample_libs (sample_input 7) (Addr4 2) \<lparr>udpIP = [], udpPort = 1\<rparr> (sample_cert 2)
      (sample_manager 1) = (Inr (), mA', [(p0, \<lparr>udpIP = [], udpPort = 1\<rparr>)]) \<and>
    HandleStage0 sample_libs (sample_input 8) p0 \<lparr>udpIP = [], udpPort = 2\<rparr> (sample_manager 2) =
      (Inr (hB, []), [(p1, \<lparr>udpIP = [], udpPort = 2\<rparr>)]) \<and>
    fst (HandleStage1 sample_libs (sample_input 9) p1 (fold (QueuePacket (Addr4 2)) [[1], [2]] mA')) =
      Inr (hA, [[1], [2]]) \<and> session_pair hA hB"
  using handshake_completes [OF sample_agree, where iA = "sample_input 7" and iB = "sample_input 8"
      and iA' = "sample_input 9" and ipB = "Addr4 2" and addrB = "\<lparr>udpIP = [], udpPort = 1\<rparr>"
      and addrA = "\<lparr>udpIP = [], udpPort = 2\<rparr>" and pkts = "[[1], [2]]"]
  by (simp add: sample_verify) blast

text \<open>
  C7: a session is only ever created for a peer whose certificate is a non-CA certificate valid
  under the node's CA pool at that moment.  As a responder its VPN address is the one in that
  certificate; as an initiator it is the address the handshake was started for, and the handshake
  is the one pending under the index in the packet.
\<close>
theorem session_needs_valid_certificate:
  "(HandleStage0 E i pkt src m = (Inr (h, q), out) \<longrightarrow>
     (\<exists>c. hCert h = Some c \<and> \<not> IsCA c \<and> x509_Verify (libL E) (certX509 c) (map certX509 (caPool m)) (inNow i) \<and>
        hVpnIP h = pfxAddr (VpnIP c) \<and> hRemote h = src \<and> hCounter h = 0 \<and> windowEnd h = 0 \<and> q = [])) \<and>
   (fst (HandleStage1 E i pkt m) = Inr (h, q) \<longrightarrow>
     (\<exists>c hdr r. hCert h = Some c \<and> \<not> IsCA c \<and>
        x509_Verify (libL E) (certX509 c) (map certX509 (caPool m)) (inNow i) \<and>
        Parse pkt = Inr hdr \<and> indexMap m (hdrRemoteIndex hdr) = Some r \<and>
        hVpnIP h = phRemoteVpnIP (phHeap m ! r) \<and> hCounter h = 0 \<and> windowEnd h = 0 \<and>
        q = phPendingPackets (phHeap m ! r)))"
proof -
  have v: "\<not> IsCA c \<and> x509_Verify L (certX509 c) (map certX509 pool) now" if "Verify L c pool now = Inr ()" for L c pool now
    using that by (auto simp: Verify_def split: if_splits)
  show ?thesis
    by (auto simp: newHost_def dest!: HandleStage0_Inr HandleStage1_Inr dest: v)
qed

theorem session_needs_valid_certificate_witness:
  "\<exists>h p0 out. HandleStage0 sample_libs (sample_input 8) p0 \<lparr>udpIP = [], udpPort = 2\<rparr> (sample_manager 2) = (Inr (h, []), out) \<and>
     (\<exists>c. hCert h = Some c \<and> \<not> IsCA c)"
proof -
  from handshake_run [OF sample_agree, where iA = "sample_input 7" and iB = "sample_input 8"
      and iA' = "sample_input 9" and addrA = "\<lparr>udpIP = [], udpPort = 2\<rparr>"]
  obtain p0 h out where
    s: "HandleStage0 sample_libs (sample_input 8) p0 \<lparr>udpIP = [], udpPort = 2\<rparr> (sample_manager 2) = (Inr (h, []), out)"
    by (simp add: sample_verify) blast
  with session_needs_valid_certificate show ?thesis by blast
qed

text \<open>
  In every reachable state a pending handshake is filed under its own address, holds at most
  fifty queued packets and has been sent between one and ten times; and an index only ever leads
  to a handshake that is still pending.
\<close>
theorem pending_handshakes_bounded:
  assumes "hsm_reach E m"
  shows "(pending m ip = Some r \<longrightarrow> r < length (phHeap m) \<and> phRemoteVpnIP (phHeap m ! r) = ip \<and>
      length (phPendingPackets (phHeap m ! r)) \<le> 50 \<and>
      1 \<le> phAttempts (phHeap m ! r) \<and> phAttempts (phHeap m ! r) \<le> 10) \<and>
    (indexMap m i = Some r \<longrightarrow> phLocalIndex (phHeap m ! r) = i \<and>
      pending m (phRemoteVpnIP (phHeap m ! r)) = Some r)"
  using hsm_invD [OF hsm_reach_inv [OF assms]]
  by (auto simp: ph_ok_def maxPendingPackets_def maxHandshakeAttempts_def)

theorem pending_handshakes_bounded_witness:
  "length (phPendingPackets (phHeap sample_started ! 0)) \<le> 50"
  using pending_handshakes_bounded [OF sample_started_reach] sample_started_pending(1) by blast

text \<open>
  C30: the queue of a pending handshake is a sliding window: after any number of calls of
  \<open>QueuePacket\<close> it holds exactly the newest fifty packets in the order they came, and packets for an
  address without a pending handshake are dropped without a trace.
\<close>
theorem QueuePacket_keeps_newest:
  assumes "hsm_reach E m"
  shows "case pending m ip of
      None \<Rightarrow> fold (QueuePacket ip) pkts m = m
    | Some r \<Rightarrow> phPendingPackets (phHeap (fold (QueuePacket ip) pkts m) ! r) =
        (let q = phPendingPackets (phHeap m ! r) @ pkts in drop (length q - 50) q)"
proof (cases "pending m ip")
  case None
  then have "QueuePacket ip pkt m = m" for pkt by (simp add: QueuePacket_def)
  then show ?thesis by (induction pkts) (simp_all add: None)
next
  case (Some r)
  note d = hsm_invD(1,3) [OF hsm_reach_inv [OF assms] Some]
  then show ?thesis
    using QueuePacket_fold [OF Some, of pkts] by (simp add: Some ph_ok_def maxPendingPackets_def Let_def)
qed

theorem QueuePacket_keeps_newest_witness:
  "fold (QueuePacket (Addr4 9)) [[1], [2]] (sample_manager 1) = sample_manager 1"
  using QueuePacket_keeps_newest [OF hsm_new [of sample_libs "sample_cert 1"
      "\<lparr>dhPrivate = [], dhPublic = replicate 32 1\<rparr>" "[sample_cert 3]"], of "Addr4 9" "[[1], [2]]"]
  by (simp add: sample_manager_def NewHandshakeManager_def)

text \<open>
  An unanswered handshake ends.  Each retry is due between two and thirty seconds after the one
  before; a handshake sent \<open>a\<close> times is gone after exactly \<open>11 - a\<close> due ticks, and at the tick before
  that it is still pending with all ten attempts made.
\<close>
theorem unanswered_handshake_expires:
  assumes "hsm_reach E m" "pending m ip = Some r" "all_due ip ticks (phHeap m ! r)"
    and "int (length ticks) = 11 - phAttempts (phHeap m ! r)"
  shows "pending (run_ticks ticks m) ip = None \<and> pending (run_ticks (butlast ticks) m) ip = Some r \<and>
    phAttempts (phHeap (run_ticks (butlast ticks) m) ! r) = 10 \<and>
    retryBase * 4 \<le> retryDelay (phAttempts (phHeap m ! r) + 1) \<and>
    retryDelay (phAttempts (phHeap m ! r) + 1) \<le> retryMax"
proof -
  note inv = hsm_reach_inv [OF assms(1)]
  have a: "1 \<le> phAttempts (phHeap m ! r)"
    using hsm_invD(3) [OF inv assms(2)] by (simp add: ph_ok_def)
  define k where "k = nat (min (phAttempts (phHeap m ! r) + 1) 6)"
  have "2 \<le> k" using a by (simp add: k_def)
  then have "2 ^ 2 \<le> (2 :: int) ^ k" by (rule power_increasing) simp
  then have "retryBase * 4 \<le> retryDelay (phAttempts (phHeap m ! r) + 1)"
    by (simp add: retryDelay_def Let_def push_bit_eq_mult k_def [symmetric] retryBase_def retryMax_def
        millisecond_def)
  moreover have "retryDelay n \<le> retryMax" for n by (simp add: retryDelay_def Let_def)
  ultimately show ?thesis
    using run_ticks_due [OF inv assms(2,3)] assms(4) by (simp add: maxHandshakeAttempts_def)
qed

theorem unanswered_handshake_expires_witness:
  "pending (run_ticks (map (\<lambda>t. (t, [Addr4 2])) (map (\<lambda>k. k * 1000000000000) [1..10])) sample_started) (Addr4 2) = None"
proof -
  let ?ticks = "map (\<lambda>t. (t, [Addr4 2])) (map (\<lambda>k. k * 1000000000000) [1..10])"
  have e: "[1..10] = [1, 2, 3, 4, 5, 6, 7, 8, 9, 10 :: int]" by (simp add: upto_rec1)
  have "all_due (Addr4 2) ?ticks (phHeap sample_started ! 0)"
    by (simp add: e retryOne_def sample_started_pending maxHandshakeAttempts_def retryDelay_def retryBase_def
        retryMax_def millisecond_def Let_def)
  then show ?thesis
    using unanswered_handshake_expires [OF sample_started_reach sample_started_pending(1), of ?ticks]
    by (simp add: e sample_started_pending)
qed

text \<open>
  C31: a response that names a pending handshake ends it before anything in the response is
  authenticated: whatever the rest of the datagram holds, the handshake and its queued packets are
  gone from both maps.
\<close>
theorem unauthenticated_response_discards_handshake:
  assumes "hsm_reach E m" "Parse pkt = Inr h" "indexMap m (hdrRemoteIndex h) = Some r"
  shows "pending (snd (HandleStage1 E i pkt m)) (phRemoteVpnIP (phHeap m ! r)) = None \<and>
    indexMap (snd (HandleStage1 E i pkt m)) (hdrRemoteIndex h) = None \<and>
    pending m (phRemoteVpnIP (phHeap m ! r)) = Some r"
  using assms hsm_invD(6) [OF hsm_reach_inv [OF assms(1)] assms(3)]
  by (simp add: HandleStage1_state)

theorem unauthenticated_response_discards_handshake_witness:
  "pending (snd (HandleStage1 sample_libs (sample_input 9)
     (Bytes \<lparr>hdrVersion = 1, hdrType = 0, hdrSubType = 1, hdrRemoteIndex = 7, hdrMessageCounter = 0\<rparr>) sample_started))
     (Addr4 2) = None"
proof -
  let ?h = "\<lparr>hdrVersion = 1, hdrType = 0, hdrSubType = 1, hdrRemoteIndex = 7, hdrMessageCounter = 0\<rparr>"
  have "Parse (Bytes ?h) = Inr ?h"
    using hdr.dec_enc [of ?h "[]"] by (simp add: wire_header_def Version_def)
  from unauthenticated_response_discards_handshake [OF sample_started_reach this, of 0 "sample_input 9"]
  show ?thesis by (simp add: sample_started_pending)
qed

end
