(* ===== verification/Neth_LightHouse.thy ===== *)
theory Neth_LightHouse
  imports Neth_Messages Neth_Header Neth_Netip
begin

text \<open>
  Peer discovery: \<^verbatim>\<open>lighthouse.go\<close> and the hole puncher of \<^verbatim>\<open>punchy.go\<close>.  The address store is a map;
  \<open>sendFn\<close> and the puncher's socket are the list of datagrams a call emits, in order.
\<close>

type_synonym datagrams = "(bytes \<times> UDPAddr) list"

section \<open>Punchy\<close>

record Punchy =
  pPunch :: bool
  pRespond :: bool

definition NewPunchy :: "bool \<Rightarrow> bool \<Rightarrow> Punchy" where
  "NewPunchy p r = \<lparr>pPunch = p, pRespond = r\<rparr>"

definition Punch :: "Punchy \<Rightarrow> UDPAddr list \<Rightarrow> datagrams" where
  "Punch p remotes = (if \<not> pPunch p then [] else map (Pair []) remotes)"

definition RespondToPunch :: "Punchy \<Rightarrow> UDPAddr \<Rightarrow> datagrams" where
  "RespondToPunch p from = (if \<not> pRespond p then [] else [([], from)])"

section \<open>State and address conversion\<close>

record LightHouse =
  addrStore :: "Addr \<rightharpoonup> UDPAddr list"
  lighthouses :: "Addr list"
  amLighthouse :: bool
  myAddrs :: "UDPAddr list"
  lhPunchy :: "Punchy option"

datatype lh_error = LHMarshal | LHInvalidIP string

definition NewLightHouse :: "bool \<Rightarrow> Addr list \<Rightarrow> UDPAddr list \<Rightarrow> LightHouse" where
  "NewLightHouse am lhs mine =
     \<lparr>addrStore = Map.empty, lighthouses = lhs, amLighthouse = am, myAddrs = mine, lhPunchy = None\<rparr>"

definition SetPunchy :: "Punchy \<Rightarrow> LightHouse \<Rightarrow> LightHouse" where
  "SetPunchy p lh = lh\<lparr>lhPunchy := Some p\<rparr>"

text \<open>Reading a missing map entry gives a nil slice.\<close>

definition stored :: "LightHouse \<Rightarrow> Addr \<Rightarrow> UDPAddr list" where
  "stored lh vpnIP = (case addrStore lh vpnIP of None \<Rightarrow> [] | Some addrs \<Rightarrow> addrs)"

definition AddStaticEntry :: "Addr \<Rightarrow> UDPAddr \<Rightarrow> LightHouse \<Rightarrow> LightHouse" where
  "AddStaticEntry vpnIP addr lh = lh\<lparr>addrStore := (addrStore lh)(vpnIP \<mapsto> stored lh vpnIP @ [addr])\<rparr>"

definition GetAddrs :: "LightHouse \<Rightarrow> Addr \<Rightarrow> UDPAddr list" where
  "GetAddrs lh vpnIP = (case addrStore lh vpnIP of Some addrs \<Rightarrow> addrs | None \<Rightarrow> [])"

text \<open>The list is the order in which the range loop visits the store.\<close>

primrec VpnIPByAddr :: "Addr list \<Rightarrow> UDPAddr \<Rightarrow> LightHouse \<Rightarrow> Addr option" where
  "VpnIPByAddr [] addr lh = None"
| "VpnIPByAddr (vpnIP # order) addr lh =
     (if list_ex (\<lambda>a. IP_Equal (udpIP a) (udpIP addr) \<and> udpPort a = udpPort addr) (stored lh vpnIP)
      then Some vpnIP else VpnIPByAddr order addr lh)"

definition ipPortToUDPAddr :: "IpPort \<Rightarrow> (lh_error, UDPAddr) res" where
  "ipPortToUDPAddr p =
     (case ParseIP (ipIp p) of
        None \<Rightarrow> Inl (LHInvalidIP (ipIp p))
      | Some ip \<Rightarrow> Inr \<lparr>udpIP = ip, udpPort = uint (ipPort p)\<rparr>)"

definition udpAddrToIpPort :: "UDPAddr \<Rightarrow> IpPort" where
  "udpAddrToIpPort a = \<lparr>ipIp = IP_String (udpIP a), ipPort = word_of_int (udpPort a)\<rparr>"

primrec ipPortsToUDPAddrs :: "IpPort list \<Rightarrow> UDPAddr list" where
  "ipPortsToUDPAddrs [] = []"
| "ipPortsToUDPAddrs (p # ps) =
     (case ipPortToUDPAddr p of Inl _ \<Rightarrow> ipPortsToUDPAddrs ps | Inr a \<Rightarrow> a # ipPortsToUDPAddrs ps)"

definition udpAddrsToIpPorts :: "UDPAddr list \<Rightarrow> IpPort list" where
  "udpAddrsToIpPorts addrs = map udpAddrToIpPort addrs"

section \<open>Sending\<close>

definition marshalLightHousePacket :: "proto_lib \<Rightarrow> LightHouseMessage \<Rightarrow> (lh_error, bytes) res" where
  "marshalLightHousePacket P msg =
     (case marshalLightHouse P msg of
        None \<Rightarrow> Inl LHMarshal
      | Some body \<Rightarrow>
          Inr (Bytes \<lparr>hdrVersion = Version, hdrType = TypeLightHouse, hdrSubType = 0, hdrRemoteIndex = 0,
                 hdrMessageCounter = 0\<rparr> @ body))"

definition lh_send :: "proto_lib \<Rightarrow> LightHouse \<Rightarrow> LightHouseMessage \<Rightarrow> Addr \<Rightarrow> datagrams" where
  "lh_send P lh msg toVpnIP =
     (let physAddrs = stored lh toVpnIP in
      case marshalLightHousePacket P msg of
        Inl _ \<Rightarrow> []
      | Inr wire \<Rightarrow> map (Pair wire) physAddrs)"

definition QueryPeer :: "proto_lib \<Rightarrow> LightHouse \<Rightarrow> Addr \<Rightarrow> datagrams" where
  "QueryPeer P lh vpnIP =
     (let msg = \<lparr>Body = Some (LightHouseMessage_Query \<lparr>hqVpnIp = Addr_String vpnIP\<rparr>)\<rparr>
      in concat (map (lh_send P lh msg) (lighthouses lh)))"

definition Advertise :: "proto_lib \<Rightarrow> LightHouse \<Rightarrow> datagrams" where
  "Advertise P lh =
     (let msg = \<lparr>Body = Some (LightHouseMessage_Update \<lparr>hunAddrs = udpAddrsToIpPorts (myAddrs lh)\<rparr>)\<rparr>
      in concat (map (lh_send P lh msg) (lighthouses lh)))"

section \<open>Handlers\<close>

definition handleQuery :: "proto_lib \<Rightarrow> LightHouse \<Rightarrow> HostQuery \<Rightarrow> Addr \<Rightarrow> datagrams" where
  "handleQuery P lh q replyTo =
     (case ParseAddr (hqVpnIp q) of
        None \<Rightarrow> []
      | Some queried \<Rightarrow>
          let addrs = stored lh queried;
              reply = \<lparr>Body = Some (LightHouseMessage_QueryReply
                        \<lparr>hqrVpnIp = hqVpnIp q, hqrAddrs = udpAddrsToIpPorts addrs\<rparr>)\<rparr>
          in lh_send P lh reply replyTo)"

definition handleQueryReply :: "HostQueryReply \<Rightarrow> LightHouse \<Rightarrow> LightHouse" where
  "handleQueryReply r lh =
     (case ParseAddr (hqrVpnIp r) of
        None \<Rightarrow> lh
      | Some vpnIP \<Rightarrow>
          let addrs = ipPortsToUDPAddrs (hqrAddrs r)
          in lh\<lparr>addrStore := (addrStore lh)(vpnIP \<mapsto> addrs)\<rparr>)"

definition handleUpdate :: "HostUpdateNotification \<Rightarrow> Addr \<Rightarrow> LightHouse \<Rightarrow> LightHouse" where
  "handleUpdate u from lh =
     (if \<not> amLighthouse lh then lh
      else let addrs = ipPortsToUDPAddrs (hunAddrs u)
        in lh\<lparr>addrStore := (addrStore lh)(from \<mapsto> addrs)\<rparr>)"

definition handleWhoAmI :: "proto_lib \<Rightarrow> LightHouse \<Rightarrow> Addr \<Rightarrow> datagrams" where
  "handleWhoAmI P lh from =
     (let addrs = stored lh from;
          ipPort = (if length addrs > 0 then Some (udpAddrToIpPort (addrs ! 0)) else None);
          reply = \<lparr>Body = Some (LightHouseMessage_WhoAmIReply \<lparr>wrAddr = ipPort\<rparr>)\<rparr>
      in lh_send P lh reply from)"

definition handleWhoAmIReply :: "WhoAmIReply \<Rightarrow> LightHouse \<Rightarrow> LightHouse" where
  "handleWhoAmIReply r lh =
     (case wrAddr r of
        None \<Rightarrow> lh
      | Some p \<Rightarrow>
          (case ipPortToUDPAddr p of
             Inl _ \<Rightarrow> lh
           | Inr addr \<Rightarrow> lh\<lparr>myAddrs := addr # myAddrs lh\<rparr>))"

definition handlePunch :: "LightHouse \<Rightarrow> HostPunchNotification \<Rightarrow> datagrams" where
  "handlePunch lh p =
     (case lhPunchy lh of None \<Rightarrow> [] | Some punchy \<Rightarrow> Punch punchy (ipPortsToUDPAddrs (hpnAddrs p)))"

definition HandleMessage ::
  "proto_lib \<Rightarrow> LightHouseMessage \<Rightarrow> Addr \<Rightarrow> LightHouse \<Rightarrow> LightHouse \<times> datagrams" where
  "HandleMessage P msg from lh =
     (case GetQuery msg of Some q \<Rightarrow> (lh, handleQuery P lh q from)
      | None \<Rightarrow>
     (case GetQueryReply msg of Some r \<Rightarrow> (handleQueryReply r lh, [])
      | None \<Rightarrow>
     (case GetUpdate msg of Some u \<Rightarrow> (handleUpdate u from lh, [])
      | None \<Rightarrow>
     (case GetWhoAmI msg of Some _ \<Rightarrow> (lh, handleWhoAmI P lh from)
      | None \<Rightarrow>
     (case GetWhoAmIReply msg of Some r \<Rightarrow> (handleWhoAmIReply r lh, [])
      | None \<Rightarrow>
     (case GetPunch msg of Some p \<Rightarrow> (lh, handlePunch lh p)
      | None \<Rightarrow> (lh, [])))))))"

section \<open>Lemmas\<close>

text \<open>An IPv4 endpoint with a UDP port, and the 16-byte form in which it comes back off the wire.\<close>

definition endpoint4 :: "UDPAddr \<Rightarrow> bool" where
  "endpoint4 a \<longleftrightarrow> IP_To4 (udpIP a) \<noteq> None \<and> 0 \<le> udpPort a \<and> udpPort a < 65536"

definition to16 :: "UDPAddr \<Rightarrow> UDPAddr" where
  "to16 a = a\<lparr>udpIP := (case IP_To4 (udpIP a) of None \<Rightarrow> udpIP a | Some ip \<Rightarrow> v4InV6Prefix @ ip)\<rparr>"

lemma IP_String_To4: "IP_To4 ip = Some ip4 \<Longrightarrow> IP_String ip = IP_String ip4 \<and> length ip4 = 4"
  by (auto simp: IP_To4_def IP_String_def split: if_splits)

lemma endpoint_roundtrip: "endpoint4 a \<Longrightarrow> ipPortToUDPAddr (udpAddrToIpPort a) = Inr (to16 a)"
proof -
  assume a: "endpoint4 a"
  then obtain ip4 where ip4: "IP_To4 (udpIP a) = Some ip4" by (auto simp: endpoint4_def)
  have "uint (word_of_int (udpPort a) :: u32) = udpPort a"
    using a by (simp add: endpoint4_def uint_word_of_int)
  with ip4 IP_String_To4 [OF ip4] show ?thesis
    by (simp add: ipPortToUDPAddr_def udpAddrToIpPort_def to16_def IP_String_ParseIP4)
qed

lemma endpoints_roundtrip:
  "\<forall>a \<in> set as. endpoint4 a \<Longrightarrow> ipPortsToUDPAddrs (udpAddrsToIpPorts as) = map to16 as"
  by (induction as) (simp_all add: udpAddrsToIpPorts_def endpoint_roundtrip)

lemma to16_same: "endpoint4 a \<Longrightarrow> IP_Equal (udpIP (to16 a)) (udpIP a) \<and> udpPort (to16 a) = udpPort a"
proof -
  have "v4InV6Prefix @ drop 12 ip = ip" if "take 12 ip = v4InV6Prefix" for ip :: bytes
    using append_take_drop_id [of 12 ip] that by simp
  then show "endpoint4 a \<Longrightarrow> ?thesis"
    by (auto simp: endpoint4_def to16_def IP_Equal_def IP_To4_def split: if_splits) (simp_all add: v4InV6Prefix_def)
qed

lemma endpoint4_to16: "endpoint4 a \<Longrightarrow> endpoint4 (to16 a)"
  by (auto simp: endpoint4_def to16_def IP_To4_def v4InV6Prefix_def split: if_splits)

lemma to16_to16: "endpoint4 a \<Longrightarrow> to16 (to16 a) = to16 a"
  by (auto simp: endpoint4_def to16_def IP_To4_def v4InV6Prefix_def split: if_splits)

lemma lh_packet:
  assumes "proto_inverse P" "(wire, a) \<in> set (lh_send P lh msg to)"
  shows "unmarshalLightHouse P (drop HeaderLen wire) = Some msg" "a \<in> set (stored lh to)"
  using assms proto_inverseD(3) [OF assms(1), of msg]
  by (auto simp: lh_send_def marshalLightHousePacket_def Let_def HeaderLen_def split: sum.splits option.splits)

lemma HandleMessage_simps:
  "HandleMessage P \<lparr>Body = Some (LightHouseMessage_Query q)\<rparr> from lh = (lh, handleQuery P lh q from)"
  "HandleMessage P \<lparr>Body = Some (LightHouseMessage_QueryReply r)\<rparr> from lh = (handleQueryReply r lh, [])"
  "HandleMessage P \<lparr>Body = Some (LightHouseMessage_Update u)\<rparr> from lh = (handleUpdate u from lh, [])"
  "HandleMessage P \<lparr>Body = Some LightHouseMessage_WhoAmI\<rparr> from lh = (lh, handleWhoAmI P lh from)"
  "HandleMessage P \<lparr>Body = Some (LightHouseMessage_WhoAmIReply w)\<rparr> from lh = (handleWhoAmIReply w lh, [])"
  "HandleMessage P \<lparr>Body = Some (LightHouseMessage_Punch p)\<rparr> from lh = (lh, handlePunch lh p)"
  "HandleMessage P \<lparr>Body = None\<rparr> from lh = (lh, [])"
  by (simp_all add: HandleMessage_def getter_defs)

lemma Advertise_packet:
  assumes "proto_inverse P" "(wire, a) \<in> set (Advertise P lh)"
  shows "unmarshalLightHouse P (drop HeaderLen wire) =
    Some \<lparr>Body = Some (LightHouseMessage_Update \<lparr>hunAddrs = udpAddrsToIpPorts (myAddrs lh)\<rparr>)\<rparr>"
  using assms lh_packet(1) [OF assms(1)] by (auto simp: Advertise_def Let_def)

lemma QueryPeer_packet:
  assumes "proto_inverse P" "(wire, a) \<in> set (QueryPeer P lh ip)"
  shows "unmarshalLightHouse P (drop HeaderLen wire) =
    Some \<lparr>Body = Some (LightHouseMessage_Query \<lparr>hqVpnIp = Addr_String ip\<rparr>)\<rparr>"
  using assms lh_packet(1) [OF assms(1)] by (auto simp: QueryPeer_def Let_def)

text \<open>A sample network: a lighthouse at VPN address 9 that every node knows.\<close>

definition sample_lh :: "bool \<Rightarrow> LightHouse" where
  "sample_lh am = \<lparr>addrStore = [Addr4 9 \<mapsto> [\<lparr>udpIP = [10, 0, 0, 9], udpPort = 1\<rparr>]], lighthouses = [Addr4 9],
     amLighthouse = am, myAddrs = [\<lparr>udpIP = [10, 0, 0, 1], udpPort = 4242\<rparr>], lhPunchy = None\<rparr>"

definition sample_lh_msgs :: "nat \<Rightarrow> LightHouseMessage" where
  "sample_lh_msgs i = \<lparr>Body = Some
     (if i = 1 then LightHouseMessage_Update \<lparr>hunAddrs = udpAddrsToIpPorts [\<lparr>udpIP = [10, 0, 0, 1], udpPort = 4242\<rparr>]\<rparr>
      else if i = 2 then LightHouseMessage_Query \<lparr>hqVpnIp = Addr_String (Addr4 1)\<rparr>
      else LightHouseMessage_QueryReply \<lparr>hqrVpnIp = Addr_String (Addr4 1),
        hqrAddrs = udpAddrsToIpPorts (map to16 [\<lparr>udpIP = [10, 0, 0, 1], udpPort = 4242\<rparr>])\<rparr>)\<rparr>"

definition sample_lh_proto :: proto_lib where
  "sample_lh_proto = sample_proto sample_lh_msgs"

section \<open>Properties\<close>

text \<open>
  C26: discovery works.  Once a lighthouse has taken in a node's advertisement, its answer to any
  peer's query for that node goes to every address the lighthouse knows for the asking peer, and
  gives the peer exactly the node's advertised IPv4 endpoints, in order.
\<close>
theorem lighthouse_discovery:
  assumes "proto_inverse P" "amLighthouse lhL" "\<forall>a \<in> set (myAddrs lhN). endpoint4 a"
    and "(update, x) \<in> set (Advertise P lhN)" "(query, y) \<in> set (QueryPeer P lhQ (Addr4 n))"
    and "marshalLightHouse P \<lparr>Body = Some (LightHouseMessage_QueryReply \<lparr>hqrVpnIp = Addr_String (Addr4 n),
          hqrAddrs = udpAddrsToIpPorts (map to16 (myAddrs lhN))\<rparr>)\<rparr> \<noteq> None"
  shows "\<exists>mU mQ lhL' out. unmarshalLightHouse P (drop HeaderLen update) = Some mU \<and>
    unmarshalLightHouse P (drop HeaderLen query) = Some mQ \<and>
    HandleMessage P mU (Addr4 n) lhL = (lhL', []) \<and> HandleMessage P mQ vpnQ lhL' = (lhL', out) \<and>
    map snd out = stored lhL' vpnQ \<and>
    (\<forall>(reply, z) \<in> set out. \<exists>mR. unmarshalLightHouse P (drop HeaderLen reply) = Some mR \<and>
       GetAddrs (fst (HandleMessage P mR vpnL lhQ)) (Addr4 n) = map to16 (myAddrs lhN))"
proof -
  let ?as = "map to16 (myAddrs lhN)"
  let ?L = "lhL\<lparr>addrStore := (addrStore lhL)(Addr4 n \<mapsto> ?as)\<rparr>"
  let ?R = "\<lparr>Body = Some (LightHouseMessage_QueryReply \<lparr>hqrVpnIp = Addr_String (Addr4 n),
    hqrAddrs = udpAddrsToIpPorts ?as\<rparr>)\<rparr>"
  have ep: "\<forall>a \<in> set ?as. endpoint4 a" "map to16 ?as = ?as"
    using assms(3) by (auto simp: endpoint4_to16 to16_to16)
  have u: "handleUpdate \<lparr>hunAddrs = udpAddrsToIpPorts (myAddrs lhN)\<rparr> (Addr4 n) lhL = ?L"
    using assms(2,3) by (simp add: handleUpdate_def endpoints_roundtrip)
  have q: "handleQuery P ?L \<lparr>hqVpnIp = Addr_String (Addr4 n)\<rparr> vpnQ = lh_send P ?L ?R vpnQ"
    by (simp add: handleQuery_def ParseAddr_String4 stored_def Let_def)
  have s: "map snd (lh_send P ?L ?R vpnQ) = stored ?L vpnQ"
    using assms(6) by (auto simp: lh_send_def marshalLightHousePacket_def comp_def)
  have r: "GetAddrs (fst (HandleMessage P ?R vpnL lhQ)) (Addr4 n) = ?as"
    using endpoints_roundtrip [OF ep(1)] ep(2)
    by (simp add: HandleMessage_simps handleQueryReply_def ParseAddr_String4 GetAddrs_def)
  from lh_packet(1) [OF assms(1)] r
  have "\<forall>(reply, z) \<in> set (lh_send P ?L ?R vpnQ). \<exists>mR. unmarshalLightHouse P (drop HeaderLen reply) = Some mR \<and>
      GetAddrs (fst (HandleMessage P mR vpnL lhQ)) (Addr4 n) = ?as"
    by blast
  moreover have "HandleMessage P \<lparr>Body = Some (LightHouseMessage_Update
      \<lparr>hunAddrs = udpAddrsToIpPorts (myAddrs lhN)\<rparr>)\<rparr> (Addr4 n) lhL = (?L, [])"
    by (simp add: HandleMessage_simps u)
  moreover have "HandleMessage P \<lparr>Body = Some (LightHouseMessage_Query \<lparr>hqVpnIp = Addr_String (Addr4 n)\<rparr>)\<rparr> vpnQ ?L =
      (?L, lh_send P ?L ?R vpnQ)"
    by (simp add: HandleMessage_simps q)
  ultimately show ?thesis
    using s Advertise_packet [OF assms(1,4)] QueryPeer_packet [OF assms(1,5)] by blast
qed

theorem lighthouse_discovery_witness:
  "\<exists>mU mQ lhL' out.
    HandleMessage sample_lh_proto mU (Addr4 1) (sample_lh True) = (lhL', []) \<and>
    HandleMessage sample_lh_proto mQ (Addr4 9) lhL' = (lhL', out) \<and>
    map snd out = stored lhL' (Addr4 9)"
proof -
  let ?L = "sample_lh True" and ?N = "sample_lh False"
  have p: "proto_inverse sample_lh_proto" by (simp add: sample_lh_proto_def sample_proto_inverse)
  have e: "\<forall>a \<in> set (myAddrs ?N). endpoint4 a" by (simp add: sample_lh_def endpoint4_def IP_To4_def)
  obtain w where w: "(w, \<lparr>udpIP = [10, 0, 0, 9], udpPort = 1\<rparr>) \<in> set (Advertise sample_lh_proto ?N)"
    by (simp add: Advertise_def lh_send_def marshalLightHousePacket_def sample_lh_proto_def sample_proto_def
        sample_lh_def stored_def sample_lh_msgs_def)
  obtain q where q: "(q, \<lparr>udpIP = [10, 0, 0, 9], udpPort = 1\<rparr>) \<in> set (QueryPeer sample_lh_proto ?N (Addr4 1))"
    by (simp add: QueryPeer_def lh_send_def marshalLightHousePacket_def sample_lh_proto_def sample_proto_def
        sample_lh_def stored_def sample_lh_msgs_def)
  have m: "marshalLightHouse sample_lh_proto \<lparr>Body = Some (LightHouseMessage_QueryReply
      \<lparr>hqrVpnIp = Addr_String (Addr4 1), hqrAddrs = udpAddrsToIpPorts (map to16 (myAddrs ?N))\<rparr>)\<rparr> \<noteq> None"
    by (simp add: sample_lh_proto_def sample_proto_def sample_lh_msgs_def sample_lh_def)
  have "amLighthouse ?L" by (simp add: sample_lh_def)
  from lighthouse_discovery [OF p this e w q m, of "Addr4 9"] show ?thesis by blast
qed

text \<open>
  C40: who may write what in the address store.  A message changes the entry of an address only if
  it is a query reply that names that address, or an update whose sender is that address at a node
  that is a lighthouse; the lighthouse list, the role and the puncher never change.
\<close>
theorem address_store_writes:
  assumes "HandleMessage P msg from lh = (lh', out)"
  shows "(addrStore lh' ip \<noteq> addrStore lh ip \<longrightarrow>
      (\<exists>r. Body msg = Some (LightHouseMessage_QueryReply r) \<and> ParseAddr (hqrVpnIp r) = Some ip) \<or>
      (\<exists>u. Body msg = Some (LightHouseMessage_Update u) \<and> amLighthouse lh \<and> ip = from)) \<and>
    lighthouses lh' = lighthouses lh \<and> amLighthouse lh' = amLighthouse lh \<and> lhPunchy lh' = lhPunchy lh"
  using assms
  by (cases msg; cases "Body msg"; cases "the (Body msg)")
    (auto simp: HandleMessage_simps handleQueryReply_def handleUpdate_def handleWhoAmIReply_def
      split: option.splits sum.splits if_splits)

theorem address_store_writes_witness:
  "addrStore (fst (HandleMessage sample_lh_proto (sample_lh_msgs 1) (Addr4 5) (sample_lh True))) (Addr4 9) =
     addrStore (sample_lh True) (Addr4 9)"
  using address_store_writes [of sample_lh_proto "sample_lh_msgs 1" "Addr4 5" "sample_lh True" _ _ "Addr4 9"]
  by (cases "HandleMessage sample_lh_proto (sample_lh_msgs 1) (Addr4 5) (sample_lh True)")
    (auto simp: sample_lh_msgs_def)

text \<open>
  Reverse lookup.  Whatever order the map is visited in, an address some stored peer uses is
  attributed to a peer that lists it, and an address nobody lists is attributed to none.
\<close>
theorem VpnIPByAddr_correct:
  "(VpnIPByAddr order addr lh = None \<longleftrightarrow>
     (\<forall>ip \<in> set order. \<forall>a \<in> set (stored lh ip). \<not> (IP_Equal (udpIP a) (udpIP addr) \<and> udpPort a = udpPort addr))) \<and>
   (VpnIPByAddr order addr lh = Some ip \<longrightarrow>
     ip \<in> set order \<and> (\<exists>a \<in> set (stored lh ip). IP_Equal (udpIP a) (udpIP addr) \<and> udpPort a = udpPort addr))"
  by (induction order) (auto simp: list_ex_iff)

theorem VpnIPByAddr_correct_witness:
  "VpnIPByAddr [Addr4 9] \<lparr>udpIP = [10, 0, 0, 9], udpPort = 1\<rparr> (sample_lh True) \<noteq> None \<and>
   VpnIPByAddr [Addr4 9] \<lparr>udpIP = [10, 0, 0, 8], udpPort = 1\<rparr> (sample_lh True) = None"
  using VpnIPByAddr_correct [of "[Addr4 9]" "\<lparr>udpIP = [10, 0, 0, 9], udpPort = 1\<rparr>" "sample_lh True"]
    VpnIPByAddr_correct [of "[Addr4 9]" "\<lparr>udpIP = [10, 0, 0, 8], udpPort = 1\<rparr>" "sample_lh True"]
  by (simp add: stored_def sample_lh_def IP_Equal_def)

end
