(* ===== verification/Neth_Interface.thy ===== *)
theory Neth_Interface
  imports Neth_Firewall Neth_Pki Neth_HandshakeManager Neth_LightHouse
begin

text \<open>
  The orchestrator of \<^verbatim>\<open>interface.go\<close>: packets read from the TUN device are filtered, encrypted and sent
  over UDP; datagrams are dispatched by type, decrypted, filtered and written to the TUN device.
  A handler takes the interface state and returns it updated with the events it caused, in order.
  Here a handler is one step; \<open>Neth_Threads\<close> takes it apart into its critical sections.
\<close>

section \<open>State\<close>

record 'hs Interface =
  ifHosts :: host_heap
  ifHostmap :: HostMap
  ifMgr :: "'hs HandshakeManager"
  ifFw :: Firewall
  ifLh :: LightHouse
  ifPunchy :: "Punchy option"
  ifPeerCerts :: "Addr \<rightharpoonup> Certificate"

datatype event = Udp bytes UDPAddr | Tun bytes

definition udp_events :: "(bytes \<times> UDPAddr) list \<Rightarrow> event list" where
  "udp_events ds = map (\<lambda>(b, a). Udp b a) ds"

text \<open>
  What one handler call draws from its surroundings: the inputs of the handshake manager and the
  order in which a range loop visits the lighthouse's store.
\<close>

record iface_input =
  inBase :: input
  inOrder :: "Addr list"

section \<open>Packet fields\<close>

definition dstIPFromIPv4 :: "bytes \<Rightarrow> Addr option" where
  "dstIPFromIPv4 pkt =
     (if length pkt < 20 \<or> drop_bit 4 (pkt ! 0) \<noteq> 4 then None else Some (AddrFrom4 (slice 16 20 pkt)))"

definition srcIPFromIPv4 :: "bytes \<Rightarrow> Addr option" where
  "srcIPFromIPv4 pkt =
     (if length pkt < 20 \<or> drop_bit 4 (pkt ! 0) \<noteq> 4 then None else Some (AddrFrom4 (slice 12 16 pkt)))"

definition protoFromIPv4 :: "bytes \<Rightarrow> Proto" where
  "protoFromIPv4 pkt = (if length pkt < 10 then ProtoAny else pkt ! 9)"

definition dstPortFromIPv4 :: "bytes \<Rightarrow> u16" where
  "dstPortFromIPv4 pkt =
     (if length pkt < 20 then 0
      else let ihl = unat (pkt ! 0 AND 0x0F) * 4; p = pkt ! 9 in
        if (p = ProtoTCP \<or> p = ProtoUDP) \<and> length pkt \<ge> ihl + 4
        then get_be (slice (ihl + 2) (ihl + 4) pkt) else 0)"

section \<open>Peer certificates\<close>

definition getPeerCert :: "'hs Interface \<Rightarrow> Addr \<Rightarrow> Certificate option" where
  "getPeerCert iface vpnIP = ifPeerCerts iface vpnIP"

definition AddPeerCert :: "Addr \<Rightarrow> Certificate \<Rightarrow> 'hs Interface \<Rightarrow> 'hs Interface" where
  "AddPeerCert vpnIP c iface = iface\<lparr>ifPeerCerts := (ifPeerCerts iface)(vpnIP \<mapsto> c)\<rparr>"

section \<open>Sending on a session\<close>

definition sendToRemote :: "href \<Rightarrow> bytes \<Rightarrow> 'hs Interface \<Rightarrow> 'hs Interface \<times> event list" where
  "sendToRemote r plaintext iface =
     (let counter = hCounter (ifHosts iface ! r) + 1;
          host = (ifHosts iface ! r)\<lparr>hCounter := counter\<rparr>;
          iface = iface\<lparr>ifHosts := (ifHosts iface)[r := host]\<rparr>;
          hdrBytes = Bytes \<lparr>hdrVersion = Version, hdrType = TypeMessage, hdrSubType = 0,
            hdrRemoteIndex = hRemoteIndex host, hdrMessageCounter = counter\<rparr>
      in case Encrypt (hSendCipher host) counter hdrBytes plaintext of
           Inl _ \<Rightarrow> (iface, [])
         | Inr sealed \<Rightarrow> (iface, [Udp (hdrBytes @ sealed) (hRemote host)]))"

primrec sendAll :: "href \<Rightarrow> bytes list \<Rightarrow> 'hs Interface \<Rightarrow> 'hs Interface \<times> event list" where
  "sendAll r [] iface = (iface, [])"
| "sendAll r (pkt # pkts) iface =
     (let (iface, ev) = sendToRemote r pkt iface; (iface, ev') = sendAll r pkts iface in (iface, ev @ ev'))"

definition onHandshakeComplete :: "HostInfo \<Rightarrow> bytes list \<Rightarrow> 'hs Interface \<Rightarrow> 'hs Interface \<times> event list" where
  "onHandshakeComplete h pend iface =
     (let r = length (ifHosts iface);
          hosts = ifHosts iface @ [h];
          iface = iface\<lparr>ifHosts := hosts, ifHostmap := Add hosts r (ifHostmap iface)\<rparr>;
          iface = (case hCert h of
                     None \<Rightarrow> iface
                   | Some c \<Rightarrow> iface\<lparr>ifPeerCerts := (ifPeerCerts iface)(hVpnIP h \<mapsto> c)\<rparr>)
      in sendAll r pend iface)"

section \<open>Packets from the TUN device\<close>

definition hostGroups :: "'hs Interface \<Rightarrow> href \<Rightarrow> string list" where
  "hostGroups iface r = (case hCert (ifHosts iface ! r) of None \<Rightarrow> [] | Some c \<Rightarrow> Groups c)"

definition consumeInsidePacket ::
  "('hs, 'cs) libs \<Rightarrow> iface_input \<Rightarrow> bytes \<Rightarrow> 'hs Interface \<Rightarrow> 'hs Interface \<times> event list" where
  "consumeInsidePacket E i pkt iface =
     (case dstIPFromIPv4 pkt of
        None \<Rightarrow> (iface, [])
      | Some dstIP \<Rightarrow>
          let host = GetByVpnIP (ifHostmap iface) dstIP;
              dstGroups = (case host of None \<Rightarrow> [] | Some r \<Rightarrow> hostGroups iface r);
              proto = protoFromIPv4 pkt;
              dstPort = dstPortFromIPv4 pkt;
              (allowed, fw) = AllowOutbound (ifFw iface) (inNow (inBase i)) dstIP dstGroups dstPort proto;
              iface = iface\<lparr>ifFw := fw\<rparr>
          in if \<not> allowed then (iface, [])
             else (case host of
                     Some r \<Rightarrow> sendToRemote r pkt iface
                   | None \<Rightarrow>
                       (case getPeerCert iface dstIP of
                          None \<Rightarrow> (iface\<lparr>ifMgr := QueuePacket dstIP pkt (ifMgr iface)\<rparr>, [])
                        | Some remoteCert \<Rightarrow>
                            let remoteAddrs = GetAddrs (ifLh iface) dstIP in
                            if length remoteAddrs = 0 then
                              (iface\<lparr>ifMgr := QueuePacket dstIP pkt (ifMgr iface)\<rparr>,
                               udp_events (QueryPeer (libP E) (ifLh iface) dstIP))
                            else
                              let (result, mgr, out) = StartHandshake E (inBase i) dstIP (remoteAddrs ! 0) remoteCert (ifMgr iface);
                                  iface = iface\<lparr>ifMgr := mgr\<rparr>
                              in (case result of
                                    Inl _ \<Rightarrow> (iface, udp_events out)
                                  | Inr _ \<Rightarrow> (iface\<lparr>ifMgr := QueuePacket dstIP pkt (ifMgr iface)\<rparr>, udp_events out)))))"

section \<open>Datagrams\<close>

definition handleMessage ::
  "iface_input \<Rightarrow> bytes \<Rightarrow> Header \<Rightarrow> UDPAddr \<Rightarrow> 'hs Interface \<Rightarrow> 'hs Interface \<times> event list" where
  "handleMessage i pkt h from iface =
     (case GetByIndex (ifHostmap iface) (hdrRemoteIndex h) of
        None \<Rightarrow> (iface, (case ifPunchy iface of None \<Rightarrow> [] | Some p \<Rightarrow> udp_events (RespondToPunch p from)))
      | Some r \<Rightarrow>
          let (replay, host) = CheckReplay (hdrMessageCounter h) (ifHosts iface ! r);
              iface = iface\<lparr>ifHosts := (ifHosts iface)[r := host]\<rparr>
          in if replay then (iface, [])
             else (case Decrypt (hRecvCipher host) (hdrMessageCounter h) (take HeaderLen pkt) (drop HeaderLen pkt) of
                     Inl _ \<Rightarrow> (iface, [])
                   | Inr plaintext \<Rightarrow>
                       (case srcIPFromIPv4 plaintext of
                          None \<Rightarrow> (iface, [])
                        | Some srcIP \<Rightarrow>
                            let srcGroups = hostGroups iface r;
                                inProto = protoFromIPv4 plaintext;
                                dstPort = dstPortFromIPv4 plaintext;
                                (allowed, fw) = AllowInbound (ifFw iface) (inNow (inBase i)) srcIP srcGroups dstPort inProto;
                                iface = iface\<lparr>ifFw := fw\<rparr>
                            in if \<not> allowed then (iface, []) else (iface, [Tun plaintext]))))"

definition handleHandshake ::
  "('hs, 'cs) libs \<Rightarrow> iface_input \<Rightarrow> bytes \<Rightarrow> Header \<Rightarrow> UDPAddr \<Rightarrow> 'hs Interface \<Rightarrow> 'hs Interface \<times> event list" where
  "handleHandshake E i pkt h from iface =
     (if hdrSubType h = HandshakeInitiation then
        let (result, out) = HandleStage0 E (inBase i) pkt from (ifMgr iface)
        in (case result of
              Inl _ \<Rightarrow> (iface, udp_events out)
            | Inr (host, pend) \<Rightarrow>
                let (iface, ev) = onHandshakeComplete host pend iface in (iface, udp_events out @ ev))
      else if hdrSubType h = HandshakeResponse then
        let (result, mgr) = HandleStage1 E (inBase i) pkt (ifMgr iface);
            iface = iface\<lparr>ifMgr := mgr\<rparr>
        in (case result of
              Inl _ \<Rightarrow> (iface, [])
            | Inr (host, pend) \<Rightarrow> onHandshakeComplete host pend iface)
      else (iface, []))"

definition handleLightHouse ::
  "('hs, 'cs) libs \<Rightarrow> iface_input \<Rightarrow> bytes \<Rightarrow> Header \<Rightarrow> UDPAddr \<Rightarrow> 'hs Interface \<Rightarrow> 'hs Interface \<times> event list" where
  "handleLightHouse E i pkt h from iface =
     (let sender = (case GetByIndex (ifHostmap iface) (hdrRemoteIndex h) of
                      Some r \<Rightarrow> Some (hVpnIP (ifHosts iface ! r))
                    | None \<Rightarrow> VpnIPByAddr (inOrder i) from (ifLh iface))
      in case sender of
           None \<Rightarrow> (iface, [])
         | Some senderVPN \<Rightarrow>
             (case unmarshalLightHouse (libP E) (drop HeaderLen pkt) of
                None \<Rightarrow> (iface, [])
              | Some msg \<Rightarrow>
                  let (lh, out) = HandleMessage (libP E) msg senderVPN (ifLh iface)
                  in (iface\<lparr>ifLh := lh\<rparr>, udp_events out)))"

definition handleTest :: "UDPAddr \<Rightarrow> 'hs Interface \<Rightarrow> 'hs Interface \<times> event list" where
  "handleTest from iface =
     (iface, [Udp (Bytes \<lparr>hdrVersion = Version, hdrType = TypeTest, hdrSubType = 0, hdrRemoteIndex = 0,
                hdrMessageCounter = 0\<rparr>) from])"

definition handleCloseTunnel :: "Header \<Rightarrow> 'hs Interface \<Rightarrow> 'hs Interface" where
  "handleCloseTunnel h iface =
     (case GetByIndex (ifHostmap iface) (hdrRemoteIndex h) of
        None \<Rightarrow> iface
      | Some r \<Rightarrow> iface\<lparr>ifHostmap := Remove (ifHosts iface) (hVpnIP (ifHosts iface ! r)) (ifHostmap iface)\<rparr>)"

definition consumeOutsidePacket ::
  "('hs, 'cs) libs \<Rightarrow> iface_input \<Rightarrow> bytes \<Rightarrow> UDPAddr \<Rightarrow> 'hs Interface \<Rightarrow> 'hs Interface \<times> event list" where
  "consumeOutsidePacket E i pkt from iface =
     (if length pkt < HeaderLen then (iface, [])
      else case Parse pkt of
        Inl _ \<Rightarrow> (iface, [])
      | Inr h \<Rightarrow>
          if hdrType h = TypeMessage then handleMessage i pkt h from iface
          else if hdrType h = TypeHandshake then handleHandshake E i pkt h from iface
          else if hdrType h = TypeLightHouse then handleLightHouse E i pkt h from iface
          else if hdrType h = TypeTest then handleTest from iface
          else if hdrType h = TypeCloseTunnel then (handleCloseTunnel h iface, [])
          else (iface, []))"

section \<open>Start-up\<close>

text \<open>
  \<^verbatim>\<open>net.Interfaces\<close>: the flags and the addresses of each interface; an address that is not an
  \<^verbatim>\<open>*net.IPNet\<close> is skipped.
\<close>

datatype net_addr = IPNet bytes | OtherAddr

record netif =
  nifFlags :: nat
  nifAddrs :: "net_addr list"

definition FlagUp :: nat where "FlagUp = 1"
definition FlagLoopback :: nat where "FlagLoopback = 4"

definition localUDPAddrs :: "netif list option \<Rightarrow> int \<Rightarrow> UDPAddr list" where
  "localUDPAddrs ifaces port =
     (case ifaces of
        None \<Rightarrow> []
      | Some ifs \<Rightarrow> concat (map (\<lambda>f.
          if nifFlags f AND FlagLoopback \<noteq> 0 \<or> nifFlags f AND FlagUp = 0 then []
          else concat (map (\<lambda>a. case a of
              OtherAddr \<Rightarrow> []
            | IPNet ip \<Rightarrow> (case IP_To4 ip of None \<Rightarrow> [] | Some ip4 \<Rightarrow> [\<lparr>udpIP = ip4, udpPort = port\<rparr>])) (nifAddrs f))) ifs))"

datatype build_lh_error = LHHost string | StaticKey string | StaticAddr string string

primrec parseHosts :: "string list \<Rightarrow> (build_lh_error, Addr list) res" where
  "parseHosts [] = Inr []"
| "parseHosts (h # hs) =
     (case ParseAddr h of
        None \<Rightarrow> Inl (LHHost h)
      | Some ip \<Rightarrow> (case parseHosts hs of Inl e \<Rightarrow> Inl e | Inr ips \<Rightarrow> Inr (ip # ips)))"

primrec addStatics :: "(string \<Rightarrow> UDPAddr option) \<Rightarrow> string \<Rightarrow> Addr \<Rightarrow> string list \<Rightarrow> LightHouse
    \<Rightarrow> (build_lh_error, LightHouse) res" where
  "addStatics resolve key vpnIP [] lh = Inr lh"
| "addStatics resolve key vpnIP (a # as) lh =
     (case resolve a of
        None \<Rightarrow> Inl (StaticAddr key a)
      | Some addr \<Rightarrow> addStatics resolve key vpnIP as (AddStaticEntry vpnIP addr lh))"

primrec addStaticMap :: "(string \<Rightarrow> UDPAddr option) \<Rightarrow> (string \<times> string list) list \<Rightarrow> LightHouse
    \<Rightarrow> (build_lh_error, LightHouse) res" where
  "addStaticMap resolve [] lh = Inr lh"
| "addStaticMap resolve (e # es) lh =
     (case ParseAddr (fst e) of
        None \<Rightarrow> Inl (StaticKey (fst e))
      | Some vpnIP \<Rightarrow>
          (case addStatics resolve (fst e) vpnIP (snd e) lh of
             Inl err \<Rightarrow> Inl err
           | Inr lh \<Rightarrow> addStaticMap resolve es lh))"

text \<open>\<open>resolve\<close> is \<^verbatim>\<open>net.ResolveUDPAddr\<close>, which may ask a name server.\<close>

definition buildLightHouse ::
  "(string \<Rightarrow> UDPAddr option) \<Rightarrow> netif list option \<Rightarrow> int \<Rightarrow> Config \<Rightarrow> (build_lh_error, LightHouse) res" where
  "buildLightHouse resolve ifaces port cfg =
     (case parseHosts (lhHosts (cfgLighthouse cfg)) of
        Inl e \<Rightarrow> Inl e
      | Inr lhIPs \<Rightarrow>
          addStaticMap resolve (cfgStaticHostMap cfg)
            (NewLightHouse (lhAmLighthouse (cfgLighthouse cfg)) lhIPs (localUDPAddrs ifaces port)))"

text \<open>A directory is the list of its entries: name, whether it is a directory, and its content if readable.\<close>

primrec loadPeerCerts ::
  "x509_lib \<Rightarrow> (string \<times> bool \<times> bytes option) list \<Rightarrow> 'hs Interface \<Rightarrow> (string, 'hs Interface) res" where
  "loadPeerCerts L [] iface = Inr iface"
| "loadPeerCerts L (e # es) iface =
     (let (name, isDir, content) = e in
      if isDir \<or> \<not> (length name \<ge> 4 \<and> drop (length name - 4) name = ''.crt'') then loadPeerCerts L es iface
      else case content of
        None \<Rightarrow> Inl name
      | Some d \<Rightarrow>
          (case ParseCert L d of
             Inl _ \<Rightarrow> loadPeerCerts L es iface
           | Inr c \<Rightarrow> loadPeerCerts L es (AddPeerCert (pfxAddr (VpnIP c)) c iface)))"

text \<open>The advertisement period \<open>Run\<close> computes: a product of 64-bit signed durations, with its overflow.\<close>

definition advertiseInterval :: "int \<Rightarrow> int" where
  "advertiseInterval n =
     (let interval = signed_take_bit 63 (n * second)
      in if interval \<le> 0 then 60 * second else interval)"

section \<open>Steps\<close>

text \<open>
  The loops of \<open>Run\<close>: a packet from the TUN device, a datagram, a tick of the firewall's expiry, of the
  handshake retries and of the lighthouse's advertisements.
\<close>

datatype iface_op =
    FromTun iface_input bytes
  | FromUdp iface_input bytes UDPAddr
  | ExpiryTick int
  | RetryTick int "Addr list"
  | AdvertiseTick

fun iface_step :: "('hs, 'cs) libs \<Rightarrow> iface_op \<Rightarrow> 'hs Interface \<Rightarrow> 'hs Interface \<times> event list" where
  "iface_step E (FromTun i pkt) iface = consumeInsidePacket E i pkt iface"
| "iface_step E (FromUdp i pkt from) iface = consumeOutsidePacket E i pkt from iface"
| "iface_step E (ExpiryTick now) iface = (iface\<lparr>ifFw := RunExpiry_tick now (ifFw iface)\<rparr>, [])"
| "iface_step E (RetryTick now order) iface =
     (let (mgr, out) = retryPending now order (ifMgr iface) in (iface\<lparr>ifMgr := mgr\<rparr>, udp_events out))"
| "iface_step E AdvertiseTick iface = (iface, udp_events (Advertise (libP E) (ifLh iface)))"

text \<open>The state \<open>NewInterface\<close> builds, whatever the lighthouse, puncher and peer certificates.\<close>

definition iface_init :: "'hs Interface \<Rightarrow> bool" where
  "iface_init iface \<longleftrightarrow> ifHosts iface = [] \<and> ifHostmap iface = NewHostMap \<and>
     (\<exists>c k pool. ifMgr iface = NewHandshakeManager c k pool) \<and> (\<exists>inb outb. ifFw iface = New inb outb)"

inductive iface_reach :: "('hs, 'cs) libs \<Rightarrow> 'hs Interface \<Rightarrow> bool" for E where
  reach_init: "iface_init iface \<Longrightarrow> iface_reach E iface"
| reach_step: "iface_reach E iface \<Longrightarrow> iface_step E op iface = (iface', ev) \<Longrightarrow> iface_reach E iface'"

lemma iface_reach_step: "iface_reach E iface \<Longrightarrow> iface_reach E (fst (iface_step E op iface))"
  by (rule reach_step [where ev = "snd (iface_step E op iface)"]) simp_all

section \<open>How handlers change the sessions\<close>

definition host_fixed :: "HostInfo \<Rightarrow> HostInfo \<Rightarrow> bool" where
  "host_fixed h h' \<longleftrightarrow> same_keys h h' \<and> hRemoteIndex h' = hRemoteIndex h \<and> hSendCipher h' = hSendCipher h \<and>
     hRecvCipher h' = hRecvCipher h \<and> hCert h' = hCert h"

definition fresh_host :: "HostInfo \<Rightarrow> bool" where
  "fresh_host h \<longleftrightarrow> windowEnd h = 0 \<and> window h = emptyWindow \<and> aesKey (hSendCipher h) \<and> aesKey (hRecvCipher h)"

text \<open>Sessions are only added, fresh, and existing ones keep their keys and their replay window.\<close>

definition grows :: "host_heap \<Rightarrow> host_heap \<Rightarrow> bool" where
  "grows hp hp' \<longleftrightarrow> length hp \<le> length hp' \<and>
     (\<forall>r < length hp. host_fixed (hp ! r) (hp' ! r) \<and> windowEnd (hp' ! r) = windowEnd (hp ! r) \<and>
        window (hp' ! r) = window (hp ! r)) \<and>
     (\<forall>r. length hp \<le> r \<longrightarrow> r < length hp' \<longrightarrow> fresh_host (hp' ! r))"

lemma host_fixed_refl [simp]: "host_fixed h h"
  by (simp add: host_fixed_def same_keys_def)

lemma grows_refl [simp]: "grows hp hp"
  by (simp add: grows_def)

lemma grows_counter: "grows hp (hp[r := (hp ! r)\<lparr>hCounter := c\<rparr>])"
  by (cases "r < length hp") (auto simp: grows_def host_fixed_def same_keys_def nth_list_update list_update_beyond)

lemma grows_append: "fresh_host h \<Longrightarrow> grows hp (hp @ [h])"
  by (auto simp: grows_def nth_append less_Suc_eq)

lemma grows_trans: "grows a b \<Longrightarrow> grows b c \<Longrightarrow> grows a c"
  unfolding grows_def host_fixed_def same_keys_def fresh_host_def
  by (intro conjI allI impI) (auto, (metis leI)+)

definition data_header :: "HostInfo \<Rightarrow> u64 \<Rightarrow> Header" where
  "data_header h c = \<lparr>hdrVersion = Version, hdrType = TypeMessage, hdrSubType = 0,
     hdrRemoteIndex = hRemoteIndex h, hdrMessageCounter = c\<rparr>"

text \<open>The datagram for a payload: the header and the payload sealed under it.\<close>

definition data_packet :: "HostInfo \<Rightarrow> u64 \<Rightarrow> bytes \<Rightarrow> bytes" where
  "data_packet h c m = Bytes (data_header h c) @ Seal (hSendCipher h) (CounterNonce c) m (Bytes (data_header h c))"

lemma sendToRemote_eq:
  "sendToRemote r m iface =
     (let h = ifHosts iface ! r; c = hCounter h + 1 in
      (iface\<lparr>ifHosts := (ifHosts iface)[r := h\<lparr>hCounter := c\<rparr>]\<rparr>, [Udp (data_packet h c m) (hRemote h)]))"
  by (simp add: sendToRemote_def Encrypt_def data_packet_def data_header_def Let_def)

lemma sendAll_eq:
  "r < length (ifHosts iface) \<Longrightarrow> sendAll r ms iface =
     (let h = ifHosts iface ! r in
      (iface\<lparr>ifHosts := (ifHosts iface)[r := h\<lparr>hCounter := hCounter h + word_of_nat (length ms)\<rparr>]\<rparr>,
       map (\<lambda>(k, m). Udp (data_packet h (hCounter h + word_of_nat (Suc k)) m) (hRemote h)) (enumerate 0 ms)))"
proof (induction ms arbitrary: iface)
  case Nil
  then show ?case by (simp add: Let_def)
next
  case (Cons m ms)
  let ?h = "ifHosts iface ! r"
  let ?i = "iface\<lparr>ifHosts := (ifHosts iface)[r := ?h\<lparr>hCounter := hCounter ?h + 1\<rparr>]\<rparr>"
  have p: "data_packet (h\<lparr>hCounter := c\<rparr>) = data_packet h" for h c
    by (simp add: data_packet_def data_header_def fun_eq_iff)
  have e: "map (\<lambda>(k, m). f (Suc k) m) (enumerate 0 ms) = map (\<lambda>(k, m). f k m) (enumerate 1 ms)"
    for f :: "nat \<Rightarrow> bytes \<Rightarrow> event"
    by (rule nth_equalityI) (simp_all add: nth_enumerate_eq)
  have "sendAll r (m # ms) iface =
      (fst (sendAll r ms ?i), Udp (data_packet ?h (hCounter ?h + 1) m) (hRemote ?h) # snd (sendAll r ms ?i))"
    by (simp add: sendToRemote_eq Let_def case_prod_unfold)
  then show ?case
    using Cons.IH [of ?i] Cons.prems
      e [of "\<lambda>k m. Udp (data_packet ?h (hCounter ?h + word_of_nat (Suc k)) m) (hRemote ?h)"]
    by (simp add: Let_def p ac_simps)
qed

lemma fresh_newHost: "aesKey sc \<Longrightarrow> aesKey rc \<Longrightarrow> fresh_host (newHost ip a i ri sc rc c)"
  by (simp add: fresh_host_def newHost_def)

lemma sendAll_frame:
  "ifHostmap (fst (sendAll r ms iface)) = ifHostmap iface \<and> ifMgr (fst (sendAll r ms iface)) = ifMgr iface \<and>
   ifFw (fst (sendAll r ms iface)) = ifFw iface \<and> grows (ifHosts iface) (ifHosts (fst (sendAll r ms iface)))"
proof (induction ms arbitrary: iface)
  case (Cons m ms)
  let ?i = "fst (sendToRemote r m iface)"
  have g: "grows (ifHosts iface) (ifHosts ?i)" "ifHostmap ?i = ifHostmap iface" "ifMgr ?i = ifMgr iface"
    "ifFw ?i = ifFw iface"
    by (simp_all add: sendToRemote_eq Let_def grows_counter)
  have "fst (sendAll r (m # ms) iface) = fst (sendAll r ms ?i)"
    by (simp add: case_prod_unfold Let_def)
  with Cons.IH [of ?i] g show ?case by (auto intro: grows_trans)
qed simp

lemma onHandshakeComplete_frame:
  assumes "fresh_host h"
  shows "grows (ifHosts iface) (ifHosts (fst (onHandshakeComplete h q iface)))"
    "ifHostmap (fst (onHandshakeComplete h q iface)) = Add (ifHosts iface @ [h]) (length (ifHosts iface)) (ifHostmap iface)"
    "ifMgr (fst (onHandshakeComplete h q iface)) = ifMgr iface" "ifFw (fst (onHandshakeComplete h q iface)) = ifFw iface"
    "grows (ifHosts iface @ [h]) (ifHosts (fst (onHandshakeComplete h q iface)))"
proof -
  let ?i = "case hCert h of
      None \<Rightarrow> iface\<lparr>ifHosts := ifHosts iface @ [h], ifHostmap := Add (ifHosts iface @ [h]) (length (ifHosts iface)) (ifHostmap iface)\<rparr>
    | Some c \<Rightarrow> iface\<lparr>ifHosts := ifHosts iface @ [h], ifHostmap := Add (ifHosts iface @ [h]) (length (ifHosts iface)) (ifHostmap iface),
        ifPeerCerts := (ifPeerCerts iface)(hVpnIP h \<mapsto> c)\<rparr>"
  have e: "onHandshakeComplete h q iface = sendAll (length (ifHosts iface)) q ?i"
    by (simp add: onHandshakeComplete_def Let_def split: option.splits)
  have i: "ifHosts ?i = ifHosts iface @ [h]" "ifMgr ?i = ifMgr iface" "ifFw ?i = ifFw iface"
    "ifHostmap ?i = Add (ifHosts iface @ [h]) (length (ifHosts iface)) (ifHostmap iface)"
    by (simp_all split: option.splits)
  note f = sendAll_frame [of "length (ifHosts iface)" q ?i, unfolded i, folded e]
  from f show "grows (ifHosts iface @ [h]) (ifHosts (fst (onHandshakeComplete h q iface)))" by blast
  with grows_append [OF assms] show "grows (ifHosts iface) (ifHosts (fst (onHandshakeComplete h q iface)))"
    by (rule grows_trans)
  from f show "ifHostmap (fst (onHandshakeComplete h q iface)) = Add (ifHosts iface @ [h]) (length (ifHosts iface)) (ifHostmap iface)"
    "ifMgr (fst (onHandshakeComplete h q iface)) = ifMgr iface" "ifFw (fst (onHandshakeComplete h q iface)) = ifFw iface"
    by blast+
qed

text \<open>
  The effect of a step on the sessions and the registry: either sessions only grow and the registry
  changes by an insertion or a removal, or one session's replay window takes in a counter.
\<close>

inductive hosts_step :: "host_heap \<times> HostMap \<Rightarrow> host_heap \<times> HostMap \<Rightarrow> bool" where
  hs_grow: "grows hp hp' \<Longrightarrow> hosts_step (hp, m) (hp', m)"
| hs_add: "fresh_host h \<Longrightarrow> grows (hp @ [h]) hp' \<Longrightarrow> hosts_step (hp, m) (hp', Add (hp @ [h]) (length hp) m)"
| hs_remove: "hosts_step (hp, m) (hp, Remove hp ip m)"
| hs_replay: "GetByIndex m i = Some r \<Longrightarrow> hosts_step (hp, m) (hp[r := snd (CheckReplay c (hp ! r))], m)"

inductive_cases hosts_stepE: "hosts_step (hp, m) (hp', m')"

abbreviation (input) sessions :: "'hs Interface \<Rightarrow> host_heap \<times> HostMap" where
  "sessions iface \<equiv> (ifHosts iface, ifHostmap iface)"

lemma hosts_step_complete:
  "fresh_host h \<Longrightarrow> hosts_step (sessions iface) (sessions (fst (onHandshakeComplete h q iface)))"
  by (simp add: onHandshakeComplete_frame(2) hs_add onHandshakeComplete_frame(5))

lemma hosts_step_inside:
  "hosts_step (sessions iface) (sessions (fst (consumeInsidePacket E i pkt iface)))"
  by (auto simp: consumeInsidePacket_def Let_def case_prod_unfold sendToRemote_eq hs_grow grows_counter
      split: option.splits sum.splits)

lemma hosts_step_handshake:
  "hosts_step (sessions iface) (sessions (fst (handleHandshake E i pkt h src iface)))"
proof -
  have s0: "fresh_host host" if "fst (HandleStage0 E (inBase i) pkt src (ifMgr iface)) = Inr (host, q)" for host q
    using HandleStage0_Inr [of E "inBase i" pkt src "ifMgr iface" host q] that
    by (cases "HandleStage0 E (inBase i) pkt src (ifMgr iface)") (auto simp: fresh_newHost)
  have s1: "fresh_host host" if "fst (HandleStage1 E (inBase i) pkt (ifMgr iface)) = Inr (host, q)" for host q
    using HandleStage1_Inr [OF that] by (auto simp: fresh_newHost)
  show ?thesis
    using hosts_step_complete [OF s0, where iface = iface]
      hosts_step_complete [OF s1,
        where iface = "iface\<lparr>ifMgr := snd (HandleStage1 E (inBase i) pkt (ifMgr iface))\<rparr>"]
    by (auto simp: handleHandshake_def Let_def case_prod_unfold hs_grow split: sum.splits prod.splits)
qed

lemma hosts_step_message:
  "hosts_step (sessions iface) (sessions (fst (handleMessage i pkt h src iface)))"
  by (auto simp: handleMessage_def Let_def case_prod_unfold hs_grow hs_replay split: option.splits sum.splits)

lemma hosts_step_outside:
  "hosts_step (sessions iface) (sessions (fst (consumeOutsidePacket E i pkt src iface)))"
  using hosts_step_handshake [of iface E i pkt _ src] hosts_step_message [of iface i pkt _ src]
  by (auto simp: consumeOutsidePacket_def handleTest_def handleCloseTunnel_def handleLightHouse_def Let_def
      case_prod_unfold hs_grow hs_remove split: sum.splits option.splits)

lemma hosts_step_iface:
  "hosts_step (sessions iface) (sessions (fst (iface_step E op iface)))"
  by (cases op) (auto simp: hosts_step_inside hosts_step_outside case_prod_unfold hs_grow Let_def)

section \<open>Deliveries\<close>

definition tun_writes :: "event list \<Rightarrow> bytes list" where
  "tun_writes evs = concat (map (\<lambda>e. case e of Tun p \<Rightarrow> [p] | Udp _ _ \<Rightarrow> []) evs)"

lemma tun_writes_simps [simp]:
  "tun_writes [] = []" "tun_writes (Tun p # evs) = p # tun_writes evs" "tun_writes (Udp b a # evs) = tun_writes evs"
  "tun_writes (evs @ evs') = tun_writes evs @ tun_writes evs'" "tun_writes (udp_events ds) = []"
  by (auto simp: tun_writes_def udp_events_def split: prod.splits)

text \<open>A session accepts a datagram as the message \<open>p\<close>: what has been checked when it is written to the TUN.\<close>

definition accepts :: "'hs Interface \<Rightarrow> iface_input \<Rightarrow> bytes \<Rightarrow> href \<Rightarrow> u64 \<Rightarrow> bytes \<Rightarrow> bool" where
  "accepts iface i pkt r c p \<longleftrightarrow>
     (\<exists>h src. Parse pkt = Inr h \<and> hdrType h = TypeMessage \<and> hdrMessageCounter h = c \<and>
        GetByIndex (ifHostmap iface) (hdrRemoteIndex h) = Some r \<and>
        \<not> fst (CheckReplay c (ifHosts iface ! r)) \<and>
        Decrypt (hRecvCipher (ifHosts iface ! r)) c (take HeaderLen pkt) (drop HeaderLen pkt) = Inr p \<and>
        srcIPFromIPv4 p = Some src \<and>
        fst (AllowInbound (ifFw iface) (inNow (inBase i)) src (hostGroups iface r) (dstPortFromIPv4 p) (protoFromIPv4 p)))"

lemma CheckReplay_other [simp]:
  "hRecvCipher (snd (CheckReplay c h)) = hRecvCipher h" "hCert (snd (CheckReplay c h)) = hCert h"
  "hVpnIP (snd (CheckReplay c h)) = hVpnIP h" "hIndex (snd (CheckReplay c h)) = hIndex h"
  "hSendCipher (snd (CheckReplay c h)) = hSendCipher h" "hRemoteIndex (snd (CheckReplay c h)) = hRemoteIndex h"
  "hCounter (snd (CheckReplay c h)) = hCounter h" "hRemote (snd (CheckReplay c h)) = hRemote h"
  by (auto simp: CheckReplay_def Let_def)

lemma hostGroups_update:
  "hCert h = hCert (ifHosts iface ! r) \<Longrightarrow>
     hostGroups (iface\<lparr>ifHosts := (ifHosts iface)[r := h]\<rparr>) r' = hostGroups iface r'"
  by (cases "r < length (ifHosts iface)") (auto simp: hostGroups_def nth_list_update list_update_beyond)

lemma handleMessage_cases:
  assumes "Parse pkt = Inr h" "hdrType h = TypeMessage" "GetByIndex (ifHostmap iface) (hdrRemoteIndex h) = Some r"
    "r < length (ifHosts iface)"
  shows "(\<exists>p. accepts iface i pkt r (hdrMessageCounter h) p \<and> snd (handleMessage i pkt h src iface) = [Tun p]) \<or>
    ((\<forall>p. \<not> accepts iface i pkt r (hdrMessageCounter h) p) \<and> snd (handleMessage i pkt h src iface) = [])"
  using assms
  by (auto simp: handleMessage_def accepts_def Let_def case_prod_unfold hostGroups_update split: option.splits sum.splits)

lemma handleMessage_hosts:
  assumes "GetByIndex (ifHostmap iface) (hdrRemoteIndex h) = Some r"
  shows "ifHosts (fst (handleMessage i pkt h src iface)) =
    (ifHosts iface)[r := snd (CheckReplay (hdrMessageCounter h) (ifHosts iface ! r))]"
  using assms by (auto simp: handleMessage_def Let_def case_prod_unfold split: option.splits sum.splits)

lemma sendAll_no_tun: "tun_writes (snd (sendAll r ms iface)) = []"
  by (induction ms arbitrary: iface) (simp_all add: sendToRemote_eq Let_def case_prod_unfold)

lemma onHandshakeComplete_no_tun: "tun_writes (snd (onHandshakeComplete h q iface)) = []"
  by (simp add: onHandshakeComplete_def Let_def sendAll_no_tun)

lemma consumeOutsidePacket_Tun:
  assumes "tun_writes (snd (consumeOutsidePacket E i pkt src iface)) \<noteq> []" "hm_ok (ifHosts iface) (ifHostmap iface)"
  shows "\<exists>r c p. accepts iface i pkt r c p \<and> snd (consumeOutsidePacket E i pkt src iface) = [Tun p] \<and>
    r < length (ifHosts iface) \<and>
    ifHosts (fst (consumeOutsidePacket E i pkt src iface)) = (ifHosts iface)[r := snd (CheckReplay c (ifHosts iface ! r))]"
proof -
  have nh: "tun_writes (snd (handleHandshake E i pkt h src iface)) = []" for h
    by (auto simp: handleHandshake_def Let_def case_prod_unfold onHandshakeComplete_no_tun split: sum.splits)
  have nl: "tun_writes (snd (handleLightHouse E i pkt h src iface)) = []" for h
    by (auto simp: handleLightHouse_def Let_def case_prod_unfold split: option.splits)
  from assms(1) obtain h where h: "Parse pkt = Inr h" "hdrType h = TypeMessage"
    "consumeOutsidePacket E i pkt src iface = handleMessage i pkt h src iface"
    by (auto simp: consumeOutsidePacket_def nh nl handleTest_def split: sum.splits if_splits)
  with assms(1) obtain r where r: "GetByIndex (ifHostmap iface) (hdrRemoteIndex h) = Some r"
    by (auto simp: handleMessage_def split: option.splits)
  note l = hm_okD(2) [OF assms(2) r]
  from handleMessage_cases [OF h(1,2) r, of i src] handleMessage_hosts [OF r, of i pkt src] h(3) assms(1) l
  show ?thesis by fastforce
qed

text \<open>The messages a run writes to the TUN device, each with the session and the counter it came under.\<close>

definition delivered :: "('hs, 'cs) libs \<Rightarrow> iface_op \<Rightarrow> 'hs Interface \<Rightarrow> (href \<times> u64 \<times> bytes) list" where
  "delivered E op iface =
     (case op of
        FromUdp i pkt from \<Rightarrow>
          (case Parse pkt of
             Inl _ \<Rightarrow> []
           | Inr h \<Rightarrow>
               (case GetByIndex (ifHostmap iface) (hdrRemoteIndex h) of
                  None \<Rightarrow> []
                | Some r \<Rightarrow> map (\<lambda>p. (r, hdrMessageCounter h, p)) (tun_writes (snd (iface_step E op iface)))))
      | _ \<Rightarrow> [])"

primrec deliveries :: "('hs, 'cs) libs \<Rightarrow> iface_op list \<Rightarrow> 'hs Interface \<Rightarrow> (href \<times> u64 \<times> bytes) list" where
  "deliveries E [] iface = []"
| "deliveries E (op # ops) iface = delivered E op iface @ deliveries E ops (fst (iface_step E op iface))"

primrec run_writes :: "('hs, 'cs) libs \<Rightarrow> iface_op list \<Rightarrow> 'hs Interface \<Rightarrow> bytes list" where
  "run_writes E [] iface = []"
| "run_writes E (op # ops) iface =
     tun_writes (snd (iface_step E op iface)) @ run_writes E ops (fst (iface_step E op iface))"

lemma inside_no_tun: "tun_writes (snd (consumeInsidePacket E i pkt iface)) = []"
  by (auto simp: consumeInsidePacket_def Let_def case_prod_unfold sendToRemote_eq split: option.splits sum.splits)

text \<open>A step either delivers nothing or exactly one message, which its session accepts.\<close>

lemma delivered_cases:
  fixes E :: "('hs, 'cs) libs" and iface :: "'hs Interface"
  assumes "hm_ok (ifHosts iface) (ifHostmap iface)"
  obtains (quiet) "delivered E op iface = []" "tun_writes (snd (iface_step E op iface)) = []"
  | (one) r c p i pkt src where "op = FromUdp i pkt src" "delivered E op iface = [(r, c, p)]"
      "snd (iface_step E op iface) = [Tun p]" "accepts iface i pkt r c p" "r < length (ifHosts iface)"
      "ifHosts (fst (iface_step E op iface)) = (ifHosts iface)[r := snd (CheckReplay c (ifHosts iface ! r))]"
proof (cases "tun_writes (snd (iface_step E op iface)) = []")
  case True
  then have "delivered E op iface = []"
    by (auto simp: delivered_def split: iface_op.splits sum.splits option.splits)
  with True show ?thesis by (intro quiet)
next
  case False
  then obtain i pkt src where op: "op = FromUdp i pkt src"
    by (cases op) (auto simp: inside_no_tun case_prod_unfold Let_def)
  with False consumeOutsidePacket_Tun [OF _ assms, of E i pkt src] obtain r c p where
    a: "accepts iface i pkt r c p" "snd (iface_step E op iface) = [Tun p]" "r < length (ifHosts iface)"
      "ifHosts (fst (iface_step E op iface)) = (ifHosts iface)[r := snd (CheckReplay c (ifHosts iface ! r))]"
    by auto
  have "delivered E op iface = [(r, c, p)]"
    using a(1,2) op by (auto simp: delivered_def accepts_def)
  with one op a show ?thesis by blast
qed

section \<open>Invariants of reachable interfaces\<close>

lemma remembers_cong:
  "windowEnd h' = windowEnd h \<Longrightarrow> window h' = window h \<Longrightarrow> win.remembers h' S = win.remembers h S"
  by (simp add: win.remembers_def window_inv_def window_marked_def)

lemma fresh_host_remembers: "fresh_host h \<Longrightarrow> win.remembers h {}"
  using remembers_cong [of h "fresh_window h" "{}"] fresh_remembers [of h]
  by (simp add: fresh_host_def fresh_window_def)

text \<open>
  The replay state of all sessions: session \<open>r\<close> remembers the counters \<open>S r\<close>, and positions beyond the
  heap have seen nothing.
\<close>

definition remembering :: "host_heap \<Rightarrow> (href \<Rightarrow> nat set) \<Rightarrow> bool" where
  "remembering hp S \<longleftrightarrow> (\<forall>r < length hp. win.remembers (hp ! r) (S r)) \<and> (\<forall>r. length hp \<le> r \<longrightarrow> S r = {})"

lemma remembering_grows:
  assumes S: "remembering hp S" and g: "grows hp hp'"
  shows "remembering hp' S"
proof -
  have "win.remembers (hp' ! r) (S r)" if "r < length hp'" for r
  proof (cases "r < length hp")
    case True
    with g have "windowEnd (hp' ! r) = windowEnd (hp ! r)" "window (hp' ! r) = window (hp ! r)"
      by (auto simp: grows_def)
    from remembers_cong [OF this] S True show ?thesis by (simp add: remembering_def)
  next
    case False
    with g that have "fresh_host (hp' ! r)" by (auto simp: grows_def)
    with S False show ?thesis by (simp add: remembering_def fresh_host_remembers)
  qed
  with S g show ?thesis by (auto simp: remembering_def grows_def)
qed

lemma remembering_accept:
  assumes "remembering hp S" "r < length hp" "\<not> fst (CheckReplay c (hp ! r))"
  shows "remembering (hp[r := snd (CheckReplay c (hp ! r))]) (S(r := insert (unat c) (S r)))"
  using assms win.remembers_accept [of "hp ! r" "S r" c] by (auto simp: remembering_def nth_list_update)

lemma remembering_step:
  assumes "hosts_step (hp, m) (hp', m')" "hm_ok hp m" "remembering hp S"
  shows "\<exists>S'. remembering hp' S' \<and> (\<forall>r. S r \<subseteq> S' r)"
  using assms
proof (cases rule: hosts_step.cases)
  case hs_grow
  with assms(3) remembering_grows show ?thesis by blast
next
  case (hs_add h)
  with assms(3) remembering_grows grows_append show ?thesis by (metis order_refl)
next
  case (hs_remove ip)
  with assms(3) show ?thesis by blast
next
  case (hs_replay i r c)
  note l = hm_okD(2) [OF assms(2) hs_replay(3)]
  show ?thesis
  proof (cases "fst (CheckReplay c (hp ! r))")
    case True
    with hs_replay assms(3) show ?thesis by (auto simp: CheckReplay_reject)
  next
    case False
    with remembering_accept [OF assms(3) _ False] l hs_replay show ?thesis
      by (intro exI [of _ "S(r := insert (unat c) (S r))"]) auto
  qed
qed

lemma hm_ok_grows: "hm_ok hp m \<Longrightarrow> grows hp hp' \<Longrightarrow> hm_ok hp' m"
  by (auto simp: hm_ok_iff grows_def host_fixed_def same_keys_def) (metis order_less_le_trans)+

lemma hm_ok_hosts_step: "hosts_step (hp, m) (hp', m') \<Longrightarrow> hm_ok hp m \<Longrightarrow> hm_ok hp' m'"
  by (erule hosts_stepE)
    (auto simp: same_keys_def hm_ok_update hm_ok_remove intro: hm_ok_grows hm_ok_grows [OF hm_ok_add [OF hm_ok_grow]])

lemma iface_reach_sessions:
  "iface_reach E iface \<Longrightarrow> hm_ok (ifHosts iface) (ifHostmap iface) \<and> (\<exists>S. remembering (ifHosts iface) S)"
proof (induction rule: iface_reach.induct)
  case (reach_init iface)
  then show ?case by (auto simp: iface_init_def hm_ok_new remembering_def)
next
  case (reach_step iface op iface' ev)
  then have "hosts_step (sessions iface) (sessions iface')"
    using hosts_step_iface [of iface E op] by simp
  with reach_step hm_ok_hosts_step remembering_step show ?case by metis
qed

lemma deliveries_unseen:
  assumes "hm_ok (ifHosts iface) (ifHostmap iface)" "remembering (ifHosts iface) S"
  shows "(\<forall>(r, c, p) \<in> set (deliveries E ops iface). unat c \<notin> S r) \<and>
    distinct (map (\<lambda>(r, c, p). (r, c)) (deliveries E ops iface)) \<and>
    map (\<lambda>(r, c, p). p) (deliveries E ops iface) = run_writes E ops iface"
  using assms
proof (induction ops arbitrary: iface S)
  case (Cons op ops)
  let ?i = "fst (iface_step E op iface)"
  have ok: "hm_ok (ifHosts ?i) (ifHostmap ?i)"
    using hm_ok_hosts_step [OF hosts_step_iface Cons.prems(1)] .
  from Cons.prems(1) show ?case
  proof (cases rule: delivered_cases [where E = E and op = op])
    case quiet
    obtain S' where S': "remembering (ifHosts ?i) S'" "\<forall>r. S r \<subseteq> S' r"
      using remembering_step [OF hosts_step_iface Cons.prems] by blast
    with Cons.IH [OF ok S'(1)] quiet show ?thesis by fastforce
  next
    case (one r c p i pkt src)
    have nf: "\<not> fst (CheckReplay c (ifHosts iface ! r))" using one(4) by (auto simp: accepts_def)
    let ?S = "S(r := insert (unat c) (S r))"
    have "remembering (ifHosts ?i) ?S"
      using remembering_accept [OF Cons.prems(2) one(5) nf] one(6) by simp
    note ih = Cons.IH [OF ok this]
    have "win.remembers (ifHosts iface ! r) (S r)" using Cons.prems(2) one(5) by (simp add: remembering_def)
    from win.remembers_verdict [OF this, of c] nf have "unat c \<notin> S r" by simp
    with ih one show ?thesis by (auto split: if_splits)
  qed
qed simp

end
