(* ===== verification/Neth_Tunnel.thy ===== *)
theory Neth_Tunnel
  imports Neth_Interface "HOL-Library.Sublist"
begin

text \<open>
  The tunnel between two interfaces: what the packet pipeline of \<^verbatim>\<open>interface.go\<close> promises to the
  traffic of a session.  Streams of packets get through in order whatever datagrams are lost, nothing
  is written twice, nothing unauthenticated is written at all, and no nonce is used twice under a key;
  and what one forged datagram can do to a session.
\<close>

section \<open>Receiving a data packet\<close>

lemma Parse_data_packet: "Parse (data_packet h c p) = Inr (data_header h c)"
  unfolding data_packet_def
  by (rule hdr.dec_enc) (simp add: wire_header_def data_header_def TypeMessage_def)

lemma length_data_packet: "HeaderLen \<le> length (data_packet h c p)"
  by (simp add: data_packet_def HeaderLen_def)

text \<open>The opener of the far end inverts the sealer of the near end.\<close>

lemma Decrypt_data_packet:
  assumes "aesKey (hSendCipher h)"
  shows "Decrypt (hSendCipher h) c (take HeaderLen (data_packet h c p)) (drop HeaderLen (data_packet h c p)) = Inr p"
proof -
  let ?h = "data_header h c"
  have h: "wire_header ?h" "hdrMessageCounter ?h = c" by (simp_all add: wire_header_def data_header_def TypeMessage_def)
  have "Encrypt (hSendCipher h) (hdrMessageCounter ?h) (Bytes ?h) p =
      Inr (Seal (hSendCipher h) (CounterNonce c) p (Bytes ?h))"
    by (simp add: Encrypt_def h)
  from pkt.open_frame [OF h(1) assms this] show ?thesis unfolding data_packet_def h(2) by (rule conjunct2)
qed

lemma outside_message:
  assumes "Parse d = Inr h" "hdrType h = TypeMessage"
  shows "consumeOutsidePacket E i d src iface = handleMessage i d h src iface"
  using assms Parse_InrD(1) [OF assms(1)] by (simp add: consumeOutsidePacket_def)

lemma handleMessage_frame:
  "ifHostmap (fst (handleMessage i d h src iface)) = ifHostmap iface"
  "inbound (ifFw (fst (handleMessage i d h src iface))) = inbound (ifFw iface)"
  by (simp_all add: handleMessage_def Let_def case_prod_unfold inb.frame split: option.split sum.split)

lemma accepts_unique: "accepts iface i d r c p \<Longrightarrow> accepts iface i d r c p' \<Longrightarrow> p' = p"
  by (auto simp: accepts_def)

lemma receive_accepted:
  assumes "accepts iface i d r c p" "hm_ok (ifHosts iface) (ifHostmap iface)"
  shows "snd (consumeOutsidePacket E i d src iface) = [Tun p] \<and>
    ifHosts (fst (consumeOutsidePacket E i d src iface)) =
      (ifHosts iface)[r := snd (CheckReplay c (ifHosts iface ! r))] \<and>
    ifHostmap (fst (consumeOutsidePacket E i d src iface)) = ifHostmap iface \<and>
    inbound (ifFw (fst (consumeOutsidePacket E i d src iface))) = inbound (ifFw iface)"
proof -
  from assms(1) obtain h where h: "Parse d = Inr h" "hdrType h = TypeMessage" "hdrMessageCounter h = c"
    "GetByIndex (ifHostmap iface) (hdrRemoteIndex h) = Some r"
    by (auto simp: accepts_def)
  note l = hm_okD(2) [OF assms(2) h(4)]
  from handleMessage_cases [OF h(1,2,4), of i src] l h(3) assms(1)
  have "snd (handleMessage i d h src iface) = [Tun p]" using accepts_unique by fastforce
  then show ?thesis
    using handleMessage_hosts [OF h(4), of i d src] h(3) by (simp add: outside_message [OF h(1,2)] handleMessage_frame)
qed

text \<open>
  The receiving end of a tunnel: session \<open>r\<close> of \<open>iface\<close> is found under the index the far end \<open>a\<close>
  writes into its headers, and opens with the key the far end seals with.
\<close>

definition receiver_of :: "'hs Interface \<Rightarrow> href \<Rightarrow> HostInfo \<Rightarrow> bool" where
  "receiver_of iface r a \<longleftrightarrow> hm_ok (ifHosts iface) (ifHostmap iface) \<and> r < length (ifHosts iface) \<and>
     GetByIndex (ifHostmap iface) (hRemoteIndex a) = Some r \<and> window_inv (ifHosts iface ! r) \<and>
     hRecvCipher (ifHosts iface ! r) = hSendCipher a \<and> aesKey (hSendCipher a)"

text \<open>A packet some inbound rule covers for the peer of session \<open>r\<close>.\<close>

definition incoming :: "'hs Interface \<Rightarrow> href \<Rightarrow> bytes \<Rightarrow> bool" where
  "incoming iface r p \<longleftrightarrow> (case srcIPFromIPv4 p of None \<Rightarrow> False | Some src \<Rightarrow>
     \<exists>rule \<in> set (inbound (ifFw iface)). matches rule src (hostGroups iface r) (dstPortFromIPv4 p) (protoFromIPv4 p))"

lemma receiver_accepts:
  assumes "receiver_of iface r a" "incoming iface r p" "\<not> fst (CheckReplay c (ifHosts iface ! r))"
  shows "accepts iface i (data_packet a c p) r c p"
  using assms Decrypt_data_packet [of a c p]
  by (auto simp: accepts_def receiver_of_def incoming_def Parse_data_packet inb.verdict data_header_def
      split: option.splits)

lemma receiver_step:
  fixes E :: "('hs, 'cs) libs" and iface :: "'hs Interface" and i :: iface_input and src :: UDPAddr
  assumes "receiver_of iface r a" "incoming iface r p" "\<not> fst (CheckReplay c (ifHosts iface ! r))"
  defines "out \<equiv> consumeOutsidePacket E i (data_packet a c p) src iface"
  shows "snd out = [Tun p]" "receiver_of (fst out) r a" "incoming (fst out) r = incoming iface r"
    "ifHosts (fst out) ! r = snd (CheckReplay c (ifHosts iface ! r))"
proof -
  note a = receiver_accepts [OF assms(1-3), of i]
  from assms(1) have ok: "hm_ok (ifHosts iface) (ifHostmap iface)" and l: "r < length (ifHosts iface)"
    and w: "window_inv (ifHosts iface ! r)" by (auto simp: receiver_of_def)
  note s = receive_accepted [OF a ok, of E src, folded out_def]
  show "snd out = [Tun p]" using s by simp
  show h: "ifHosts (fst out) ! r = snd (CheckReplay c (ifHosts iface ! r))" using s l by simp
  have "hm_ok (ifHosts (fst out)) (ifHostmap (fst out))"
    using hm_ok_hosts_step [OF hosts_step_outside ok] by (simp add: out_def)
  with s l h w assms(1) show "receiver_of (fst out) r a"
    by (simp add: receiver_of_def CheckReplay_preserves)
  show "incoming (fst out) r = incoming iface r"
    using s h by (simp add: incoming_def fun_eq_iff hostGroups_def split: option.splits)
qed

section \<open>Streams\<close>

text \<open>
  Datagrams that arrive with rising counters: each is written to the TUN device, in order.  Counters
  may be skipped, so lost datagrams do not disturb the others.
\<close>

lemma receive_rising:
  assumes "receiver_of iface r a" "\<forall>(c, p) \<in> set cps. incoming iface r p"
    and "sorted_wrt (<) (map fst cps)" "\<forall>(c, p) \<in> set cps. windowEnd (ifHosts iface ! r) < c"
  shows "run_writes E (map (\<lambda>(c, p). FromUdp i (data_packet a c p) src) cps) iface = map snd cps"
  using assms
proof (induction cps arbitrary: iface)
  case (Cons cp cps)
  obtain c p where cp: "cp = (c, p)" by fastforce
  have above: "windowEnd (ifHosts iface ! r) < c" and w: "incoming iface r p" using Cons.prems cp by auto
  have inv: "window_inv (ifHosts iface ! r)" using Cons.prems(1) by (simp add: receiver_of_def)
  have fresh: "\<not> fst (CheckReplay c (ifHosts iface ! r))" using above by (simp add: CheckReplay_def Let_def)
  let ?i = "fst (consumeOutsidePacket E i (data_packet a c p) src iface)"
  note s = receiver_step [OF Cons.prems(1) w fresh, of E i src]
  have "windowEnd (ifHosts ?i ! r) = c"
    using CheckReplay_end [OF fresh] above s(4) by (simp add: max_absorb2)
  then have "\<forall>(c, p) \<in> set cps. windowEnd (ifHosts ?i ! r) < c" using Cons.prems(3) cp by auto
  moreover have "\<forall>(c, p) \<in> set cps. incoming ?i r p" using Cons.prems(2) s(3) by simp
  ultimately show ?case using Cons.IH [OF s(2)] Cons.prems(3) s(1) cp by simp
qed simp

primrec run_sends :: "('hs, 'cs) libs \<Rightarrow> iface_op list \<Rightarrow> 'hs Interface \<Rightarrow> event list" where
  "run_sends E [] iface = []"
| "run_sends E (op # ops) iface =
     snd (iface_step E op iface) @ run_sends E ops (fst (iface_step E op iface))"

text \<open>A packet for the peer of session \<open>r\<close> that some outbound rule covers.\<close>

definition outgoing :: "'hs Interface \<Rightarrow> href \<Rightarrow> bytes \<Rightarrow> bool" where
  "outgoing iface r p \<longleftrightarrow> (case dstIPFromIPv4 p of None \<Rightarrow> False | Some dst \<Rightarrow>
     GetByVpnIP (ifHostmap iface) dst = Some r \<and>
     (\<exists>rule \<in> set (outbound (ifFw iface)). matches rule dst (hostGroups iface r) (dstPortFromIPv4 p) (protoFromIPv4 p)))"

lemma send_step:
  fixes E :: "('hs, 'cs) libs" and iface :: "'hs Interface" and i :: iface_input
  assumes "outgoing iface r p" "r < length (ifHosts iface)"
  defines "h \<equiv> ifHosts iface ! r" and "iface' \<equiv> fst (consumeInsidePacket E i p iface)"
  shows "snd (consumeInsidePacket E i p iface) = [Udp (data_packet h (hCounter h + 1) p) (hRemote h)]"
    "ifHosts iface' = (ifHosts iface)[r := h\<lparr>hCounter := hCounter h + 1\<rparr>]" "outgoing iface' r = outgoing iface r"
proof -
  obtain dst where d: "dstIPFromIPv4 p = Some dst" "GetByVpnIP (ifHostmap iface) dst = Some r"
    "fst (AllowOutbound (ifFw iface) (inNow (inBase i)) dst (hostGroups iface r) (dstPortFromIPv4 p) (protoFromIPv4 p))"
    using assms(1) by (auto simp: outgoing_def outb.verdict split: option.splits)
  then have e: "consumeInsidePacket E i p iface =
      sendToRemote r p (iface\<lparr>ifFw := snd (AllowOutbound (ifFw iface) (inNow (inBase i)) dst (hostGroups iface r)
        (dstPortFromIPv4 p) (protoFromIPv4 p))\<rparr>)"
    by (simp add: consumeInsidePacket_def Let_def case_prod_unfold)
  then show "snd (consumeInsidePacket E i p iface) = [Udp (data_packet h (hCounter h + 1) p) (hRemote h)]"
    and h: "ifHosts iface' = (ifHosts iface)[r := h\<lparr>hCounter := hCounter h + 1\<rparr>]"
    by (simp_all add: sendToRemote_eq Let_def h_def iface'_def)
  have "hostGroups iface' r = hostGroups iface r" using assms(2) by (simp add: hostGroups_def h h_def)
  then show "outgoing iface' r = outgoing iface r"
    by (simp add: outgoing_def fun_eq_iff iface'_def e sendToRemote_eq Let_def outb.frame split: option.splits)
qed

lemma data_packet_counter [simp]: "data_packet (h\<lparr>hCounter := c\<rparr>) = data_packet h"
  by (simp add: data_packet_def data_header_def fun_eq_iff)

lemma send_stream:
  assumes "r < length (ifHosts iface)" "\<forall>p \<in> set pkts. outgoing iface r p"
  defines "h \<equiv> ifHosts iface ! r"
  shows "run_sends E (map (FromTun i) pkts) iface =
    map (\<lambda>k. Udp (data_packet h (hCounter h + word_of_nat (Suc k)) (pkts ! k)) (hRemote h)) [0..<length pkts]"
  using assms(1,2) unfolding h_def
proof (induction pkts arbitrary: iface)
  case (Cons p pkts)
  let ?h = "ifHosts iface ! r" and ?i = "fst (consumeInsidePacket E i p iface)"
  have "outgoing iface r p" using Cons.prems by simp
  note s = send_step [OF this Cons.prems(1), of E i]
  have "run_sends E (map (FromTun i) pkts) ?i =
      map (\<lambda>k. Udp (data_packet ?h (hCounter ?h + 1 + word_of_nat (Suc k)) (pkts ! k)) (hRemote ?h)) [0..<length pkts]"
    using Cons.IH [of ?i] Cons.prems s(2,3) by simp
  moreover have "[0..<length (p # pkts)] = 0 # map Suc [0..<length pkts]"
    by (simp only: length_Cons upt_conv_Cons map_Suc_upt zero_less_Suc)
  ultimately show ?case using s(1) by (simp add: ac_simps)
qed simp

lemma counter_offset:
  fixes c :: u64
  assumes "unat c + k < 2 ^ 64"
  shows "unat (c + word_of_nat k) = unat c + k"
proof -
  have "unat (word_of_nat k :: u64) = k" using assms by (simp add: unat_of_nat)
  then show ?thesis using assms by (simp add: unat_plus_if_size word_size)
qed

lemma send_stream_datagrams:
  assumes "r < length (ifHosts iface)" "\<forall>p \<in> set pkts. outgoing iface r p"
    and "unat (hCounter (ifHosts iface ! r)) + length pkts < 2 ^ 64"
  obtains cps where "sorted_wrt (<) (map fst cps)" "\<forall>(c, p) \<in> set cps. hCounter (ifHosts iface ! r) < c"
    "map snd cps = pkts"
    "\<And>E :: ('hs, 'cs) libs. run_sends E (map (FromTun i) pkts) iface =
      map (\<lambda>d. Udp d (hRemote (ifHosts iface ! r))) (map (\<lambda>(c, p). data_packet (ifHosts iface ! r) c p) cps)"
proof
  let ?c = "hCounter (ifHosts iface ! r)"
  let ?cps = "map (\<lambda>k. (?c + word_of_nat (Suc k), pkts ! k)) [0..<length pkts]"
  have u: "unat (?c + word_of_nat (Suc k)) = unat ?c + Suc k" if "k < length pkts" for k
    using counter_offset [of ?c "Suc k"] assms(3) that by simp
  show "sorted_wrt (<) (map fst ?cps)"
    by (auto simp: sorted_wrt_iff_nth_less word_less_nat_alt u simp del: of_nat_Suc)
  show "\<forall>(c, p) \<in> set ?cps. ?c < c" by (auto simp: word_less_nat_alt u simp del: of_nat_Suc)
  show "map snd ?cps = pkts" by (simp add: comp_def map_nth)
  show "run_sends E (map (FromTun i) pkts) iface =
      map (\<lambda>d. Udp d (hRemote (ifHosts iface ! r))) (map (\<lambda>(c, p). data_packet (ifHosts iface ! r) c p) ?cps)"
    for E :: "('hs, 'cs) libs"
    using send_stream [OF assms(1,2), of E i] by simp
qed

section \<open>Replay windows only move forward\<close>

primrec run_state :: "('hs, 'cs) libs \<Rightarrow> iface_op list \<Rightarrow> 'hs Interface \<Rightarrow> 'hs Interface" where
  "run_state E [] iface = iface"
| "run_state E (op # ops) iface = run_state E ops (fst (iface_step E op iface))"

lemma CheckReplay_window_mono: "windowEnd h \<le> windowEnd (snd (CheckReplay c h))"
  by (cases "fst (CheckReplay c h)") (simp_all add: CheckReplay_reject CheckReplay_end)

lemma CheckReplay_top: "windowEnd (snd (CheckReplay (-1) h)) = -1"
proof (cases "windowEnd h = -1")
  case True
  with CheckReplay_window_mono [of h "-1"] show ?thesis by (simp add: word_order.extremum_unique)
next
  case False
  then have "windowEnd h < -1" by (simp add: word_order.not_eq_extremum)
  then show ?thesis by (simp add: CheckReplay_def Let_def)
qed

lemma CheckReplay_old:
  assumes "windowEnd h = -1" "unat c + 4096 < 2 ^ 64"
  shows "fst (CheckReplay c h)"
proof -
  have "unat (-1 :: u64) = 2 ^ 64 - 1" by (simp add: unsigned_minus_1_eq_mask mask_eq_exp_minus_1)
  then have "unat (-1 - c) = 2 ^ 64 - 1 - unat c"
    using assms(2) by (simp add: unat_sub_if_size word_size)
  then have "replayWindowSize \<le> -1 - c"
    using assms(2) by (simp add: word_le_nat_alt replayWindowSize_def)
  then show ?thesis using assms(1) by (simp add: CheckReplay_def Let_def word_order.extremum_strict)
qed

lemma hosts_step_window:
  assumes "hosts_step (hp, m) (hp', m')" "r < length hp"
  shows "r < length hp' \<and> windowEnd (hp ! r) \<le> windowEnd (hp' ! r)"
  using assms
proof (cases rule: hosts_step.cases)
  case hs_grow
  with assms(2) show ?thesis by (auto simp: grows_def)
next
  case (hs_add h)
  with assms(2) show ?thesis by (auto simp: grows_def nth_append)
next
  case (hs_remove ip)
  with assms(2) show ?thesis by simp
next
  case (hs_replay i r' c)
  with assms(2) CheckReplay_window_mono [of "hp ! r" c] show ?thesis by (cases "r' = r") simp_all
qed

lemma run_state_window:
  "r < length (ifHosts iface) \<Longrightarrow>
     r < length (ifHosts (run_state E ops iface)) \<and>
     windowEnd (ifHosts iface ! r) \<le> windowEnd (ifHosts (run_state E ops iface) ! r)"
proof (induction ops arbitrary: iface)
  case (Cons op ops)
  from hosts_step_window [OF hosts_step_iface Cons.prems, of E op]
  have "r < length (ifHosts (fst (iface_step E op iface)))"
    "windowEnd (ifHosts iface ! r) \<le> windowEnd (ifHosts (fst (iface_step E op iface)) ! r)" by auto
  with Cons.IH [OF this(1)] show ?case by auto
qed simp

lemma replayed_dropped:
  assumes "GetByIndex (ifHostmap iface) (hRemoteIndex a) = Some r" "fst (CheckReplay c (ifHosts iface ! r))"
  shows "consumeOutsidePacket E j (data_packet a c p) src iface = (iface, [])"
proof -
  have "hdrType (data_header a c) = TypeMessage" by (simp add: data_header_def)
  note o = outside_message [OF Parse_data_packet this, of E j p src iface]
  have "snd (CheckReplay c (ifHosts iface ! r)) = ifHosts iface ! r" using CheckReplay_reject assms(2) .
  then show ?thesis
    using assms unfolding o by (simp add: handleMessage_def data_header_def Let_def case_prod_unfold)
qed

section \<open>Completed handshakes\<close>

lemma udp_events_Nil [simp]: "udp_events [] = []"
  by (simp add: udp_events_def)

lemma outside_stage0:
  assumes "handshake_datagram HandshakeInitiation d" "HandleStage0 E (inBase i) d src (ifMgr iface) = (Inr (h, q), out)"
  shows "consumeOutsidePacket E i d src iface =
    (fst (onHandshakeComplete h q iface), udp_events out @ snd (onHandshakeComplete h q iface))"
proof -
  from assms(1) obtain hd where h: "Parse d = Inr hd" "hdrType hd = TypeHandshake" "hdrSubType hd = HandshakeInitiation"
    by (auto simp: handshake_datagram_def)
  from Parse_InrD(1) [OF h(1)] h assms(2) show ?thesis
    by (simp add: consumeOutsidePacket_def handleHandshake_def TypeHandshake_def TypeMessage_def case_prod_unfold Let_def)
qed

lemma outside_stage1:
  assumes "handshake_datagram HandshakeResponse d" "fst (HandleStage1 E (inBase i) d (ifMgr iface)) = Inr (h, q)"
  shows "consumeOutsidePacket E i d src iface =
    onHandshakeComplete h q (iface\<lparr>ifMgr := snd (HandleStage1 E (inBase i) d (ifMgr iface))\<rparr>)"
proof -
  from assms(1) obtain hd where h: "Parse d = Inr hd" "hdrType hd = TypeHandshake" "hdrSubType hd = HandshakeResponse"
    by (auto simp: handshake_datagram_def)
  from Parse_InrD(1) [OF h(1)] h assms(2) show ?thesis
    by (simp add: consumeOutsidePacket_def handleHandshake_def TypeHandshake_def TypeMessage_def
        HandshakeResponse_def HandshakeInitiation_def case_prod_unfold Let_def)
qed

text \<open>Completion registers the session at the end of the heap and sends the queue under counters 1, 2, ...\<close>

lemma complete_session:
  "ifHosts (fst (onHandshakeComplete h [] iface)) = ifHosts iface @ [h]"
  "ifHostmap (fst (onHandshakeComplete h [] iface)) = Add (ifHosts iface @ [h]) (length (ifHosts iface)) (ifHostmap iface)"
  "ifFw (fst (onHandshakeComplete h [] iface)) = ifFw iface" "snd (onHandshakeComplete h [] iface) = []"
  by (simp_all add: onHandshakeComplete_def Let_def split: option.splits)

lemma complete_receives:
  assumes "fresh_host h" "hm_ok (ifHosts iface) (ifHostmap iface)" "hSendCipher a = hRecvCipher h"
    "hRemoteIndex a = hIndex h"
  shows "receiver_of (fst (onHandshakeComplete h [] iface)) (length (ifHosts iface)) a"
proof -
  have "hm_ok (ifHosts iface @ [h]) (Add (ifHosts iface @ [h]) (length (ifHosts iface)) (ifHostmap iface))"
    using assms(2) by (intro hm_ok_add hm_ok_grow) simp_all
  moreover have "GetByIndex (Add (ifHosts iface @ [h]) (length (ifHosts iface)) (ifHostmap iface)) (hIndex h) =
      Some (length (ifHosts iface))"
    using hm.lookup_after_add(2) [of "ifHosts iface @ [h]" "length (ifHosts iface)"] by simp
  moreover have "window_inv h" using fresh_host_remembers [OF assms(1)] by (simp add: win.remembers_def)
  ultimately show ?thesis using assms by (simp add: receiver_of_def complete_session fresh_host_def)
qed

lemma complete_flushes:
  "snd (onHandshakeComplete h q iface) = map (\<lambda>d. Udp d (hRemote h))
     (map (\<lambda>(c, p). data_packet h c p) (map (\<lambda>(k, p). (hCounter h + word_of_nat (Suc k), p)) (enumerate 0 q)))"
proof -
  let ?r = "length (ifHosts iface)"
  obtain i where i: "onHandshakeComplete h q iface = sendAll ?r q i" "ifHosts i = ifHosts iface @ [h]"
    by (cases "hCert h") (simp_all add: onHandshakeComplete_def Let_def)
  show ?thesis unfolding i(1) using sendAll_eq [of ?r i q] i(2) by (simp add: Let_def case_prod_unfold)
qed

section \<open>A sample pair of interfaces\<close>

text \<open>Node \<open>k\<close> of the sample pair, open to all traffic, which knows the certificate and the address of node \<open>n\<close>.\<close>

definition sample_rule :: Rule where
  "sample_rule = RuleZero\<lparr>rPortAny := True, rGroupAny := True, rCIDAny := True\<rparr>"

definition sample_iface :: "byte \<Rightarrow> byte \<Rightarrow> nat Interface" where
  "sample_iface k n =
     \<lparr>ifHosts = [], ifHostmap = NewHostMap, ifMgr = sample_manager k, ifFw = New [sample_rule] [sample_rule],
      ifLh = AddStaticEntry (Addr4 (ucast n)) \<lparr>udpIP = [], udpPort = 1\<rparr> (NewLightHouse False [] []), ifPunchy = None,
      ifPeerCerts = [Addr4 (ucast n) \<mapsto> sample_cert n]\<rparr>"

definition sample_pkt :: "byte \<Rightarrow> bytes" where
  "sample_pkt b = [0x45, 0, 0, 21, 0, 0, 0, 0, 64, 1, 0, 0, 0, 0, 0, 1, 0, 0, 0, 2, b]"

definition sample_in :: "byte \<Rightarrow> iface_input" where
  "sample_in b = \<lparr>inBase = sample_input b, inOrder = []\<rparr>"

lemma sample_sel [simp]: "ifMgr (sample_iface k n) = sample_manager k" "inBase (sample_in b) = sample_input b"
  by (simp_all add: sample_iface_def sample_in_def)

lemma sample_iface_reach: "iface_reach E (sample_iface k n)"
  by (rule reach_init) (auto simp: iface_init_def sample_iface_def sample_manager_def)

lemma sample_matches: "matches sample_rule ip gs port p"
  by (simp add: matches_def sample_rule_def RuleZero_def ProtoAny_def)

lemma sample_pkt_ips: "dstIPFromIPv4 (sample_pkt b) = Some (Addr4 2)" "srcIPFromIPv4 (sample_pkt b) = Some (Addr4 1)"
  by (simp_all add: dstIPFromIPv4_def srcIPFromIPv4_def sample_pkt_def slice_def AddrFrom4_def get_be_def)

text \<open>A packet from the second node to the address in the first one's certificate.\<close>

definition sample_reply :: "byte \<Rightarrow> bytes" where
  "sample_reply b = [0x45, 0, 0, 21, 0, 0, 0, 0, 64, 1, 0, 0, 10, 0, 0, 2, 10, 0, 0, 1, b]"

lemma sample_reply_ip: "dstIPFromIPv4 (sample_reply b) = Some (pfxAddr (VpnIP (sample_cert 1)))"
  by (simp add: dstIPFromIPv4_def sample_reply_def slice_def AddrFrom4_def get_be_def sample_cert_def PrefixFrom_def withoutZone_def)

text \<open>A session of the second node with the first: its index, the peer's, and the two keys.\<close>

definition sample_end :: "byte \<Rightarrow> byte \<Rightarrow> AEAD \<Rightarrow> AEAD \<Rightarrow> HostInfo" where
  "sample_end i j sk rk = newHost (pfxAddr (VpnIP (sample_cert 1))) \<lparr>udpIP = [], udpPort = 2\<rparr>
     (get_le [i, 0, 0, 0]) (get_le [j, 0, 0, 0]) sk rk (sample_cert 1)"

lemma sample_end_sel [simp]:
  "windowEnd (sample_end i j sk rk) = 0" "hCounter (sample_end i j sk rk) = 0" "hSendCipher (sample_end i j sk rk) = sk"
  "hRecvCipher (sample_end i j sk rk) = rk" "hRemote (sample_end i j sk rk) = \<lparr>udpIP = [], udpPort = 2\<rparr>"
  "hCert (sample_end i j sk rk) = Some (sample_cert 1)" "hVpnIP (sample_end i j sk rk) = pfxAddr (VpnIP (sample_cert 1))"
  "hIndex (sample_end i j sk rk) = get_le [i, 0, 0, 0]" "hRemoteIndex (sample_end i j sk rk) = get_le [j, 0, 0, 0]"
  by (simp_all add: sample_end_def newHost_def)

text \<open>The second node answers the first one's handshake.\<close>

lemma sample_stage0:
  obtains p0 p1 k1 k2 where "aesKey k1" "aesKey k2" "handshake_datagram HandshakeInitiation p0"
    "HandleStage0 sample_libs (sample_input 8) p0 \<lparr>udpIP = [], udpPort = 2\<rparr> (sample_manager 2) =
      (Inr (sample_end 8 7 k2 k1, []), [(p1, \<lparr>udpIP = [], udpPort = 2\<rparr>)])"
proof -
  let ?u = "\<lparr>udpIP = [], udpPort = 2\<rparr>"
  have v: "Verify (libL sample_libs) (localCert (sample_manager 1)) (caPool (sample_manager 2)) (inNow (sample_input 8)) = Inr ()"
    "Verify (libL sample_libs) (localCert (sample_manager 2)) (caPool (sample_manager 1)) (inNow (sample_input 9)) = Inr ()"
    "pending (sample_manager 1) (Addr4 2) = None" "inSendOk (sample_input b) p u" for b p u
    by (simp_all add: sample_verify)
  from handshake_run [OF sample_agree v(1-3) sample_manager_sel(5) sample_manager_sel(5) v(4) v(4), of 7 ?u ?u "[]"] that
  show ?thesis unfolding sample_manager_sel sample_end_def by blast
qed

text \<open>The second node after it: a reachable state with a session.\<close>

lemma sample_established:
  assumes "aesKey k1" "aesKey k2"
  defines "iface \<equiv> fst (onHandshakeComplete (sample_end 8 7 k2 k1) [] (sample_iface 2 1))"
  shows "receiver_of iface 0 (sample_end 7 8 k1 k2)" "incoming iface 0 (sample_pkt b)" "outgoing iface 0 (sample_reply b)"
    "ifHosts iface = [sample_end 8 7 k2 k1]"
proof -
  have i: "ifHosts (sample_iface 2 1) = []" "ifHostmap (sample_iface 2 1) = NewHostMap"
    "ifFw (sample_iface 2 1) = New [sample_rule] [sample_rule]"
    by (simp_all add: sample_iface_def)
  have "fresh_host (sample_end 8 7 k2 k1)" using assms(1,2) by (simp add: sample_end_def fresh_newHost)
  then have "receiver_of iface (length (ifHosts (sample_iface 2 1))) (sample_end 7 8 k1 k2)"
    unfolding iface_def by (rule complete_receives) (simp_all add: i hm_ok_new)
  then show "receiver_of iface 0 (sample_end 7 8 k1 k2)" by (simp add: i)
  show "incoming iface 0 (sample_pkt b)" "outgoing iface 0 (sample_reply b)" "ifHosts iface = [sample_end 8 7 k2 k1]"
    by (simp_all add: iface_def i complete_session incoming_def outgoing_def sample_pkt_ips sample_reply_ip sample_matches
        New_def Add_def GetByVpnIP_def)
qed

lemma sample_session:
  obtains iface a where "iface_reach sample_libs iface" "receiver_of iface 0 a" "\<forall>b. incoming iface 0 (sample_pkt b)"
    "windowEnd (ifHosts iface ! 0) = 0" "\<forall>b. outgoing iface 0 (sample_reply b)"
proof -
  obtain p0 p1 k1 k2 where k: "aesKey k1" "aesKey k2" and d: "handshake_datagram HandshakeInitiation p0" and
    s: "HandleStage0 sample_libs (sample_input 8) p0 \<lparr>udpIP = [], udpPort = 2\<rparr> (sample_manager 2) =
      (Inr (sample_end 8 7 k2 k1, []), [(p1, \<lparr>udpIP = [], udpPort = 2\<rparr>)])"
    by (rule sample_stage0)
  note e = sample_established [OF k]
  have "iface_reach sample_libs (fst (iface_step sample_libs (FromUdp (sample_in 8) p0 \<lparr>udpIP = [], udpPort = 2\<rparr>) (sample_iface 2 1)))"
    by (rule iface_reach_step [OF sample_iface_reach])
  then show ?thesis
    using outside_stage0 [OF d, of sample_libs "sample_in 8" _ "sample_iface 2 1"] s e
    by (intro that [of "fst (onHandshakeComplete (sample_end 8 7 k2 k1) [] (sample_iface 2 1))"]) simp_all
qed

definition sample_src :: UDPAddr where
  "sample_src = \<lparr>udpIP = [], udpPort = 9\<rparr>"

lemma sample_delivery:
  obtains iface d where "iface_reach sample_libs iface"
    "run_writes sample_libs [FromUdp (sample_in 1) d sample_src] iface = [sample_pkt 5]"
    "Tun (sample_pkt 5) \<in> set (snd (iface_step sample_libs (FromUdp (sample_in 1) d sample_src) iface))"
proof -
  obtain iface a where s: "iface_reach sample_libs iface" "receiver_of iface 0 a" "\<forall>b. incoming iface 0 (sample_pkt b)"
    "windowEnd (ifHosts iface ! 0) = 0" using sample_session by metis
  then have "\<not> fst (CheckReplay 1 (ifHosts iface ! 0))" by (simp add: CheckReplay_def Let_def)
  from receiver_step(1) [OF s(2) _ this, of "sample_pkt 5" sample_libs "sample_in 1" sample_src] s show ?thesis
    by (intro that [of iface "data_packet a 1 (sample_pkt 5)"]) simp_all
qed

text \<open>The two ends of an established sample tunnel.\<close>

definition sample_up :: "u32 \<Rightarrow> u32 \<Rightarrow> Addr \<Rightarrow> nat Interface" where
  "sample_up idx ridx ip =
     (let h = newHost ip \<lparr>udpIP = [], udpPort = 1\<rparr> idx ridx (replicate 32 (ucast idx)) (replicate 32 (ucast ridx)) (sample_cert 1)
      in (sample_iface 1 2)\<lparr>ifHosts := [h], ifHostmap := Add [h] 0 NewHostMap\<rparr>)"

lemma sample_up_hosts:
  "ifHosts (sample_up idx ridx ip) = [newHost ip \<lparr>udpIP = [], udpPort = 1\<rparr> idx ridx (replicate 32 (ucast idx))
     (replicate 32 (ucast ridx)) (sample_cert 1)]"
  by (simp add: sample_up_def Let_def)

lemma sample_up_tunnel:
  "receiver_of (sample_up 8 7 (Addr4 1)) 0 (ifHosts (sample_up 7 8 (Addr4 2)) ! 0)"
  "outgoing (sample_up 7 8 (Addr4 2)) 0 (sample_pkt b)" "incoming (sample_up 8 7 (Addr4 1)) 0 (sample_pkt b)"
proof -
  have w: "window_inv (newHost ip a i ri sc rc c)" for ip a i ri sc rc c
    using fresh_window_inv [of "newHost ip a i ri sc rc c"] by (simp add: fresh_window_def newHost_def)
  let ?up = "sample_up 8 7 (Addr4 1)"
  have m: "ifHostmap ?up = Add (ifHosts ?up) 0 NewHostMap" by (simp add: sample_up_def Let_def)
  have "hm_ok (ifHosts ?up) (ifHostmap ?up)"
    unfolding m by (intro hm_ok_add hm_ok_new) (simp add: sample_up_hosts)
  then show "receiver_of ?up 0 (ifHosts (sample_up 7 8 (Addr4 2)) ! 0)"
    unfolding receiver_of_def by (simp add: m sample_up_hosts w aesKey_def) (simp add: newHost_def Add_def GetByIndex_def aesKey_def)
  show "outgoing (sample_up 7 8 (Addr4 2)) 0 (sample_pkt b)" "incoming (sample_up 8 7 (Addr4 1)) 0 (sample_pkt b)"
    by (simp_all add: outgoing_def incoming_def sample_pkt_ips sample_up_def Let_def sample_iface_def New_def sample_matches
        Add_def GetByVpnIP_def newHost_def)
qed

section \<open>Properties\<close>

text \<open>
  C3: a tunnel carries its traffic.  Every packet the sender's TUN device hands over, addressed to the
  peer and covered by an outbound rule, leaves as one datagram to that peer; and whichever of these
  datagrams are lost on the way, the receiver writes exactly the packets of the others to its TUN
  device, byte for byte and in order, as far as an inbound rule covers them.
\<close>
theorem tunnel_stream:
  assumes "rA < length (ifHosts ifA)" "receiver_of ifB rB (ifHosts ifA ! rA)"
    and "windowEnd (ifHosts ifB ! rB) \<le> hCounter (ifHosts ifA ! rA)"
    and "unat (hCounter (ifHosts ifA ! rA)) + length pkts < 2 ^ 64"
    and "\<forall>p \<in> set pkts. outgoing ifA rA p \<and> incoming ifB rB p"
  shows "\<exists>ds. run_sends E (map (FromTun i) pkts) ifA = map (\<lambda>d. Udp d (hRemote (ifHosts ifA ! rA))) ds \<and>
    (\<forall>I. run_writes E (map (\<lambda>d. FromUdp j d src) (nths ds I)) ifB = nths pkts I)"
proof -
  let ?a = "ifHosts ifA ! rA"
  from assms(5) have "\<forall>p \<in> set pkts. outgoing ifA rA p" by blast
  from send_stream_datagrams [OF assms(1) this assms(4)] obtain cps where
    cps: "sorted_wrt (<) (map fst cps)" "\<forall>(c, p) \<in> set cps. hCounter ?a < c" "map snd cps = pkts"
      "run_sends E (map (FromTun i) pkts) ifA =
        map (\<lambda>d. Udp d (hRemote ?a)) (map (\<lambda>(c, p). data_packet ?a c p) cps)"
    by metis
  have "run_writes E (map (\<lambda>d. FromUdp j d src) (nths (map (\<lambda>(c, p). data_packet ?a c p) cps) I)) ifB = nths pkts I" for I
  proof -
    have sub: "set (nths cps I) \<subseteq> set cps" by (rule set_nths_subset)
    have "sorted_wrt (<) (map fst (nths cps I))"
      using cps(1) unfolding nths_map [symmetric] strict_sorted_iff by (blast intro: sorted_nths distinct_nthsI)
    moreover have "\<forall>(c, p) \<in> set (nths cps I). incoming ifB rB p"
      using sub assms(5) cps(3) by fastforce
    moreover have "\<forall>(c, p) \<in> set (nths cps I). windowEnd (ifHosts ifB ! rB) < c"
    proof safe
      fix c p
      assume "(c, p) \<in> set (nths cps I)"
      with sub cps(2) have "hCounter ?a < c" by auto
      with assms(3) show "windowEnd (ifHosts ifB ! rB) < c" by (rule le_less_trans)
    qed
    ultimately have "run_writes E (map (\<lambda>(c, p). FromUdp j (data_packet ?a c p) src) (nths cps I)) ifB =
        map snd (nths cps I)"
      using receive_rising [OF assms(2)] by blast
    then show ?thesis by (simp add: nths_map cps(3) [symmetric] comp_def case_prod_unfold)
  qed
  with cps(4) show ?thesis by blast
qed

theorem tunnel_stream_witness:
  "\<exists>ds. run_sends sample_libs (map (FromTun (sample_in 1)) [sample_pkt 1, sample_pkt 2, sample_pkt 3]) (sample_up 7 8 (Addr4 2)) =
      map (\<lambda>d. Udp d \<lparr>udpIP = [], udpPort = 1\<rparr>) ds \<and>
    run_writes sample_libs (map (\<lambda>d. FromUdp (sample_in 2) d sample_src) (nths ds {0, 2})) (sample_up 8 7 (Addr4 1)) =
      [sample_pkt 1, sample_pkt 3]"
proof -
  have "nths [sample_pkt 1, sample_pkt 2, sample_pkt 3] {0, 2} = [sample_pkt 1, sample_pkt 3]"
    by (simp add: nths_Cons)
  then show ?thesis
    using tunnel_stream [of 0 "sample_up 7 8 (Addr4 2)" "sample_up 8 7 (Addr4 1)" 0 "[sample_pkt 1, sample_pkt 2, sample_pkt 3]"
        sample_libs "sample_in 1" "sample_in 2" sample_src] sample_up_tunnel
    by (simp add: sample_up_hosts newHost_def) metis
qed

text \<open>
  At most once.  In any run of the daemon, whatever datagrams arrive in whatever order and however
  often, no session ever delivers two packets under the same counter; and these deliveries are all
  that is ever written to the TUN device.
\<close>
theorem at_most_once_delivery:
  assumes "iface_reach E iface"
  shows "distinct (map (\<lambda>(r, c, p). (r, c)) (deliveries E ops iface)) \<and>
    map (\<lambda>(r, c, p). p) (deliveries E ops iface) = run_writes E ops iface"
  using iface_reach_sessions [OF assms] deliveries_unseen [of iface _ E ops] by blast

theorem at_most_once_delivery_witness:
  "\<exists>iface op. iface_reach sample_libs iface \<and> run_writes sample_libs [op] iface = [sample_pkt 5] \<and>
    distinct (map (\<lambda>(r, c, p). (r, c)) (deliveries sample_libs [op, op] iface)) \<and>
    map (\<lambda>(r, c, p). p) (deliveries sample_libs [op] iface) = [sample_pkt 5]"
proof -
  obtain iface d where "iface_reach sample_libs iface" "run_writes sample_libs [FromUdp (sample_in 1) d sample_src] iface = [sample_pkt 5]"
    by (rule sample_delivery)
  with at_most_once_delivery show ?thesis by metis
qed

text \<open>
  C12: only authenticated, admitted packets reach the TUN device.  A step writes at most one packet, and
  only if it came in a data packet for a live session, under a counter that session has not seen,
  opened under the session's receive key with the header as additional data, and passed the inbound
  firewall with the groups of the session's certificate.
\<close>
theorem tun_write_authenticated:
  assumes "iface_reach E iface" "Tun p \<in> set (snd (iface_step E op iface))"
  shows "\<exists>i pkt src r c. op = FromUdp i pkt src \<and> snd (iface_step E op iface) = [Tun p] \<and>
    r < length (ifHosts iface) \<and> accepts iface i pkt r c p"
proof -
  from iface_reach_sessions [OF assms(1)] have "hm_ok (ifHosts iface) (ifHostmap iface)" by blast
  then show ?thesis
  proof (cases rule: delivered_cases [where E = E and op = op])
    case quiet
    from assms(2) have "p \<in> set (tun_writes (snd (iface_step E op iface)))" by (force simp: tun_writes_def)
    with quiet show ?thesis by simp
  next
    case (one r c q i pkt src)
    with assms(2) show ?thesis by auto
  qed
qed

theorem tun_write_authenticated_witness:
  "\<exists>iface d. Tun (sample_pkt 5) \<in> set (snd (iface_step sample_libs (FromUdp (sample_in 1) d sample_src) iface)) \<and>
    (\<exists>i r c. accepts iface i d r c (sample_pkt 5))"
proof -
  obtain iface d where d: "iface_reach sample_libs iface"
    "Tun (sample_pkt 5) \<in> set (snd (iface_step sample_libs (FromUdp (sample_in 1) d sample_src) iface))"
    by (rule sample_delivery) auto
  with tun_write_authenticated [OF d] show ?thesis by blast
qed

text \<open>
  C27: a forged datagram can silence a session for good.  The replay window moves before the packet is
  authenticated, so one datagram that names a session's index and carries the highest counter, with
  any body that does not decrypt, is dropped itself; but whatever happens afterwards, the session drops
  every packet whose counter is not among the last 4096 of the counter range, genuine or not.
\<close>
theorem forged_counter_silences_session:
  assumes "iface_reach E iface" "GetByIndex (ifHostmap iface) (hRemoteIndex h) = Some r"
    and "\<forall>p. Decrypt (hRecvCipher (ifHosts iface ! r)) (-1) (Bytes (data_header h (-1))) body \<noteq> Inr p"
  shows "let (iface', ev) = consumeOutsidePacket E i (Bytes (data_header h (-1)) @ body) src iface;
      iface'' = run_state E ops iface'
    in ev = [] \<and>
      (\<forall>j a c p src'. GetByIndex (ifHostmap iface'') (hRemoteIndex a) = Some r \<longrightarrow> unat c + 4096 < 2 ^ 64 \<longrightarrow>
        consumeOutsidePacket E j (data_packet a c p) src' iface'' = (iface'', []))"
proof -
  let ?h = "data_header h (-1)" and ?d = "Bytes (data_header h (-1)) @ body"
  let ?i = "fst (consumeOutsidePacket E i ?d src iface)"
  have p: "Parse ?d = Inr ?h" by (rule hdr.dec_enc) (simp add: wire_header_def data_header_def TypeMessage_def)
  have t: "hdrType ?h = TypeMessage" "hdrMessageCounter ?h = -1" "hdrRemoteIndex ?h = hRemoteIndex h"
    by (simp_all add: data_header_def)
  from iface_reach_sessions [OF assms(1)] have ok: "hm_ok (ifHosts iface) (ifHostmap iface)" by blast
  note l = hm_okD(2) [OF ok assms(2)]
  have body: "take HeaderLen ?d = Bytes ?h" "drop HeaderLen ?d = body" by (rule hdr.frame_header hdr.frame_body)+
  have ev: "snd (consumeOutsidePacket E i ?d src iface) = []"
    using handleMessage_cases [OF p t(1), of iface r i src] assms(2,3) l p t body
    by (auto simp: outside_message [OF p t(1)] accepts_def)
  have "ifHosts ?i = (ifHosts iface)[r := snd (CheckReplay (-1) (ifHosts iface ! r))]"
    using handleMessage_hosts [of iface ?h r i ?d src] assms(2) t by (simp add: outside_message [OF p t(1)])
  then have w: "r < length (ifHosts ?i)" "windowEnd (ifHosts ?i ! r) = -1"
    using l by (simp_all add: CheckReplay_top)
  let ?j = "run_state E ops ?i"
  have "windowEnd (ifHosts ?j ! r) = -1"
    using run_state_window [OF w(1), of E ops] w(2)
    by (simp add: word_order.extremum_unique)
  then show ?thesis
    using ev by (auto simp: case_prod_unfold Let_def intro!: replayed_dropped CheckReplay_old)
qed

theorem forged_counter_silences_session_witness:
  "\<exists>iface iface' a. receiver_of iface 0 a \<and>
    consumeOutsidePacket sample_libs (sample_in 1) (Bytes (data_header a (-1))) sample_src iface = (iface', []) \<and>
    consumeOutsidePacket sample_libs (sample_in 2) (data_packet a 1 (sample_pkt 5)) sample_src iface' = (iface', [])"
proof -
  obtain iface a where s: "iface_reach sample_libs iface" "receiver_of iface 0 a" using sample_session by metis
  then have idx: "GetByIndex (ifHostmap iface) (hRemoteIndex a) = Some 0" by (simp add: receiver_of_def)
  let ?d = "Bytes (data_header a (-1))"
  let ?i = "fst (consumeOutsidePacket sample_libs (sample_in 1) ?d sample_src iface)"
  have "Parse ?d = Inr (data_header a (-1))"
    using hdr.dec_enc [of "data_header a (-1)" "[]"] by (simp add: wire_header_def data_header_def TypeMessage_def)
  then have "consumeOutsidePacket sample_libs (sample_in 1) ?d sample_src iface =
      handleMessage (sample_in 1) ?d (data_header a (-1)) sample_src iface"
    by (rule outside_message) (simp add: data_header_def)
  then have "GetByIndex (ifHostmap ?i) (hRemoteIndex a) = Some 0" by (simp add: handleMessage_frame idx)
  with forged_counter_silences_session [OF s(1) idx, of "[]" "sample_in 1" sample_src "[]"]
  have "snd (consumeOutsidePacket sample_libs (sample_in 1) ?d sample_src iface) = [] \<and>
      consumeOutsidePacket sample_libs (sample_in 2) (data_packet a 1 (sample_pkt 5)) sample_src ?i = (?i, [])"
    by (simp add: Decrypt_too_short gcmTagSize_def case_prod_unfold Let_def)
  with s(2) show ?thesis by (metis prod.collapse)
qed

text \<open>
  C28: tearing a session down needs no authentication.  Sixteen bytes from any address, of type
  CloseTunnel and naming the index of a session, take the current session of that peer out of the
  registry, under its address and under its index, whatever follows them.  Every other address and every other
  index is found as before, and nothing else of the interface changes.
\<close>
theorem close_needs_no_authentication:
  assumes "Parse d = Inr h" "hdrType h = TypeCloseTunnel" "GetByIndex (ifHostmap iface) (hdrRemoteIndex h) = Some r"
    and "consumeOutsidePacket E i d src iface = (iface', ev)"
  shows "ev = [] \<and> iface' = iface\<lparr>ifHostmap := ifHostmap iface'\<rparr> \<and>
    (\<forall>ip. GetByVpnIP (ifHostmap iface') ip =
      (if ip = hVpnIP (ifHosts iface ! r) then None else GetByVpnIP (ifHostmap iface) ip)) \<and>
    (\<forall>idx. GetByIndex (ifHostmap iface') idx =
      (if \<exists>q. GetByVpnIP (ifHostmap iface) (hVpnIP (ifHosts iface ! r)) = Some q \<and> hIndex (ifHosts iface ! q) = idx
       then None else GetByIndex (ifHostmap iface) idx))"
proof -
  let ?m = "Remove (ifHosts iface) (hVpnIP (ifHosts iface ! r)) (ifHostmap iface)"
  have "iface' = iface\<lparr>ifHostmap := ?m\<rparr>" "ev = []"
    using assms Parse_InrD(1) [OF assms(1)]
    by (simp_all add: consumeOutsidePacket_def handleCloseTunnel_def TypeCloseTunnel_def TypeMessage_def TypeHandshake_def
        TypeLightHouse_def TypeTest_def)
  then show ?thesis by (simp add: hm.get_ip_del hm.get_idx_del)
qed

theorem close_needs_no_authentication_witness:
  "\<exists>iface'. consumeOutsidePacket sample_libs (sample_in 1)
      (Bytes \<lparr>hdrVersion = 1, hdrType = 4, hdrSubType = 0, hdrRemoteIndex = 8, hdrMessageCounter = 0\<rparr>) sample_src
      (sample_up 8 7 (Addr4 1)) = (iface', []) \<and>
    GetByVpnIP (ifHostmap iface') (Addr4 1) = None \<and> GetByIndex (ifHostmap iface') 8 = None"
proof -
  let ?h = "\<lparr>hdrVersion = 1, hdrType = 4, hdrSubType = 0, hdrRemoteIndex = 8, hdrMessageCounter = 0\<rparr>"
  let ?s = "sample_up 8 7 (Addr4 1)"
  have p: "Parse (Bytes ?h) = Inr ?h"
    using hdr.dec_enc [of ?h "[]"] by (simp add: wire_header_def Version_def)
  have s: "GetByIndex (ifHostmap ?s) 8 = Some 0" "GetByVpnIP (ifHostmap ?s) (Addr4 1) = Some 0"
    "hVpnIP (ifHosts ?s ! 0) = Addr4 1" "hIndex (ifHosts ?s ! 0) = 8"
    by (simp_all add: sample_up_def Let_def Add_def GetByIndex_def GetByVpnIP_def newHost_def)
  obtain iface' ev where c: "consumeOutsidePacket sample_libs (sample_in 1) (Bytes ?h) sample_src ?s = (iface', ev)"
    by (cases "consumeOutsidePacket sample_libs (sample_in 1) (Bytes ?h) sample_src ?s")
  from close_needs_no_authentication [OF p _ _ c, of 0] s c show ?thesis by (simp add: TypeCloseTunnel_def)
qed

end
