(* ===== verification/Neth_Threads.thy ===== *)
theory Neth_Threads
  imports Neth_Tunnel
begin

text \<open>
  The handlers of \<^verbatim>\<open>interface.go\<close> at the granularity at which goroutines can interleave.  A handler is a
  thread: a sequence of atomic actions, each of which is one critical section of one component (a method of the host
  map, one lock of the connection table, the handshake manager's lock, one atomic counter increment, one
  check of a replay window, one write).  Between two actions of a thread others may run.  The work of
  the lighthouse on one message, which touches no session, and a tick of a timer are one action each.
  Executed without interruption, a thread is the handler of \<open>Neth_Interface\<close>.
\<close>

section \<open>Threads\<close>

text \<open>An action, and how the thread goes on, which depends on the state the action found.\<close>

datatype 'hs thread = Stop | Step "'hs Interface \<Rightarrow> 'hs Interface \<times> event list" "'hs Interface \<Rightarrow> 'hs thread"

primrec exec :: "'hs thread \<Rightarrow> 'hs Interface \<Rightarrow> 'hs Interface \<times> event list" where
  "exec Stop s = (s, [])"
| "exec (Step act next) s = (let (s', ev) = act s; (s'', ev') = exec (next s) s' in (s'', ev @ ev'))"

text \<open>An action that returns a result to the rest of the thread.\<close>

definition call :: "('hs Interface \<Rightarrow> 'r \<times> 'hs Interface \<times> event list) \<Rightarrow> ('r \<Rightarrow> 'hs thread) \<Rightarrow> 'hs thread" where
  "call f k = Step (\<lambda>s. snd (f s)) (\<lambda>s. k (fst (f s)))"

definition look :: "('hs Interface \<Rightarrow> 'r) \<Rightarrow> ('r \<Rightarrow> 'hs thread) \<Rightarrow> 'hs thread" where
  "look g k = call (\<lambda>s. (g s, s, [])) k"

definition emit :: "event list \<Rightarrow> 'hs thread \<Rightarrow> 'hs thread" where
  "emit ev k = call (\<lambda>s. ((), s, ev)) (\<lambda>_. k)"

lemma exec_call [simp]:
  "exec (call f k) s = (let (x, s', ev) = f s; (s'', ev') = exec (k x) s' in (s'', ev @ ev'))"
  by (simp add: call_def Let_def case_prod_unfold)

lemma exec_look [simp]: "exec (look g k) s = exec (k (g s)) s"
  by (simp add: look_def)

lemma exec_emit [simp]: "exec (emit ev k) s = (let (s', ev') = exec k s in (s', ev @ ev'))"
  by (simp add: emit_def)

section \<open>Handlers\<close>

text \<open>Two locks of the connection table: the lookup, and the entry a matching rule makes.\<close>

definition allow_t ::
  "(Firewall \<Rightarrow> Rule list) \<Rightarrow> int \<Rightarrow> Addr \<Rightarrow> string list \<Rightarrow> u16 \<Rightarrow> Proto \<Rightarrow> 'hs thread \<Rightarrow> 'hs thread" where
  "allow_t rules now ip groups port proto k =
     look (\<lambda>s. IsEstablished (flowKey ip port proto) (ct (ifFw s))) (\<lambda>established.
       if established then k
       else call (\<lambda>s. let (allowed, fw) = ruleLoop (rules (ifFw s)) (ifFw s) now ip groups port proto
                     in (allowed, s\<lparr>ifFw := fw\<rparr>, []))
              (\<lambda>allowed. if allowed then k else Stop))"

text \<open>The counter is drawn first and the packet sealed and sent under it later.\<close>

definition sendToRemote_t :: "href \<Rightarrow> bytes \<Rightarrow> 'hs thread \<Rightarrow> 'hs thread" where
  "sendToRemote_t r plaintext k =
     call (\<lambda>s. let counter = hCounter (ifHosts s ! r) + 1
               in (counter, s\<lparr>ifHosts := (ifHosts s)[r := (ifHosts s ! r)\<lparr>hCounter := counter\<rparr>]\<rparr>, []))
       (\<lambda>counter.
         call (\<lambda>s. let host = ifHosts s ! r;
                      hdrBytes = Bytes \<lparr>hdrVersion = Version, hdrType = TypeMessage, hdrSubType = 0,
                        hdrRemoteIndex = hRemoteIndex host, hdrMessageCounter = counter\<rparr>
                  in case Encrypt (hSendCipher host) counter hdrBytes plaintext of
                       Inl _ \<Rightarrow> ((), s, [])
                     | Inr sealed \<Rightarrow> ((), s, [Udp (hdrBytes @ sealed) (hRemote host)]))
           (\<lambda>_. k))"

primrec sendAll_t :: "href \<Rightarrow> bytes list \<Rightarrow> 'hs thread" where
  "sendAll_t r [] = Stop"
| "sendAll_t r (pkt # pkts) = sendToRemote_t r pkt (sendAll_t r pkts)"

definition onHandshakeComplete_t :: "HostInfo \<Rightarrow> bytes list \<Rightarrow> 'hs thread" where
  "onHandshakeComplete_t h pend =
     call (\<lambda>s. let r = length (ifHosts s); hosts = ifHosts s @ [h]
               in (r, s\<lparr>ifHosts := hosts, ifHostmap := Add hosts r (ifHostmap s)\<rparr>, []))
       (\<lambda>r. case hCert h of
              None \<Rightarrow> sendAll_t r pend
            | Some c \<Rightarrow> call (\<lambda>s. ((), s\<lparr>ifPeerCerts := (ifPeerCerts s)(hVpnIP h \<mapsto> c)\<rparr>, [])) (\<lambda>_. sendAll_t r pend))"

definition queue_t :: "Addr \<Rightarrow> bytes \<Rightarrow> 'hs thread" where
  "queue_t ip pkt = call (\<lambda>s. ((), s\<lparr>ifMgr := QueuePacket ip pkt (ifMgr s)\<rparr>, [])) (\<lambda>_. Stop)"

text \<open>The address of a peer without a session is looked up, and the handshake started.\<close>

definition dial_t :: "('hs, 'cs) libs \<Rightarrow> iface_input \<Rightarrow> Addr \<Rightarrow> bytes \<Rightarrow> 'hs thread" where
  "dial_t E i dstIP pkt =
     look (\<lambda>s. getPeerCert s dstIP) (\<lambda>cert. case cert of
         None \<Rightarrow> queue_t dstIP pkt
       | Some remoteCert \<Rightarrow>
           look (\<lambda>s. GetAddrs (ifLh s) dstIP) (\<lambda>remoteAddrs.
             if length remoteAddrs = 0 then
               call (\<lambda>s. ((), s, udp_events (QueryPeer (libP E) (ifLh s) dstIP))) (\<lambda>_. queue_t dstIP pkt)
             else
               call (\<lambda>s. let (result, mgr, out) = StartHandshake E (inBase i) dstIP (remoteAddrs ! 0) remoteCert (ifMgr s)
                         in (result, s\<lparr>ifMgr := mgr\<rparr>, udp_events out))
                 (\<lambda>result. case result of Inl _ \<Rightarrow> Stop | Inr _ \<Rightarrow> queue_t dstIP pkt)))"

definition consumeInsidePacket_t :: "('hs, 'cs) libs \<Rightarrow> iface_input \<Rightarrow> bytes \<Rightarrow> 'hs thread" where
  "consumeInsidePacket_t E i pkt =
     (case dstIPFromIPv4 pkt of
        None \<Rightarrow> Stop
      | Some dstIP \<Rightarrow>
          look (\<lambda>s. map_option (\<lambda>r. (r, hostGroups s r)) (GetByVpnIP (ifHostmap s) dstIP)) (\<lambda>host.
            allow_t outbound (inNow (inBase i)) dstIP (case host of None \<Rightarrow> [] | Some (r, groups) \<Rightarrow> groups)
              (dstPortFromIPv4 pkt) (protoFromIPv4 pkt)
              (case host of
                 Some (r, _) \<Rightarrow> sendToRemote_t r pkt Stop
               | None \<Rightarrow> dial_t E i dstIP pkt)))"

text \<open>A data packet for the session \<open>r\<close>: the window lock is released before the packet is opened.\<close>

definition receive_t :: "iface_input \<Rightarrow> bytes \<Rightarrow> Header \<Rightarrow> href \<Rightarrow> 'hs thread" where
  "receive_t i pkt h r =
     call (\<lambda>s. let (replay, host) = CheckReplay (hdrMessageCounter h) (ifHosts s ! r)
               in ((replay, hRecvCipher host, hostGroups s r), s\<lparr>ifHosts := (ifHosts s)[r := host]\<rparr>, []))
       (\<lambda>(replay, recvCipher, srcGroups).
         if replay then Stop
         else case Decrypt recvCipher (hdrMessageCounter h) (take HeaderLen pkt) (drop HeaderLen pkt) of
           Inl _ \<Rightarrow> Stop
         | Inr plaintext \<Rightarrow>
             (case srcIPFromIPv4 plaintext of
                None \<Rightarrow> Stop
              | Some srcIP \<Rightarrow>
                  allow_t inbound (inNow (inBase i)) srcIP srcGroups (dstPortFromIPv4 plaintext)
                    (protoFromIPv4 plaintext) (emit [Tun plaintext] Stop)))"

definition handleMessage_t :: "iface_input \<Rightarrow> bytes \<Rightarrow> Header \<Rightarrow> UDPAddr \<Rightarrow> 'hs thread" where
  "handleMessage_t i pkt h from =
     look (\<lambda>s. GetByIndex (ifHostmap s) (hdrRemoteIndex h)) (\<lambda>host. case host of
         None \<Rightarrow> call (\<lambda>s. ((), s, (case ifPunchy s of None \<Rightarrow> [] | Some p \<Rightarrow> udp_events (RespondToPunch p from)))) (\<lambda>_. Stop)
       | Some r \<Rightarrow> receive_t i pkt h r)"

definition handleHandshake_t :: "('hs, 'cs) libs \<Rightarrow> iface_input \<Rightarrow> bytes \<Rightarrow> Header \<Rightarrow> UDPAddr \<Rightarrow> 'hs thread" where
  "handleHandshake_t E i pkt h from =
     (if hdrSubType h = HandshakeInitiation then
        call (\<lambda>s. let (result, out) = HandleStage0 E (inBase i) pkt from (ifMgr s) in (result, s, udp_events out))
          (\<lambda>result. case result of Inl _ \<Rightarrow> Stop | Inr (host, pend) \<Rightarrow> onHandshakeComplete_t host pend)
      else if hdrSubType h = HandshakeResponse then
        call (\<lambda>s. let (result, mgr) = HandleStage1 E (inBase i) pkt (ifMgr s) in (result, s\<lparr>ifMgr := mgr\<rparr>, []))
          (\<lambda>result. case result of Inl _ \<Rightarrow> Stop | Inr (host, pend) \<Rightarrow> onHandshakeComplete_t host pend)
      else Stop)"

definition handleLightHouse_t :: "('hs, 'cs) libs \<Rightarrow> iface_input \<Rightarrow> bytes \<Rightarrow> Header \<Rightarrow> UDPAddr \<Rightarrow> 'hs thread" where
  "handleLightHouse_t E i pkt h from =
     (let handle = (\<lambda>senderVPN. case unmarshalLightHouse (libP E) (drop HeaderLen pkt) of
                      None \<Rightarrow> Stop
                    | Some msg \<Rightarrow>
                        call (\<lambda>s. let (lh, out) = HandleMessage (libP E) msg senderVPN (ifLh s)
                                  in ((), s\<lparr>ifLh := lh\<rparr>, udp_events out)) (\<lambda>_. Stop))
      in look (\<lambda>s. map_option (\<lambda>r. hVpnIP (ifHosts s ! r)) (GetByIndex (ifHostmap s) (hdrRemoteIndex h))) (\<lambda>host. case host of
             Some ip \<Rightarrow> handle ip
           | None \<Rightarrow> look (\<lambda>s. VpnIPByAddr (inOrder i) from (ifLh s)) (\<lambda>sender. case sender of
                 None \<Rightarrow> Stop
               | Some ip \<Rightarrow> handle ip)))"

definition handleTest_t :: "UDPAddr \<Rightarrow> 'hs thread" where
  "handleTest_t from =
     emit [Udp (Bytes \<lparr>hdrVersion = Version, hdrType = TypeTest, hdrSubType = 0, hdrRemoteIndex = 0,
        hdrMessageCounter = 0\<rparr>) from] Stop"

definition handleCloseTunnel_t :: "Header \<Rightarrow> 'hs thread" where
  "handleCloseTunnel_t h =
     look (\<lambda>s. map_option (\<lambda>r. hVpnIP (ifHosts s ! r)) (GetByIndex (ifHostmap s) (hdrRemoteIndex h))) (\<lambda>host. case host of
         None \<Rightarrow> Stop
       | Some ip \<Rightarrow> call (\<lambda>s. ((), s\<lparr>ifHostmap := Remove (ifHosts s) ip (ifHostmap s)\<rparr>, [])) (\<lambda>_. Stop))"

definition consumeOutsidePacket_t :: "('hs, 'cs) libs \<Rightarrow> iface_input \<Rightarrow> bytes \<Rightarrow> UDPAddr \<Rightarrow> 'hs thread" where
  "consumeOutsidePacket_t E i pkt from =
     (if length pkt < HeaderLen then Stop
      else case Parse pkt of
        Inl _ \<Rightarrow> Stop
      | Inr h \<Rightarrow>
          if hdrType h = TypeMessage then handleMessage_t i pkt h from
          else if hdrType h = TypeHandshake then handleHandshake_t E i pkt h from
          else if hdrType h = TypeLightHouse then handleLightHouse_t E i pkt h from
          else if hdrType h = TypeTest then handleTest_t from
          else if hdrType h = TypeCloseTunnel then handleCloseTunnel_t h
          else Stop)"

text \<open>What a goroutine does in one turn of its loop.\<close>

fun thread_of :: "('hs, 'cs) libs \<Rightarrow> iface_op \<Rightarrow> 'hs thread" where
  "thread_of E (FromTun i pkt) = consumeInsidePacket_t E i pkt"
| "thread_of E (FromUdp i pkt from) = consumeOutsidePacket_t E i pkt from"
| "thread_of E (ExpiryTick now) = call (\<lambda>s. ((), s\<lparr>ifFw := RunExpiry_tick now (ifFw s)\<rparr>, [])) (\<lambda>_. Stop)"
| "thread_of E (RetryTick now order) =
     call (\<lambda>s. let (mgr, out) = retryPending now order (ifMgr s) in ((), s\<lparr>ifMgr := mgr\<rparr>, udp_events out)) (\<lambda>_. Stop)"
| "thread_of E AdvertiseTick = call (\<lambda>s. ((), s, udp_events (Advertise (libP E) (ifLh s)))) (\<lambda>_. Stop)"

section \<open>Uninterrupted threads\<close>

lemma exec_allow:
  "exec (allow_t outbound now ip gs port proto k) s =
     (let (allowed, fw) = AllowOutbound (ifFw s) now ip gs port proto in if allowed then exec k (s\<lparr>ifFw := fw\<rparr>) else (s\<lparr>ifFw := fw\<rparr>, []))"
  "exec (allow_t inbound now ip gs port proto k) s =
     (let (allowed, fw) = AllowInbound (ifFw s) now ip gs port proto in if allowed then exec k (s\<lparr>ifFw := fw\<rparr>) else (s\<lparr>ifFw := fw\<rparr>, []))"
  by (simp_all add: allow_t_def AllowOutbound_def AllowInbound_def Let_def case_prod_unfold)

lemma exec_send:
  "exec (sendToRemote_t r p k) s =
     (let (s', ev) = sendToRemote r p s; (s'', ev') = exec k s' in (s'', ev @ ev'))"
  if "r < length (ifHosts s)"
  using that by (simp add: sendToRemote_t_def sendToRemote_def Let_def case_prod_unfold Encrypt_def)

lemma exec_sendAll: "r < length (ifHosts s) \<Longrightarrow> exec (sendAll_t r pkts) s = sendAll r pkts s"
proof (induction pkts arbitrary: s)
  case (Cons pkt pkts)
  have "r < length (ifHosts (fst (sendToRemote r pkt s)))" using Cons.prems by (simp add: sendToRemote_eq Let_def)
  from Cons.IH [OF this] exec_send [OF Cons.prems] show ?case by (simp add: Let_def case_prod_unfold)
qed simp

lemma exec_complete: "exec (onHandshakeComplete_t h pend) s = onHandshakeComplete h pend s"
  by (simp add: onHandshakeComplete_t_def onHandshakeComplete_def Let_def case_prod_unfold exec_sendAll split: option.split)

lemma exec_queue: "exec (queue_t ip pkt) s = (s\<lparr>ifMgr := QueuePacket ip pkt (ifMgr s)\<rparr>, [])"
  by (simp add: queue_t_def)

lemma exec_inside:
  assumes "hm_ok (ifHosts s) (ifHostmap s)"
  shows "exec (consumeInsidePacket_t E i pkt) s = consumeInsidePacket E i pkt s"
proof -
  have "r < length (ifHosts s)" if "GetByVpnIP (ifHostmap s) ip = Some r" for ip r
    using hm_okD(1) [OF assms that] by simp
  then show ?thesis
    by (auto simp: consumeInsidePacket_t_def consumeInsidePacket_def dial_t_def exec_allow exec_send exec_queue getPeerCert_def
        Let_def case_prod_unfold split: option.split sum.split)
qed

lemma exec_message: "exec (handleMessage_t i pkt h src) s = handleMessage i pkt h src s"
  by (auto simp: handleMessage_t_def receive_t_def handleMessage_def exec_allow hostGroups_update Let_def case_prod_unfold
      split: option.split sum.split)

lemma exec_handshake: "exec (handleHandshake_t E i pkt h src) s = handleHandshake E i pkt h src s"
  by (auto simp: handleHandshake_t_def handleHandshake_def exec_complete Let_def case_prod_unfold split: sum.split)

lemma exec_lighthouse: "exec (handleLightHouse_t E i pkt h src) s = handleLightHouse E i pkt h src s"
  by (auto simp: handleLightHouse_t_def handleLightHouse_def Let_def case_prod_unfold split: option.split)

lemma exec_outside: "exec (consumeOutsidePacket_t E i pkt src) s = consumeOutsidePacket E i pkt src s"
  by (auto simp: consumeOutsidePacket_t_def consumeOutsidePacket_def exec_message exec_handshake exec_lighthouse
      handleTest_t_def handleTest_def handleCloseTunnel_t_def handleCloseTunnel_def Let_def case_prod_unfold
      split: sum.split option.split)

text \<open>
  A thread that runs without interruption in a state whose registry is well formed does exactly what one step of the
  daemon does.
\<close>

lemma exec_step:
  "hm_ok (ifHosts iface) (ifHostmap iface) \<Longrightarrow> exec (thread_of E op) iface = iface_step E op iface"
  by (cases op) (simp_all add: exec_inside exec_outside Let_def case_prod_unfold)

end
