(* ===== verification/Neth_Pending.thy ===== *)
theory Neth_Pending
  imports Neth_HandshakeManager "HOL-Library.Multiset"
begin

text \<open>
  The packets that wait for a handshake, as a multiset, and how each operation of the handshake manager
  changes it: only \<open>QueuePacket\<close> adds a packet, and a completed handshake takes out what it hands over.
\<close>

definition live :: "'hs HandshakeManager \<Rightarrow> nat \<Rightarrow> bool" where
  "live m r \<longleftrightarrow> pending m (phRemoteVpnIP (phHeap m ! r)) = Some r"

definition waiting :: "'hs HandshakeManager \<Rightarrow> nat \<Rightarrow> bytes multiset" where
  "waiting m r = (if live m r then mset (phPendingPackets (phHeap m ! r)) else {#})"

definition queued :: "'hs HandshakeManager \<Rightarrow> bytes multiset" where
  "queued m = (\<Sum>r < length (phHeap m). waiting m r)"

lemma sum_subseteq_mset:
  fixes f g :: "nat \<Rightarrow> 'a multiset"
  assumes "\<And>i. i \<in> A \<Longrightarrow> f i \<subseteq># g i"
  shows "sum f A \<subseteq># sum g A"
  using assms by (induction A rule: infinite_finite_induct) (simp_all add: subset_mset.add_mono)

lemma queued_split:
  "r < length (phHeap m) \<Longrightarrow> queued m = waiting m r + (\<Sum>q \<in> {..<length (phHeap m)} - {r}. waiting m q)"
  unfolding queued_def by (subst sum.remove [of _ r]) auto

lemma queued_new [simp]: "queued (NewHandshakeManager c k pool) = {#}"
  by (simp add: queued_def NewHandshakeManager_def)

lemma queued_drop:
  assumes "hsm_inv m" "pending m ip = Some r"
  shows "mset (phPendingPackets (phHeap m ! r)) + queued (m\<lparr>pending := (pending m)(ip := None), indexMap := im\<rparr>) \<subseteq># queued m"
proof -
  let ?m = "m\<lparr>pending := (pending m)(ip := None), indexMap := im\<rparr>"
  have r: "r < length (phHeap m)" "phRemoteVpnIP (phHeap m ! r) = ip" using hsm_invD(1,2) [OF assms] .
  have "waiting m r = mset (phPendingPackets (phHeap m ! r))" "waiting ?m r = {#}"
    using r assms(2) by (simp_all add: waiting_def live_def)
  moreover have "waiting ?m q \<subseteq># waiting m q" for q by (simp add: waiting_def live_def)
  ultimately show ?thesis
    using r(1) sum_subseteq_mset [of "{..<length (phHeap m)} - {r}" "waiting ?m" "waiting m"]
    by (simp add: queued_split [of r])
qed

lemma queued_update:
  assumes "r < length (phHeap m)" "phRemoteVpnIP ph = phRemoteVpnIP (phHeap m ! r)"
    and "mset (phPendingPackets ph) \<subseteq># mset (phPendingPackets (phHeap m ! r)) + Q"
  shows "queued (m\<lparr>phHeap := (phHeap m)[r := ph]\<rparr>) \<subseteq># queued m + Q"
proof -
  let ?m = "m\<lparr>phHeap := (phHeap m)[r := ph]\<rparr>"
  have "waiting ?m q = waiting m q" if "q \<noteq> r" for q using that by (simp add: waiting_def live_def)
  then have "(\<Sum>q \<in> {..<length (phHeap m)} - {r}. waiting ?m q) = (\<Sum>q \<in> {..<length (phHeap m)} - {r}. waiting m q)"
    by (intro sum.cong) auto
  moreover have "waiting ?m r \<subseteq># waiting m r + Q" using assms by (simp add: waiting_def live_def)
  ultimately show ?thesis using assms(1) by (simp add: queued_split [of r] ac_simps)
qed

lemma queued_start: "queued (fst (snd (StartHandshake E i ip addr c m))) \<subseteq># queued m"
proof -
  have new: "queued (m\<lparr>phHeap := phHeap m @ [ph], pending := (pending m)(ip \<mapsto> length (phHeap m)), indexMap := im\<rparr>) \<subseteq># queued m"
    (is "queued ?m \<subseteq># _") if "phPendingPackets ph = []" "pending m ip = None" for ph im
  proof -
    have "waiting ?m (length (phHeap m)) = {#}" using that(1) by (simp add: waiting_def)
    moreover have "waiting ?m r = waiting m r" if "r < length (phHeap m)" for r
      using that \<open>pending m ip = None\<close> by (auto simp: waiting_def live_def nth_append)
    ultimately show ?thesis by (simp add: queued_def)
  qed
  then show ?thesis
    by (auto simp: StartHandshake_def Let_def split: sum.splits option.splits prod.splits)
qed

lemma queued_queue:
  assumes "hsm_inv m"
  shows "queued (QueuePacket ip pkt m) \<subseteq># queued m + {#pkt#}"
proof (cases "pending m ip")
  case (Some r)
  have "mset (drop 1 xs) \<subseteq># mset xs" for xs :: "bytes list" by (cases xs) simp_all
  then show ?thesis
    using Some hsm_invD(1) [OF assms Some] by (auto simp: QueuePacket_def Let_def intro!: queued_update [where Q = "{#pkt#}", simplified])
qed (simp add: QueuePacket_def)

lemma queued_retryStep:
  assumes "hsm_inv m"
  shows "queued (retryStep now ip m) \<subseteq># queued m"
proof (cases "pending m ip")
  case (Some r)
  show ?thesis
  proof (cases "retryOne now (phHeap m ! r)")
    case None
    then have "retryStep now ip m = m\<lparr>pending := (pending m)(ip := None), indexMap := (indexMap m)(phLocalIndex (phHeap m ! r) := None)\<rparr>"
      using Some by (simp add: retryStep_def)
    with queued_drop [OF assms Some, of "(indexMap m)(phLocalIndex (phHeap m ! r) := None)"] show ?thesis
      by (metis mset_subset_eq_add_right subset_mset.order_trans)
  next
    case (Some ph)
    with retryOne_keys [OF Some] \<open>pending m ip = Some r\<close> hsm_invD(1) [OF assms \<open>pending m ip = Some r\<close>]
      queued_update [of r m ph "{#}"] show ?thesis by (simp add: retryStep_def)
  qed
qed (simp add: retryStep_def)

lemma queued_tick: "hsm_inv m \<Longrightarrow> queued (fst (retryPending now order m)) \<subseteq># queued m"
  unfolding retryPending_fold
proof (induction order arbitrary: m)
  case (Cons ip order)
  from Cons.IH [OF hsm_inv_retryStep [OF Cons.prems]] queued_retryStep [OF Cons.prems] show ?case
    by (metis fold_simps(2) subset_mset.order_trans)
qed simp

text \<open>A response takes the pending handshake's packets out of the queues, whatever it does with them.\<close>

lemma queued_stage1:
  assumes "hsm_inv m"
  shows "(case fst (HandleStage1 E i pkt m) of Inl _ \<Rightarrow> {#} | Inr (h, q) \<Rightarrow> mset q) + queued (snd (HandleStage1 E i pkt m)) \<subseteq># queued m"
proof (cases "\<exists>h r. Parse pkt = Inr h \<and> indexMap m (hdrRemoteIndex h) = Some r")
  case True
  then obtain h r where h: "Parse pkt = Inr h" "indexMap m (hdrRemoteIndex h) = Some r" by blast
  then have s: "snd (HandleStage1 E i pkt m) = m\<lparr>pending := (pending m)(phRemoteVpnIP (phHeap m ! r) := None),
      indexMap := (indexMap m)(hdrRemoteIndex h := None)\<rparr>" by (simp add: HandleStage1_state)
  have "(case fst (HandleStage1 E i pkt m) of Inl _ \<Rightarrow> {#} | Inr (h, q) \<Rightarrow> mset q) \<subseteq># mset (phPendingPackets (phHeap m ! r))"
    using HandleStage1_Inr [of E i pkt m] h by (fastforce split: sum.split)
  with queued_drop [OF assms hsm_invD(6) [OF assms h(2)], of "(indexMap m)(hdrRemoteIndex h := None)"] show ?thesis
    unfolding s by (meson subset_mset.add_right_mono subset_mset.order_trans)
next
  case False
  then have "snd (HandleStage1 E i pkt m) = m" by (auto simp: HandleStage1_state split: sum.split option.split)
  moreover have "\<not> is_ok (fst (HandleStage1 E i pkt m))" using False HandleStage1_Inr [of E i pkt m] by (auto simp: is_ok_iff)
  ultimately show ?thesis by (auto simp: is_ok_def split: sum.splits)
qed

end
