(* ===== verification/Neth_Nonces.thy ===== *)
theory Neth_Nonces
  imports Neth_Tunnel Neth_Pending
begin

text \<open>
  Nonce discipline: the pairs of session and counter under which the daemon ever seals a packet.  Every
  data datagram a run sends is accounted for by one entry of a log, and no pair of session and counter
  occurs twice in it.
\<close>

section \<open>Which datagrams are data\<close>

definition is_data :: "bytes \<Rightarrow> bool" where
  "is_data d = (case Parse d of Inl _ \<Rightarrow> False | Inr h \<Rightarrow> hdrType h = TypeMessage)"

definition data_datagrams :: "event list \<Rightarrow> bytes list" where
  "data_datagrams evs = concat (map (\<lambda>e. case e of Udp d _ \<Rightarrow> if is_data d then [d] else [] | Tun _ \<Rightarrow> []) evs)"

lemma data_datagrams_simps [simp]:
  "data_datagrams [] = []" "data_datagrams (Tun p # evs) = data_datagrams evs"
  "data_datagrams (Udp d a # evs) = (if is_data d then [d] else []) @ data_datagrams evs"
  "data_datagrams (evs @ evs') = data_datagrams evs @ data_datagrams evs'"
  by (simp_all add: data_datagrams_def)

definition control :: "(bytes \<times> UDPAddr) list \<Rightarrow> bool" where
  "control ds \<longleftrightarrow> (\<forall>(d, a) \<in> set ds. \<not> is_data d)"

lemma control_simps [simp]:
  "control []" "control ((d, a) # ds) \<longleftrightarrow> \<not> is_data d \<and> control ds"
  "control (ds @ ds') \<longleftrightarrow> control ds \<and> control ds'"
  by (auto simp: control_def)

lemma data_control: "control ds \<Longrightarrow> data_datagrams (udp_events ds) = []"
  by (induction ds) (auto simp: udp_events_def)

lemma is_data_packet [simp]: "is_data (data_packet h c p)"
  by (simp add: is_data_def Parse_data_packet) (simp add: data_header_def)

lemma not_data_Nil [simp]: "\<not> is_data []"
  by (simp add: is_data_def Parse_def HeaderLen_def)

lemma not_data_framed:
  assumes "hdrVersion h = Version" "unat (hdrType h) < 16" "hdrType h \<noteq> TypeMessage"
  shows "\<not> is_data (Bytes h @ body)"
  using assms hdr.dec_enc [of h body] by (simp add: is_data_def wire_header_def)

lemma not_data_handshake: "marshalHandshakePacket P msg ri st = Inr d \<Longrightarrow> \<not> is_data d"
  by (auto simp: marshalHandshakePacket_def Let_def TypeHandshake_def TypeMessage_def not_data_framed split: option.splits)

lemma not_data_built: "buildHandshakePacket P L now c n i st = Inr d \<Longrightarrow> \<not> is_data d"
  by (auto simp: buildHandshakePacket_def not_data_handshake split: sum.splits)

lemma control_lh_send: "control (lh_send P lh msg ip)"
  by (auto simp: control_def lh_send_def marshalLightHousePacket_def Let_def TypeLightHouse_def TypeMessage_def
      not_data_framed split: sum.splits option.splits)

lemma control_concat: "(\<And>x. control (f x)) \<Longrightarrow> control (concat (map f xs))"
  by (fastforce simp: control_def)

lemma control_lighthouse:
  "control (QueryPeer P lh ip)" "control (Advertise P lh)" "control (snd (HandleMessage P msg from lh))"
  by (auto simp: QueryPeer_def Advertise_def Let_def HandleMessage_def handleQuery_def handleWhoAmI_def handlePunch_def
      control_lh_send control_concat split: option.splits) (auto simp: control_def Punch_def)

lemma control_stage0: "control (snd (HandleStage0 E i pkt src m))"
  by (auto simp: HandleStage0_def Let_def not_data_handshake split: sum.splits option.splits)

lemma control_start: "control (snd (snd (StartHandshake E i ip addr c m)))"
  by (auto simp: StartHandshake_def Let_def not_data_built split: sum.splits option.splits)

section \<open>Stored handshake packets\<close>

text \<open>The packet a pending handshake retransmits is a handshake packet.\<close>

definition stored_control :: "'hs HandshakeManager \<Rightarrow> bool" where
  "stored_control m \<longleftrightarrow> (\<forall>ph \<in> set (phHeap m). \<not> is_data (phStage0msg ph))"

lemma stored_control_start: "stored_control m \<Longrightarrow> stored_control (fst (snd (StartHandshake E i ip addr c m)))"
  by (auto simp: stored_control_def StartHandshake_def Let_def not_data_built split: sum.splits option.splits)

lemma stored_control_stage1: "stored_control m \<Longrightarrow> stored_control (snd (HandleStage1 E i pkt m))"
  by (auto simp: stored_control_def HandleStage1_def Let_def split: sum.splits option.splits)

lemma stored_control_update:
  "stored_control m \<Longrightarrow> phStage0msg ph = phStage0msg (phHeap m ! r) \<Longrightarrow> stored_control (m\<lparr>phHeap := (phHeap m)[r := ph]\<rparr>)"
  by (cases "r < length (phHeap m)")
    (auto simp: stored_control_def list_update_beyond dest!: subsetD [OF set_update_subset_insert])

lemma stored_control_queue: "stored_control m \<Longrightarrow> stored_control (QueuePacket ip pkt m)"
  by (auto simp: QueuePacket_def Let_def intro!: stored_control_update split: option.splits)

lemma stored_control_retryStep: "stored_control m \<Longrightarrow> stored_control (retryStep now ip m)"
  using retryOne_keys
  by (auto simp: retryStep_def intro!: stored_control_update split: option.splits) (auto simp: stored_control_def)

lemma retryPending_Cons:
  "snd (retryPending now (ip # order) m) =
     (case pending m ip of
        None \<Rightarrow> []
      | Some r \<Rightarrow> let ph = phHeap m ! r in
          if now < phNextRetry ph \<or> phAttempts ph \<ge> maxHandshakeAttempts then [] else [(phStage0msg ph, phRemoteAddr ph)])
     @ snd (retryPending now order (retryStep now ip m))"
  by (simp add: retryStep_def retryOne_def Let_def case_prod_unfold split: option.splits)

lemma control_retry:
  "hsm_inv m \<Longrightarrow> stored_control m \<Longrightarrow> control (snd (retryPending now order m))"
proof (induction order arbitrary: m)
  case (Cons ip order)
  have "\<not> is_data (phStage0msg (phHeap m ! r))" if "pending m ip = Some r" for r
    using hsm_invD(1) [OF Cons.prems(1) that] Cons.prems(2) by (auto simp: stored_control_def)
  with Cons.IH [OF hsm_inv_retryStep [OF Cons.prems(1)] stored_control_retryStep [OF Cons.prems(2)]] show ?case
    unfolding retryPending_Cons by (simp add: Let_def split: option.splits)
qed simp

lemma stored_control_retry: "stored_control m \<Longrightarrow> stored_control (fst (retryPending now order m))"
  unfolding retryPending_fold by (induction order arbitrary: m) (simp_all add: stored_control_retryStep)

section \<open>The manager of a reachable interface\<close>

inductive mgr_evolves :: "('hs, 'cs) libs \<Rightarrow> 'hs HandshakeManager \<Rightarrow> 'hs HandshakeManager \<Rightarrow> bool" for E m where
  me_refl [intro!]: "mgr_evolves E m m"
| me_start: "mgr_evolves E m m' \<Longrightarrow> mgr_evolves E m (fst (snd (StartHandshake E i ip addr c m')))"
| me_stage1: "mgr_evolves E m m' \<Longrightarrow> mgr_evolves E m (snd (HandleStage1 E i pkt m'))"
| me_queue: "mgr_evolves E m m' \<Longrightarrow> mgr_evolves E m (QueuePacket ip pkt m')"
| me_tick: "mgr_evolves E m m' \<Longrightarrow> mgr_evolves E m (fst (retryPending now order m'))"

lemma mgr_evolves_keeps:
  "mgr_evolves E m m' \<Longrightarrow> hsm_reach E m \<Longrightarrow> stored_control m \<Longrightarrow> hsm_reach E m' \<and> stored_control m'"
  by (induction rule: mgr_evolves.induct)
    (auto intro: hsm_start hsm_stage1 hsm_queue hsm_tick stored_control_start stored_control_stage1
      stored_control_queue stored_control_retry)

lemma inside_mgr: "mgr_evolves E (ifMgr iface) (ifMgr (fst (consumeInsidePacket E i pkt iface)))"
  by (simp add: consumeInsidePacket_def Let_def case_prod_unfold sendToRemote_eq me_refl me_queue me_start
      split: option.split sum.split)

lemma complete_mgr: "ifMgr (fst (onHandshakeComplete h q iface)) = ifMgr iface"
  by (simp add: onHandshakeComplete_def Let_def sendAll_frame split: option.splits)

lemma message_mgr: "ifMgr (fst (handleMessage i pkt h src iface)) = ifMgr iface"
  by (simp add: handleMessage_def Let_def case_prod_unfold split: option.split sum.split)

lemma handshake_mgr: "mgr_evolves E (ifMgr iface) (ifMgr (fst (handleHandshake E i pkt h src iface)))"
  by (simp add: handleHandshake_def Let_def case_prod_unfold complete_mgr me_refl me_stage1 split: sum.split)

lemma outside_mgr: "mgr_evolves E (ifMgr iface) (ifMgr (fst (consumeOutsidePacket E i pkt src iface)))"
  by (simp add: consumeOutsidePacket_def handshake_mgr message_mgr handleLightHouse_def handleTest_def handleCloseTunnel_def
      Let_def case_prod_unfold me_refl split: option.split sum.split)

lemma iface_reach_mgr: "iface_reach E iface \<Longrightarrow> hsm_reach E (ifMgr iface) \<and> stored_control (ifMgr iface)"
proof (induction rule: iface_reach.induct)
  case (reach_init iface)
  then obtain c k pool where "ifMgr iface = NewHandshakeManager c k pool" by (auto simp: iface_init_def)
  then show ?case by (simp add: hsm_new) (simp add: stored_control_def NewHandshakeManager_def)
next
  case (reach_step iface op iface' ev)
  have "mgr_evolves E (ifMgr iface) (ifMgr (fst (iface_step E op iface)))"
    by (cases op) (auto simp: inside_mgr outside_mgr Let_def case_prod_unfold intro: me_tick)
  with reach_step mgr_evolves_keeps show ?case by fastforce
qed

section \<open>The log of sealed packets\<close>

type_synonym seal_log = "(href \<times> u64 \<times> bytes) list"

definition counter_at :: "host_heap \<Rightarrow> href \<Rightarrow> u64" where
  "counter_at hp r = (if r < length hp then hCounter (hp ! r) else 0)"

definition counters_of :: "href \<Rightarrow> seal_log \<Rightarrow> u64 list" where
  "counters_of r log = map (\<lambda>(r', c, p). c) (filter (\<lambda>(r', c, p). r' = r) log)"

text \<open>The consecutive counters after \<open>c\<close>.\<close>

definition counters_after :: "u64 \<Rightarrow> nat \<Rightarrow> u64 list" where
  "counters_after c n = map (\<lambda>k. c + word_of_nat (Suc k)) [0..<n]"

text \<open>
  From the sessions \<open>hp\<close> to \<open>hp'\<close> exactly the packets of \<open>log\<close> were sealed: each session counted them
  one by one, kept its keys, and sessions were only added.
\<close>

definition sealed_log :: "host_heap \<Rightarrow> seal_log \<Rightarrow> host_heap \<Rightarrow> bool" where
  "sealed_log hp log hp' \<longleftrightarrow> length hp \<le> length hp' \<and> (\<forall>r < length hp. host_fixed (hp ! r) (hp' ! r)) \<and>
     (\<forall>(r, c, p) \<in> set log. r < length hp') \<and>
     (\<forall>r. counters_of r log = counters_after (counter_at hp r) (length (counters_of r log)) \<and>
        counter_at hp' r = counter_at hp r + word_of_nat (length (counters_of r log)))"

definition log_datagrams :: "host_heap \<Rightarrow> seal_log \<Rightarrow> bytes list" where
  "log_datagrams hp log = map (\<lambda>(r, c, p). data_packet (hp ! r) c p) log"

lemma counters_of_simps [simp]:
  "counters_of r [] = []" "counters_of r ((r', c, p) # log) = (if r' = r then [c] else []) @ counters_of r log"
  "counters_of r (log @ log') = counters_of r log @ counters_of r log'"
  by (simp_all add: counters_of_def)

lemma counters_after_simps [simp]: "counters_after c 0 = []" "counters_after c (Suc 0) = [c + 1]"
  "length (counters_after c n) = n"
  by (simp_all add: counters_after_def)

lemma counters_after_add: "counters_after c (m + n) = counters_after c m @ counters_after (c + word_of_nat m) n"
proof -
  have "map (\<lambda>k. c + word_of_nat (Suc k)) [m..<m + n] = map (\<lambda>k. c + word_of_nat m + word_of_nat (Suc k)) [0..<n]"
    by (rule nth_equalityI) (simp_all add: ac_simps)
  then show ?thesis unfolding counters_after_def upt_add_eq_append [OF le0] map_append by simp
qed

lemma host_fixed_trans: "host_fixed a b \<Longrightarrow> host_fixed b c \<Longrightarrow> host_fixed a c"
  by (auto simp: host_fixed_def same_keys_def)

lemma sealed_log_quiet:
  assumes "length hp = length hp'" "\<And>r. r < length hp \<Longrightarrow> host_fixed (hp ! r) (hp' ! r) \<and> hCounter (hp' ! r) = hCounter (hp ! r)"
  shows "sealed_log hp [] hp'"
  using assms by (simp add: sealed_log_def counter_at_def)

lemma sealed_log_refl [simp]: "sealed_log hp [] hp"
  by (rule sealed_log_quiet) auto

lemma sealed_log_append: "hCounter h = 0 \<Longrightarrow> sealed_log hp [] (hp @ [h])"
  by (auto simp: sealed_log_def counter_at_def nth_append)

lemma sealed_log_send:
  "r < length hp \<Longrightarrow> sealed_log hp [(r, hCounter (hp ! r) + 1, p)] (hp[r := (hp ! r)\<lparr>hCounter := hCounter (hp ! r) + 1\<rparr>])"
  by (auto simp: sealed_log_def counter_at_def nth_list_update host_fixed_def same_keys_def)

lemma sealed_log_trans:
  assumes "sealed_log hp log hp'" "sealed_log hp' log' hp''"
  shows "sealed_log hp (log @ log') hp''"
proof -
  have "counters_of r (log @ log') = counters_after (counter_at hp r) (length (counters_of r (log @ log'))) \<and>
      counter_at hp'' r = counter_at hp r + word_of_nat (length (counters_of r (log @ log')))" for r
    using assms unfolding sealed_log_def by (simp add: counters_after_add ac_simps)
  moreover have "\<forall>r < length hp. host_fixed (hp ! r) (hp'' ! r)"
    using assms host_fixed_trans unfolding sealed_log_def by (meson order_less_le_trans)
  ultimately show ?thesis using assms by (fastforce simp: sealed_log_def)
qed

lemma data_packet_fixed: "host_fixed h h' \<Longrightarrow> data_packet h' = data_packet h"
  by (simp add: host_fixed_def data_packet_def data_header_def fun_eq_iff)

lemma log_datagrams_later:
  assumes "sealed_log hp log hp'" "sealed_log hp' log' hp''"
  shows "log_datagrams hp'' log = log_datagrams hp' log"
  using assms by (auto simp: log_datagrams_def sealed_log_def data_packet_fixed)

section \<open>Every step keeps the log\<close>

text \<open>
  The sessions after a step account for the data datagrams of its events, each of which carries one of
  the packets \<open>Q\<close>.
\<close>

definition log_packets :: "seal_log \<Rightarrow> bytes multiset" where
  "log_packets log = mset (map (\<lambda>(r, c, p). p) log)"

definition accounts :: "host_heap \<Rightarrow> bytes multiset \<Rightarrow> 'hs Interface \<times> event list \<Rightarrow> bool" where
  "accounts hp Q out \<longleftrightarrow> (\<exists>log. sealed_log hp log (ifHosts (fst out)) \<and>
     data_datagrams (snd out) = log_datagrams (ifHosts (fst out)) log \<and> log_packets log \<subseteq># Q)"

lemma log_packets_simps [simp]:
  "log_packets [] = {#}" "log_packets ((r, c, p) # log) = add_mset p (log_packets log)"
  "log_packets (log @ log') = log_packets log + log_packets log'"
  by (simp_all add: log_packets_def)

lemma accounts_quiet: "sealed_log hp [] (ifHosts iface) \<Longrightarrow> data_datagrams ev = [] \<Longrightarrow> accounts hp Q (iface, ev)"
  by (auto simp: accounts_def log_datagrams_def intro!: exI [of _ "[]"])

lemma accounts_mono: "accounts hp Q out \<Longrightarrow> Q \<subseteq># Q' \<Longrightarrow> accounts hp Q' out"
  unfolding accounts_def by (meson subset_mset.order_trans)

lemma accounts_seq:
  assumes "accounts hp Q out" "accounts (ifHosts (fst out)) Q' out'"
  shows "accounts hp (Q + Q') (fst out', snd out @ snd out')"
proof -
  from assms obtain log log' where l: "sealed_log hp log (ifHosts (fst out))" "sealed_log (ifHosts (fst out)) log' (ifHosts (fst out'))"
    "data_datagrams (snd out) = log_datagrams (ifHosts (fst out)) log"
    "data_datagrams (snd out') = log_datagrams (ifHosts (fst out')) log'" "log_packets log \<subseteq># Q" "log_packets log' \<subseteq># Q'"
    by (auto simp: accounts_def)
  then have "data_datagrams (snd out @ snd out') = log_datagrams (ifHosts (fst out')) (log @ log')"
    using log_datagrams_later [OF l(1,2)] by (simp add: log_datagrams_def)
  moreover have "log_packets (log @ log') \<subseteq># Q + Q'" using l(5,6) by (simp add: subset_mset.add_mono)
  ultimately show ?thesis using sealed_log_trans [OF l(1,2)] unfolding accounts_def fst_conv snd_conv by blast
qed

lemma accounts_send:
  "r < length (ifHosts iface) \<Longrightarrow> accounts (ifHosts iface) {#p#} (sendToRemote r p iface)"
  using sealed_log_send [of r "ifHosts iface" p]
  by (auto simp: accounts_def sendToRemote_eq Let_def log_datagrams_def)

lemma accounts_sendAll:
  "r < length (ifHosts iface) \<Longrightarrow> accounts (ifHosts iface) (mset ps) (sendAll r ps iface)"
proof (induction ps arbitrary: iface)
  case (Cons p ps)
  let ?i = "fst (sendToRemote r p iface)"
  have "r < length (ifHosts ?i)" using Cons.prems by (simp add: sendToRemote_eq Let_def)
  from accounts_seq [OF accounts_send [OF Cons.prems] Cons.IH [OF this]]
  show ?case by (simp add: case_prod_unfold Let_def)
qed (simp add: accounts_quiet)

lemma accounts_complete:
  assumes "hCounter h = 0"
  shows "accounts (ifHosts iface) (mset q) (onHandshakeComplete h q iface)"
proof -
  let ?r = "length (ifHosts iface)"
  obtain i where i: "onHandshakeComplete h q iface = sendAll ?r q i" "ifHosts i = ifHosts iface @ [h]"
    by (cases "hCert h") (simp_all add: onHandshakeComplete_def Let_def)
  have "accounts (ifHosts iface) {#} (i, [])" using sealed_log_append [OF assms] i(2) by (simp add: accounts_quiet)
  moreover have "accounts (ifHosts (fst (i, []))) (mset q) (sendAll ?r q i)"
    using accounts_sendAll [of ?r i q] i(2) by simp
  ultimately show ?thesis unfolding i(1) using accounts_seq by fastforce
qed

lemma accounts_control: "ifHosts (fst out) = ifHosts iface \<Longrightarrow> data_datagrams (snd out) = [] \<Longrightarrow> accounts (ifHosts iface) Q out"
  using accounts_quiet [of "ifHosts iface" "fst out" "snd out"] by simp

text \<open>
  A step that reads the packets \<open>Q\<close> from the TUN device seals, or leaves waiting, only packets that it
  read or that were waiting before.
\<close>

definition settled :: "'hs Interface \<Rightarrow> bytes multiset \<Rightarrow> 'hs Interface \<times> event list \<Rightarrow> bool" where
  "settled iface Q out \<longleftrightarrow>
     (\<exists>P. accounts (ifHosts iface) P out \<and> P + queued (ifMgr (fst out)) \<subseteq># queued (ifMgr iface) + Q)"

lemma settled_seq:
  assumes "settled iface Q out" "settled (fst out) Q' out'"
  shows "settled iface (Q + Q') (fst out', snd out @ snd out')"
proof -
  from assms obtain P P' where a: "accounts (ifHosts iface) P out" "accounts (ifHosts (fst out)) P' out'"
    and q: "P + queued (ifMgr (fst out)) \<subseteq># queued (ifMgr iface) + Q"
      "P' + queued (ifMgr (fst out')) \<subseteq># queued (ifMgr (fst out)) + Q'"
    by (auto simp: settled_def)
  have "P + (P' + queued (ifMgr (fst out'))) \<subseteq># P + (queued (ifMgr (fst out)) + Q')"
    using q(2) by simp
  also have "\<dots> \<subseteq># queued (ifMgr iface) + Q + Q'" using q(1) by (simp add: add.assoc [symmetric])
  finally show ?thesis using accounts_seq [OF a] unfolding settled_def by (auto simp: add.assoc)
qed

lemma settled_control:
  assumes "ifHosts (fst out) = ifHosts iface" "data_datagrams (snd out) = []" "queued (ifMgr (fst out)) \<subseteq># queued (ifMgr iface) + Q"
  shows "settled iface Q out"
  using accounts_control [OF assms(1,2), of "{#}"] assms(3) by (auto simp: settled_def)

lemma settled_same:
  "ifHosts (fst out) = ifHosts iface \<Longrightarrow> data_datagrams (snd out) = [] \<Longrightarrow> ifMgr (fst out) = ifMgr iface \<Longrightarrow> settled iface {#} out"
  by (simp add: settled_control)

lemma queued_inside:
  assumes "hsm_inv (ifMgr iface)"
  shows "queued (ifMgr (fst (consumeInsidePacket E i pkt iface))) \<subseteq># queued (ifMgr iface) + {#pkt#}"
proof -
  have weak: "A \<subseteq># B + {#pkt#}" if "A \<subseteq># B" for A B :: "bytes multiset"
    using that by (meson mset_subset_eq_add_left subset_mset.order_trans)
  have queue: "queued (QueuePacket ip pkt m) \<subseteq># queued (ifMgr iface) + {#pkt#}"
    if "queued m \<subseteq># queued (ifMgr iface)" "hsm_inv m" for ip m
    using queued_queue [OF that(2), of ip pkt] that(1) by (meson subset_mset.add_right_mono subset_mset.order_trans)
  note start = queued_start [of E "inBase i" _ _ _ "ifMgr iface"] and inv = hsm_inv_start [OF assms, of E "inBase i"]
  show ?thesis
    unfolding consumeInsidePacket_def Let_def case_prod_unfold
    using weak [OF subset_mset.order_refl] weak [OF start] queue [OF subset_mset.order_refl assms] queue [OF start inv]
    by (simp add: sendToRemote_eq Let_def split: option.split sum.split)
qed

lemma settled_inside:
  assumes "hm_ok (ifHosts iface) (ifHostmap iface)" "hsm_inv (ifMgr iface)"
  shows "settled iface {#pkt#} (consumeInsidePacket E i pkt iface)"
proof (cases "\<exists>r fw. consumeInsidePacket E i pkt iface = sendToRemote r pkt (iface\<lparr>ifFw := fw\<rparr>) \<and> r < length (ifHosts iface)")
  case True
  then obtain r fw where s: "consumeInsidePacket E i pkt iface = sendToRemote r pkt (iface\<lparr>ifFw := fw\<rparr>)" "r < length (ifHosts iface)"
    by blast
  then have "accounts (ifHosts iface) {#pkt#} (consumeInsidePacket E i pkt iface)"
    using accounts_send [of r "iface\<lparr>ifFw := fw\<rparr>" pkt] by simp
  moreover have "ifMgr (fst (consumeInsidePacket E i pkt iface)) = ifMgr iface" using s(1) by (simp add: sendToRemote_eq Let_def)
  ultimately show ?thesis unfolding settled_def by (intro exI [of _ "{#pkt#}"]) simp
next
  case False
  have "r < length (ifHosts iface)" if "GetByVpnIP (ifHostmap iface) ip = Some r" for ip r
    using hm_okD(1) [OF assms(1) that] by simp
  with False have "ifHosts (fst (consumeInsidePacket E i pkt iface)) = ifHosts iface"
    "data_datagrams (snd (consumeInsidePacket E i pkt iface)) = []"
    by (auto simp: consumeInsidePacket_def Let_def case_prod_unfold data_control control_lighthouse control_start
        split: option.splits sum.splits if_splits)
  then show ?thesis by (rule settled_control) (rule queued_inside [OF assms(2)])
qed

lemma sealed_log_replay: "sealed_log hp [] (hp[r := snd (CheckReplay c (hp ! r))])"
proof (rule sealed_log_quiet)
  show "host_fixed (hp ! q) (hp[r := snd (CheckReplay c (hp ! r))] ! q) \<and>
      hCounter (hp[r := snd (CheckReplay c (hp ! r))] ! q) = hCounter (hp ! q)" if "q < length hp" for q
    using that by (cases "q = r") (simp_all add: host_fixed_def same_keys_def)
qed simp

lemma settled_message: "settled iface {#} (handleMessage i pkt h src iface)"
proof -
  have "sealed_log (ifHosts iface) [] (ifHosts (fst (handleMessage i pkt h src iface)))"
    by (simp add: handleMessage_def Let_def case_prod_unfold sealed_log_replay split: option.split sum.split)
  moreover have "data_datagrams (snd (handleMessage i pkt h src iface)) = []"
    by (simp add: handleMessage_def Let_def case_prod_unfold data_control RespondToPunch_def split: option.split sum.split)
  ultimately have "accounts (ifHosts iface) {#} (handleMessage i pkt h src iface)" using accounts_quiet by (metis prod.collapse)
  then show ?thesis by (auto simp: settled_def message_mgr)
qed

lemma settled_handshake:
  assumes "hsm_inv (ifMgr iface)"
  shows "settled iface {#} (handleHandshake E i pkt h src iface)"
proof -
  let ?s0 = "HandleStage0 E (inBase i) pkt src (ifMgr iface)" and ?s1 = "HandleStage1 E (inBase i) pkt (ifMgr iface)"
  have s0: "hCounter host = 0 \<and> q = []" if "fst ?s0 = Inr (host, q)" for host q
    using HandleStage0_Inr [of E "inBase i" pkt src "ifMgr iface" host q] that by (cases ?s0) (auto simp: newHost_def)
  have s1: "hCounter host = 0" if "fst ?s1 = Inr (host, q)" for host q
    using HandleStage1_Inr [OF that] by (auto simp: newHost_def)
  have out: "settled iface {#} (iface, udp_events (snd ?s0))"
    by (simp add: settled_same data_control control_stage0)
  have c0: "settled iface {#} (fst (onHandshakeComplete host q iface), udp_events (snd ?s0) @ snd (onHandshakeComplete host q iface))"
    if "fst ?s0 = Inr (host, q)" for host q
  proof -
    have "settled iface {#} (onHandshakeComplete host q iface)"
      using accounts_complete [of host iface q] s0 [OF that] by (auto simp: settled_def complete_mgr)
    from settled_seq [OF out, simplified, OF this] show ?thesis by simp
  qed
  have c1: "settled iface {#} (onHandshakeComplete host q (iface\<lparr>ifMgr := snd ?s1\<rparr>))" if "fst ?s1 = Inr (host, q)" for host q
    using accounts_complete [OF s1 [OF that], of "iface\<lparr>ifMgr := snd ?s1\<rparr>" q] queued_stage1 [OF assms, of E "inBase i" pkt] that
    unfolding settled_def by (intro exI [of _ "mset q"]) (simp add: complete_mgr)
  have f1: "settled iface {#} (iface\<lparr>ifMgr := snd ?s1\<rparr>, [])"
    using queued_stage1 [OF assms, of E "inBase i" pkt]
    by (intro settled_control) (auto dest: subset_mset.order_trans [OF mset_subset_eq_add_right])
  show ?thesis
    using out c0 c1 f1 by (auto simp: handleHandshake_def Let_def case_prod_unfold settled_same split: sum.splits)
qed

lemma settled_outside:
  assumes "hsm_inv (ifMgr iface)"
  shows "settled iface {#} (consumeOutsidePacket E i pkt src iface)"
proof -
  have "\<not> is_data (Bytes \<lparr>hdrVersion = Version, hdrType = TypeTest, hdrSubType = 0, hdrRemoteIndex = 0, hdrMessageCounter = 0\<rparr>)"
    using not_data_framed [of "\<lparr>hdrVersion = Version, hdrType = TypeTest, hdrSubType = 0, hdrRemoteIndex = 0, hdrMessageCounter = 0\<rparr>" "[]"]
    by (simp add: TypeTest_def TypeMessage_def)
  then show ?thesis
    by (simp add: consumeOutsidePacket_def settled_message settled_handshake [OF assms] settled_same handleLightHouse_def handleTest_def
        handleCloseTunnel_def data_control control_lighthouse Let_def case_prod_unfold split: option.split sum.split)
qed

text \<open>The packets a step, or a run, reads from the TUN device.\<close>

primrec tun_reads :: "iface_op list \<Rightarrow> bytes list" where
  "tun_reads [] = []"
| "tun_reads (op # ops) = (case op of FromTun _ pkt \<Rightarrow> [pkt] | _ \<Rightarrow> []) @ tun_reads ops"

lemma settled_step:
  assumes "iface_reach E iface"
  shows "settled iface (mset (tun_reads [op])) (iface_step E op iface)"
proof -
  have inv: "hsm_inv (ifMgr iface)" and st: "stored_control (ifMgr iface)"
    using iface_reach_mgr [OF assms] hsm_reach_inv by blast+
  from inv st have "control (snd (retryPending now order (ifMgr iface)))" for now order
    using control_retry by blast
  with iface_reach_sessions [OF assms] inv show ?thesis
    by (cases op)
      (simp_all add: settled_inside settled_outside settled_same settled_control queued_tick data_control control_lighthouse
        Let_def case_prod_unfold)
qed

lemma settled_run:
  "iface_reach E iface \<Longrightarrow> settled iface (mset (tun_reads ops)) (run_state E ops iface, run_sends E ops iface)"
proof (induction ops arbitrary: iface)
  case (Cons op ops)
  have "iface_reach E (fst (iface_step E op iface))"
    using reach_step [OF Cons.prems, of op "fst (iface_step E op iface)" "snd (iface_step E op iface)"] by simp
  from settled_seq [OF settled_step [OF Cons.prems] Cons.IH [OF this]] show ?case
    by (simp add: add.commute)
qed (simp add: settled_same)

lemma accounts_run:
  assumes "iface_reach E iface"
  shows "\<exists>Q. accounts (ifHosts iface) Q (run_state E ops iface, run_sends E ops iface) \<and> Q \<subseteq># queued (ifMgr iface) + mset (tun_reads ops)"
proof -
  from settled_run [OF assms, of ops] obtain P where
    "accounts (ifHosts iface) P (run_state E ops iface, run_sends E ops iface)"
    "P + queued (ifMgr (run_state E ops iface)) \<subseteq># queued (ifMgr iface) + mset (tun_reads ops)"
    by (auto simp: settled_def)
  then show ?thesis by (meson mset_subset_eq_add_left subset_mset.order_trans)
qed

section \<open>Distinctness\<close>

lemma distinct_counters_after: "n < 2 ^ 64 \<Longrightarrow> distinct (counters_after c n)"
proof -
  assume n: "n < 2 ^ 64"
  have "inj_on (\<lambda>k. c + word_of_nat (Suc k)) {0..<n}"
  proof (rule inj_onI)
    fix j k
    assume jk: "j \<in> {0..<n}" "k \<in> {0..<n}" "c + word_of_nat (Suc j) = c + word_of_nat (Suc k)"
    then have "unat (word_of_nat j :: u64) = unat (word_of_nat k :: u64)" by simp
    moreover have u: "unat (word_of_nat i :: u64) = i" if "i < n" for i
      using counter_offset [of 0 i] n that by simp
    from jk have "j < n" "k < n" by simp_all
    ultimately show "j = k" by (simp only: u)
  qed
  then show ?thesis by (simp add: counters_after_def distinct_map)
qed

lemma distinct_by_session:
  "(\<And>r. distinct (counters_of r log)) \<Longrightarrow> distinct (map (\<lambda>(r, c, p). (r, c)) log)"
proof (induction log)
  case (Cons e log)
  obtain r c p where e: "e = (r, c, p)" using prod_cases3 by blast
  from Cons.prems [of r] have "c \<notin> set (counters_of r log)" by (simp add: e)
  then have "(r, c) \<notin> set (map (\<lambda>(r, c, p). (r, c)) log)" by (force simp: counters_of_def)
  moreover have "distinct (counters_of r' log)" for r' using Cons.prems [of r'] by (auto simp: e split: if_splits)
  ultimately show ?case using Cons.IH by (simp add: e)
qed simp

lemma length_counters_of: "length (counters_of r log) \<le> length log"
  by (simp add: counters_of_def)

lemma sealed_log_distinct:
  assumes "sealed_log hp log hp'" "length log < 2 ^ 64"
  shows "distinct (map (\<lambda>(r, c, p). (r, c)) log)"
proof (rule distinct_by_session)
  fix r
  from assms(1) have "counters_of r log = counters_after (counter_at hp r) (length (counters_of r log))"
    unfolding sealed_log_def by blast
  moreover have "distinct (counters_after (counter_at hp r) (length (counters_of r log)))"
    by (rule distinct_counters_after, rule le_less_trans [OF length_counters_of assms(2)])
  ultimately show "distinct (counters_of r log)" by simp
qed

section \<open>Properties\<close>

text \<open>
  No nonce is ever used twice under a session's key.  In any run of the daemon that sends fewer
  than two to the 64 data datagrams, each of them is the seal of some packet under some session and
  counter, and no two of them share both.
\<close>
theorem nonces_never_repeat:
  assumes "iface_reach E iface" "length (data_datagrams (run_sends E ops iface)) < 2 ^ 64"
  shows "\<exists>log. data_datagrams (run_sends E ops iface) =
      map (\<lambda>(r, c, p). data_packet (ifHosts (run_state E ops iface) ! r) c p) log \<and>
    distinct (map (\<lambda>(r, c, p). (r, c)) log)"
proof -
  from accounts_run [OF assms(1)] obtain log where
    l: "sealed_log (ifHosts iface) log (ifHosts (run_state E ops iface))"
      "data_datagrams (run_sends E ops iface) = log_datagrams (ifHosts (run_state E ops iface)) log"
    unfolding accounts_def fst_conv snd_conv by blast
  then have "length log = length (data_datagrams (run_sends E ops iface))" by (simp add: log_datagrams_def)
  with assms(2) have "distinct (map (\<lambda>(r, c, p). (r, c)) log)" by (intro sealed_log_distinct [OF l(1)]) simp
  with l(2) show ?thesis unfolding log_datagrams_def by blast
qed

theorem nonces_never_repeat_witness:
  "\<exists>iface log. length log = 3 \<and>
    data_datagrams (run_sends sample_libs (map (FromTun (sample_in 1)) [sample_reply 1, sample_reply 1, sample_reply 2]) iface) =
      map (\<lambda>(r, c, p). data_packet (ifHosts (run_state sample_libs
        (map (FromTun (sample_in 1)) [sample_reply 1, sample_reply 1, sample_reply 2]) iface) ! r) c p) log \<and>
    distinct (map (\<lambda>(r, c, p). (r, c)) log)"
proof -
  let ?pkts = "[sample_reply 1, sample_reply 1, sample_reply 2]"
  obtain iface a where s: "iface_reach sample_libs iface" "receiver_of iface 0 a" "\<forall>b. outgoing iface 0 (sample_reply b)"
    using sample_session by metis
  then have "0 < length (ifHosts iface)" by (simp add: receiver_of_def)
  from send_stream [OF this, of ?pkts sample_libs "sample_in 1"] s(3)
  have l: "length (data_datagrams (run_sends sample_libs (map (FromTun (sample_in 1)) ?pkts) iface)) = 3"
    by (simp add: upt_rec)
  then have "length (data_datagrams (run_sends sample_libs (map (FromTun (sample_in 1)) ?pkts) iface)) < 2 ^ 64" by simp
  from nonces_never_repeat [OF s(1) this] l show ?thesis by (metis length_map)
qed

end
