(* ===== verification/Neth_Discipline.thy ===== *)
theory Neth_Discipline
  imports Neth_Threads Neth_Nonces
begin

text \<open>
  The discipline of the threads of \<open>Neth_Threads\<close>, whatever others do between their actions: counters
  are drawn one at a time and each is used for one packet, a packet is written only after a session's
  window has accepted its counter and its key has opened it, and only packets that were read or
  queued are sealed.
\<close>

section \<open>What one thread may do\<close>

text \<open>
  What a thread holds between two actions: nothing, a counter it has drawn for a session and not yet
  used, or a packet a session has accepted under a counter and that is not yet written.
\<close>

datatype holding = Idle | Sealing href u64 | Accepted href u64 bytes

text \<open>The datagram of the operation opens, under the receive key of session \<open>r\<close> and the counter it carries, as the packet \<open>p\<close>.\<close>

definition opens :: "iface_op \<Rightarrow> host_heap \<Rightarrow> href \<times> u64 \<times> bytes \<Rightarrow> bool" where
  "opens op hp = (\<lambda>(r, c, p). \<exists>i d src h. op = FromUdp i d src \<and> Parse d = Inr h \<and> hdrType h = TypeMessage \<and>
     hdrMessageCounter h = c \<and> Decrypt (hRecvCipher (hp ! r)) c (take HeaderLen d) (drop HeaderLen d) = Inr p)"

text \<open>
  One action of a thread on the sessions: what it holds before and after, the events, and the packets it seals.
\<close>

inductive micro ::
  "iface_op \<Rightarrow> holding \<Rightarrow> host_heap \<Rightarrow> host_heap \<Rightarrow> event list \<Rightarrow> holding \<Rightarrow> bytes multiset \<Rightarrow> bool" for op hold hp where
  m_quiet: "grows hp hp' \<Longrightarrow> sealed_log hp [] hp' \<Longrightarrow> data_datagrams ev = [] \<Longrightarrow> tun_writes ev = [] \<Longrightarrow>
    micro op hold hp hp' ev hold {#}"
| m_draw: "r < length hp \<Longrightarrow> c = hCounter (hp ! r) + 1 \<Longrightarrow>
    micro op hold hp (hp[r := (hp ! r)\<lparr>hCounter := c\<rparr>]) [] (Sealing r c) {#}"
| m_seal: "hold = Sealing r c \<Longrightarrow> micro op hold hp hp [Udp (data_packet (hp ! r) c p) a] Idle {#p#}"
| m_accept: "r < length hp \<Longrightarrow> \<not> fst (CheckReplay c (hp ! r)) \<Longrightarrow> opens op hp (r, c, p) \<Longrightarrow>
    micro op hold hp (hp[r := snd (CheckReplay c (hp ! r))]) [] (Accepted r c p) {#}"
| m_discard: "r < length hp \<Longrightarrow> micro op hold hp (hp[r := snd (CheckReplay c (hp ! r))]) [] Idle {#}"
| m_write: "hold = Accepted r c p \<Longrightarrow> micro op hold hp hp [Tun p] Idle {#}"

definition good :: "'hs Interface \<Rightarrow> bool" where
  "good s \<longleftrightarrow> hm_ok (ifHosts s) (ifHostmap s) \<and> hsm_inv (ifMgr s) \<and> stored_control (ifMgr s)"

text \<open>
  A thread that keeps to this discipline from any well-formed state with at least \<open>N\<close> sessions, and goes
  on doing so whatever the others do meanwhile.  It carries the packets \<open>Q\<close>: what it seals, or leaves in the
  queue of a pending handshake, it carried or found queued.
\<close>

primrec disciplined :: "iface_op \<Rightarrow> 'hs thread \<Rightarrow> nat \<Rightarrow> holding \<Rightarrow> bytes multiset \<Rightarrow> bool" where
  "disciplined op Stop N hold Q = True"
| "disciplined op (Step act next) N hold Q =
     (\<forall>s. N \<le> length (ifHosts s) \<and> good s \<longrightarrow>
        good (fst (act s)) \<and>
        (\<exists>hold' P Q'. micro op hold (ifHosts s) (ifHosts (fst (act s))) (snd (act s)) hold' P \<and>
           P + Q' + queued (ifMgr (fst (act s))) \<subseteq># Q + queued (ifMgr s) \<and>
           disciplined op (next s) (length (ifHosts (fst (act s)))) hold' Q'))"

lemma disciplined_mono: "disciplined op t N hold Q \<Longrightarrow> N \<le> N' \<Longrightarrow> disciplined op t N' hold Q"
  by (cases t) auto

lemma disciplined_call:
  "(\<And>s. N \<le> length (ifHosts s) \<Longrightarrow> good s \<Longrightarrow> good (fst (snd (f s))) \<and>
      (\<exists>hold' P Q'. micro op hold (ifHosts s) (ifHosts (fst (snd (f s)))) (snd (snd (f s))) hold' P \<and>
        P + Q' + queued (ifMgr (fst (snd (f s)))) \<subseteq># Q + queued (ifMgr s) \<and>
        disciplined op (k (fst (f s))) (length (ifHosts (fst (snd (f s))))) hold' Q')) \<Longrightarrow>
   disciplined op (call f k) N hold Q"
  by (simp add: call_def)

lemma disciplined_act:
  fixes P Q' :: "bytes multiset"
  assumes "\<And>s. N \<le> length (ifHosts s) \<Longrightarrow> good s \<Longrightarrow> good (fst (snd (f s))) \<and>
      micro op hold (ifHosts s) (ifHosts (fst (snd (f s)))) (snd (snd (f s))) (hold' s) P \<and> ifMgr (fst (snd (f s))) = ifMgr s \<and>
      disciplined op (k (fst (f s))) (length (ifHosts (fst (snd (f s))))) (hold' s) Q'"
  shows "disciplined op (call f k) N hold (P + Q')"
  using assms by (intro disciplined_call) (metis subset_mset.order_refl)

lemma m_same: "data_datagrams ev = [] \<Longrightarrow> tun_writes ev = [] \<Longrightarrow> micro op hold hp hp ev hold {#}"
  by (simp add: m_quiet)

text \<open>An action that leaves the sessions alone and passes packets between the thread and the queues.\<close>

lemma disciplined_pass:
  assumes "\<And>s. good s \<Longrightarrow> good (fst (snd (f s))) \<and> ifHosts (fst (snd (f s))) = ifHosts s \<and>
      data_datagrams (snd (snd (f s))) = [] \<and> tun_writes (snd (snd (f s))) = [] \<and>
      Q' (fst (f s)) + queued (ifMgr (fst (snd (f s)))) \<subseteq># Q + queued (ifMgr s)"
    and "\<And>s. N \<le> length (ifHosts s) \<Longrightarrow> good s \<Longrightarrow> disciplined op (k (fst (f s))) (length (ifHosts s)) hold (Q' (fst (f s)))"
  shows "disciplined op (call f k) N hold Q"
proof (rule disciplined_call)
  fix s :: "'a Interface"
  assume "N \<le> length (ifHosts s)" "good s"
  with assms m_same show "good (fst (snd (f s))) \<and> (\<exists>hold' P Q'.
      micro op hold (ifHosts s) (ifHosts (fst (snd (f s)))) (snd (snd (f s))) hold' P \<and>
      P + Q' + queued (ifMgr (fst (snd (f s)))) \<subseteq># Q + queued (ifMgr s) \<and>
      disciplined op (k (fst (f s))) (length (ifHosts (fst (snd (f s))))) hold' Q')"
    by (metis empty_neutral(1))
qed

lemma disciplined_quiet:
  assumes "\<And>s. good s \<Longrightarrow> good (fst (snd (f s))) \<and> ifHosts (fst (snd (f s))) = ifHosts s \<and>
      data_datagrams (snd (snd (f s))) = [] \<and> tun_writes (snd (snd (f s))) = [] \<and>
      queued (ifMgr (fst (snd (f s)))) \<subseteq># queued (ifMgr s)"
    and "\<And>s. N \<le> length (ifHosts s) \<Longrightarrow> good s \<Longrightarrow> disciplined op (k (fst (f s))) (length (ifHosts s)) hold Q"
  shows "disciplined op (call f k) N hold Q"
  by (rule disciplined_pass [where Q' = "\<lambda>_. Q"]) (use assms in simp_all)

lemma disciplined_look:
  "(\<And>s. N \<le> length (ifHosts s) \<Longrightarrow> good s \<Longrightarrow> disciplined op (k (g s)) (length (ifHosts s)) hold Q) \<Longrightarrow>
   disciplined op (look g k) N hold Q"
  unfolding look_def by (rule disciplined_quiet) simp_all

lemma good_simps [simp]:
  "good (s\<lparr>ifFw := fw\<rparr>) = good s" "good (s\<lparr>ifLh := lh\<rparr>) = good s" "good (s\<lparr>ifPeerCerts := pc\<rparr>) = good s"
  by (simp_all add: good_def)

lemma good_mgr: "good s \<Longrightarrow> hsm_inv m \<Longrightarrow> stored_control m \<Longrightarrow> good (s\<lparr>ifMgr := m\<rparr>)"
  by (simp add: good_def)

lemma goodD: "good s \<Longrightarrow> hm_ok (ifHosts s) (ifHostmap s)" "good s \<Longrightarrow> hsm_inv (ifMgr s)" "good s \<Longrightarrow> stored_control (ifMgr s)"
  by (simp_all add: good_def)

section \<open>The handlers keep to it\<close>

lemma disciplined_queue: "disciplined op (queue_t ip pkt) N hold {#pkt#}"
  unfolding queue_t_def
  by (rule disciplined_pass [where Q' = "\<lambda>_. {#}"])
    (auto simp: good_def hsm_inv_queue stored_control_queue dest: queued_queue [of _ ip pkt])

lemma disciplined_allow:
  assumes "disciplined op k N hold Q"
  shows "disciplined op (allow_t rules now ip gs port proto k) N hold Q"
proof -
  note k = disciplined_mono [OF assms]
  show ?thesis
    unfolding allow_t_def
    by (intro disciplined_look) (auto simp: Let_def case_prod_unfold k intro!: disciplined_quiet)
qed

lemma sendToRemote_t_eq:
  "sendToRemote_t r p k =
     call (\<lambda>s. (hCounter (ifHosts s ! r) + 1,
         s\<lparr>ifHosts := (ifHosts s)[r := (ifHosts s ! r)\<lparr>hCounter := hCounter (ifHosts s ! r) + 1\<rparr>]\<rparr>, []))
       (\<lambda>c. call (\<lambda>s. ((), s, [Udp (data_packet (ifHosts s ! r) c p) (hRemote (ifHosts s ! r))])) (\<lambda>_. k))"
  by (simp add: sendToRemote_t_def Encrypt_def data_packet_def data_header_def Let_def)

lemma good_update: "good s \<Longrightarrow> same_keys (ifHosts s ! r) h \<Longrightarrow> good (s\<lparr>ifHosts := (ifHosts s)[r := h]\<rparr>)"
  by (simp add: good_def hm_ok_update)

lemma disciplined_send:
  assumes "r < N" "\<And>M. N \<le> M \<Longrightarrow> disciplined op k M Idle Q"
  shows "disciplined op (sendToRemote_t r p k) N hold (add_mset p Q)"
proof -
  have seal: "disciplined op (call (\<lambda>s. ((), s, [Udp (data_packet (ifHosts s ! r) c p) (hRemote (ifHosts s ! r))])) (\<lambda>_. k))
      M (Sealing r c) (add_mset p Q)" if "N \<le> M" for c M
    by (rule disciplined_act [where P = "{#p#}" and Q' = Q and hold' = "\<lambda>_. Idle", simplified]) (use assms(2) that in \<open>simp add: m_seal\<close>)
  show ?thesis
    unfolding sendToRemote_t_eq
    by (rule disciplined_act [where P = "{#}" and hold' = "\<lambda>s. Sealing r (hCounter (ifHosts s ! r) + 1)", simplified])
      (use assms(1) seal in \<open>auto simp: good_update same_keys_def intro!: m_draw\<close>)
qed

lemma disciplined_sendAll: "r < N \<Longrightarrow> disciplined op (sendAll_t r pkts) N hold (mset pkts)"
  by (induction pkts arbitrary: N hold) (simp_all add: disciplined_send)

lemma disciplined_complete:
  assumes "fresh_host h" "hCounter h = 0"
  shows "disciplined op (onHandshakeComplete_t h pend) N hold (mset pend)"
proof -
  have add: "good (s\<lparr>ifHosts := ifHosts s @ [h], ifHostmap := Add (ifHosts s @ [h]) (length (ifHosts s)) (ifHostmap s)\<rparr>)"
    if "good s" for s :: "'a Interface"
    using that by (simp add: good_def hm_ok_add hm_ok_grow)
  have cert: "disciplined op (call (\<lambda>s. ((), s\<lparr>ifPeerCerts := (ifPeerCerts s)(hVpnIP h \<mapsto> c)\<rparr>, [])) (\<lambda>_. sendAll_t r pend))
      M hold (mset pend)" if "r < M" for r M c
    using that by (auto simp: disciplined_sendAll intro!: disciplined_quiet)
  show ?thesis
    unfolding onHandshakeComplete_t_def
    by (cases "hCert h"; rule disciplined_act [where P = "{#}" and hold' = "\<lambda>_. hold", simplified])
      (auto simp: Let_def add cert disciplined_sendAll assms intro!: m_quiet grows_append sealed_log_append)
qed

lemma disciplined_inside: "disciplined op (consumeInsidePacket_t E i pkt) N Idle {#pkt#}"
proof -
  have dial: "disciplined op (dial_t E i ip pkt) M Idle {#pkt#}" for ip M
    unfolding dial_t_def
    by (auto simp: disciplined_queue good_def hsm_inv_start stored_control_start data_control control_lighthouse control_start
        queued_start Let_def case_prod_unfold split: option.split sum.split intro!: disciplined_look disciplined_quiet)
  show ?thesis
    unfolding consumeInsidePacket_t_def
    by (auto simp: dial good_def dest!: hm_okD(1) split: option.split intro!: disciplined_look disciplined_allow disciplined_send)
qed

lemma disciplined_receive:
  assumes "op = FromUdp i pkt src" "Parse pkt = Inr h" "hdrType h = TypeMessage" "r < N"
  shows "disciplined op (receive_t i' pkt h r) N Idle {#}"
  unfolding receive_t_def
proof (rule disciplined_call, goal_cases)
  case (1 s)
  let ?c = "hdrMessageCounter h" and ?h = "ifHosts s ! r"
  let ?D = "Decrypt (hRecvCipher ?h) ?c (take HeaderLen pkt) (drop HeaderLen pkt)"
  have r: "r < length (ifHosts s)" using 1 assms(4) by simp
  have keep: "good (s\<lparr>ifHosts := (ifHosts s)[r := snd (CheckReplay ?c ?h)]\<rparr>)"
    using 1 by (intro good_update) (simp_all add: same_keys_def)
  have tunw: "disciplined op (allow_t inbound now ip gs port proto (emit [Tun p] Stop)) M (Accepted r ?c p) {#}"
    for now ip gs port proto p M
    unfolding emit_def by (intro disciplined_allow disciplined_act [where P = "{#}" and Q' = "{#}" and hold' = "\<lambda>_. Idle", simplified])
      (simp add: m_write)
  show ?case
  proof (cases "fst (CheckReplay ?c ?h) \<or> (\<exists>e. ?D = Inl e)")
    case True
    with keep r show ?thesis
      by (auto simp: Let_def case_prod_unfold intro!: exI [of _ Idle] exI [of _ "{#}"] exI [of _ "{#}"] m_discard)
  next
    case False
    then obtain p where p: "\<not> fst (CheckReplay ?c ?h)" "?D = Inr p" by (cases ?D) auto
    then have "micro op Idle (ifHosts s) ((ifHosts s)[r := snd (CheckReplay ?c ?h)]) [] (Accepted r ?c p) {#}"
      using r assms(1-3) by (intro m_accept) (auto simp: opens_def)
    with keep p show ?thesis
      by (auto simp: Let_def case_prod_unfold tunw split: option.split
          intro!: exI [of _ "Accepted r ?c p"] exI [of _ "{#}"] exI [of _ "{#}"])
  qed
qed

lemma disciplined_message:
  assumes "op = FromUdp i pkt src" "Parse pkt = Inr h" "hdrType h = TypeMessage"
  shows "disciplined op (handleMessage_t i' pkt h src') N Idle {#}"
  unfolding handleMessage_t_def
proof (rule disciplined_look, goal_cases)
  case (1 s)
  show ?case
  proof (cases "GetByIndex (ifHostmap s) (hdrRemoteIndex h)")
    case None
    then show ?thesis
      by (auto simp: RespondToPunch_def data_control split: option.split intro!: disciplined_quiet)
  next
    case (Some r)
    from hm_okD(2) [OF goodD(1) [OF 1(2)] this] Some show ?thesis by (simp add: disciplined_receive [OF assms])
  qed
qed

text \<open>The packets a completed handshake hands to its handler.\<close>

definition handed :: "'e + HostInfo \<times> bytes list \<Rightarrow> bytes multiset" where
  "handed result = (case result of Inl _ \<Rightarrow> {#} | Inr (h, q) \<Rightarrow> mset q)"

lemma disciplined_stage1:
  "disciplined op (call (\<lambda>s. let (result, mgr) = HandleStage1 E i pkt (ifMgr s) in (result, s\<lparr>ifMgr := mgr\<rparr>, []))
     (\<lambda>result. case result of Inl _ \<Rightarrow> Stop | Inr (host, pend) \<Rightarrow> onHandshakeComplete_t host pend)) N Idle {#}"
proof -
  have s1: "fresh_host host \<and> hCounter host = 0" if "fst (HandleStage1 E i pkt m) = Inr (host, q)" for m host q
    using HandleStage1_Inr [OF that] by (auto simp: fresh_newHost, simp add: newHost_def)
  show ?thesis
    by (rule disciplined_pass [where Q' = handed])
      (auto simp: good_def hsm_inv_stage1 stored_control_stage1 handed_def queued_stage1 Let_def case_prod_unfold s1 disciplined_complete
        split: sum.split)
qed

lemma disciplined_stage0:
  "disciplined op (call (\<lambda>s. let (result, out) = HandleStage0 E i pkt src (ifMgr s) in (result, s, udp_events out))
     (\<lambda>result. case result of Inl _ \<Rightarrow> Stop | Inr (host, pend) \<Rightarrow> onHandshakeComplete_t host pend)) N Idle {#}"
proof -
  have s0: "fresh_host host \<and> hCounter host = 0 \<and> q = []" if "fst (HandleStage0 E i pkt src m) = Inr (host, q)" for m host q
    using HandleStage0_Inr [of E i pkt src m host q] that
    by (cases "HandleStage0 E i pkt src m") (auto simp: fresh_newHost, simp add: newHost_def)
  show ?thesis
    by (rule disciplined_quiet)
      (auto simp: good_def data_control control_stage0 Let_def case_prod_unfold disciplined_complete [of _ _ "[]", simplified]
        split: sum.split dest!: s0)
qed

lemma disciplined_handshake: "disciplined op (handleHandshake_t E i pkt h src) N Idle {#}"
  unfolding handleHandshake_t_def using disciplined_stage0 disciplined_stage1 by (auto split: if_split)

lemma disciplined_outside: "disciplined (FromUdp i pkt src) (consumeOutsidePacket_t E i pkt src) N Idle {#}"
proof -
  have "\<not> is_data (Bytes \<lparr>hdrVersion = Version, hdrType = TypeTest, hdrSubType = 0, hdrRemoteIndex = 0, hdrMessageCounter = 0\<rparr>)"
    using not_data_framed [of "\<lparr>hdrVersion = Version, hdrType = TypeTest, hdrSubType = 0, hdrRemoteIndex = 0, hdrMessageCounter = 0\<rparr>" "[]"]
    by (simp add: TypeTest_def TypeMessage_def)
  then show ?thesis
    by (auto simp: consumeOutsidePacket_t_def disciplined_message disciplined_handshake handleLightHouse_t_def handleTest_t_def emit_def
        handleCloseTunnel_t_def data_control control_lighthouse good_def hm_ok_remove Let_def case_prod_unfold
        split: sum.split option.split intro!: disciplined_look disciplined_quiet)
qed

lemma thread_disciplined: "disciplined op (thread_of E op) N Idle (mset (tun_reads [op]))"
  by (cases op)
    (auto simp: disciplined_inside disciplined_outside good_def hsm_inv_tick stored_control_retry data_control control_retry
      control_lighthouse queued_tick Let_def case_prod_unfold intro!: disciplined_quiet)

end
