(* ===== verification/Neth_Races.thy ===== *)
theory Neth_Races
  imports Neth_Discipline
begin

text \<open>
  The goroutines of \<^verbatim>\<open>interface.go\<close> running at once.  Any number of handlers is under way, and at every
  moment any of them may take its next action.  No lock spans the drawing of a counter and the sealing
  of the packet, nor the replay check and the write to the TUN device; still no counter is
  used twice under a key, and no packet is written twice.
\<close>

section \<open>Interleaved threads\<close>

text \<open>
  The operations begun so far, the number of actions taken, the state, the threads under way (the
  remainder of each, in the order of the operations) and the events.
\<close>

inductive conc :: "('hs, 'cs) libs \<Rightarrow> iface_op list \<Rightarrow> nat \<Rightarrow> 'hs Interface \<Rightarrow> 'hs thread list \<Rightarrow> event list \<Rightarrow> bool"
  for E where
  conc_init: "iface_init s \<Longrightarrow> conc E [] 0 s [] []"
| conc_spawn: "conc E ops n s ts ev \<Longrightarrow> conc E (ops @ [op]) n s (ts @ [thread_of E op]) ev"
| conc_act: "conc E ops n s ts ev \<Longrightarrow> j < length ts \<Longrightarrow> ts ! j = Step act next \<Longrightarrow> act s = (s', ev') \<Longrightarrow>
    conc E ops (Suc n) s' (ts[j := next s]) (ev @ ev')"

section \<open>What all threads hold together\<close>

text \<open>
  The pairs of session and counter of a log, and those the threads hold; every pair is in one place only.
\<close>

definition pairs :: "(href \<times> u64 \<times> bytes) list \<Rightarrow> (href \<times> u64) multiset" where
  "pairs log = mset (map (\<lambda>(r, c, p). (r, c)) log)"

lemma pairs_simps [simp]: "pairs [] = {#}" "pairs (log @ [(r, c, p)]) = add_mset (r, c) (pairs log)"
  by (simp_all add: pairs_def)

lemma pairs_mem: "(r, c, p) \<in> set log \<Longrightarrow> (r, c) \<in># pairs log"
  by (force simp: pairs_def)

fun drawn :: "holding \<Rightarrow> (href \<times> u64) multiset" where
  "drawn (Sealing r c) = {#(r, c)#}"
| "drawn _ = {#}"

fun taken :: "holding \<Rightarrow> (href \<times> u64) multiset" where
  "taken (Accepted r c p) = {#(r, c)#}"
| "taken _ = {#}"

definition held :: "('h \<Rightarrow> 'a multiset) \<Rightarrow> 'h list \<Rightarrow> 'a multiset" where
  "held f holds = (\<Sum>h \<in># mset holds. f h)"

definition once :: "'a multiset \<Rightarrow> bool" where
  "once M \<longleftrightarrow> (\<forall>x. count M x \<le> 1)"

lemma held_snoc_Idle: "held drawn (holds @ [Idle]) = held drawn holds" "held taken (holds @ [Idle]) = held taken holds"
  by (simp_all add: held_def)

lemma held_update:
  assumes "j < length holds"
  obtains X where "held f holds = f (holds ! j) + X" "\<And>h. held f (holds[j := h]) = f h + X"
proof -
  have "mset holds = add_mset (holds ! j) (mset holds - {#holds ! j#})" using assms by (simp add: nth_mem)
  then have "held f holds = f (holds ! j) + (\<Sum>h \<in># mset holds - {#holds ! j#}. f h)"
    unfolding held_def by (metis image_mset_add_mset sum_mset.insert)
  moreover have "held f (holds[j := h]) = f h + (\<Sum>h \<in># mset holds - {#holds ! j#}. f h)" for h
    using assms by (simp add: held_def mset_update)
  ultimately show ?thesis using that by blast
qed

lemma once_mono: "once M \<Longrightarrow> M' \<subseteq># M \<Longrightarrow> once M'"
  unfolding once_def by (meson mset_subset_eq_count order_trans)

lemma once_add: "once (add_mset x M) \<longleftrightarrow> x \<notin># M \<and> once M"
proof
  assume *: "once (add_mset x M)"
  then have "count (add_mset x M) x \<le> 1" unfolding once_def by blast
  then have "x \<notin># M" by (simp add: not_in_iff)
  with once_mono [OF *] show "x \<notin># M \<and> once M" by simp
qed (auto simp: once_def not_in_iff)

lemma once_distinct: "once (mset xs) \<longleftrightarrow> distinct xs"
proof (induction xs)
  case (Cons x xs)
  then show ?case by (simp add: once_add)
qed (simp add: once_def)

section \<open>Counters\<close>

text \<open>
  The datagrams sent so far are the seals of a log.  As long as \<open>n\<close> counters do not exhaust the 64 bits, no
  counter is in the log or in a thread's hands twice.
\<close>

definition sends :: "nat \<Rightarrow> host_heap \<Rightarrow> holding list \<Rightarrow> event list \<Rightarrow> seal_log \<Rightarrow> bool" where
  "sends n hp holds ev log \<longleftrightarrow> data_datagrams ev = log_datagrams hp log \<and>
     (\<forall>r c. (r, c) \<in># pairs log + held drawn holds \<longrightarrow> r < length hp) \<and>
     (n < 2 ^ 64 \<longrightarrow> once (pairs log + held drawn holds) \<and>
       (\<forall>r c. (r, c) \<in># pairs log + held drawn holds \<longrightarrow> c \<le> hCounter (hp ! r)) \<and>
       (\<forall>r < length hp. unat (hCounter (hp ! r)) \<le> n))"

lemma log_datagrams_fixed:
  assumes "\<forall>r < length hp. host_fixed (hp ! r) (hp' ! r)" "\<And>r c. (r, c) \<in># pairs log \<Longrightarrow> r < length hp"
  shows "log_datagrams hp' log = log_datagrams hp log"
  using assms(1) data_packet_fixed assms(2) [OF pairs_mem] by (auto simp: log_datagrams_def) metis

lemma micro_fixed:
  "micro op hold hp hp' ev hold' P \<Longrightarrow> length hp \<le> length hp' \<and> (\<forall>r < length hp. host_fixed (hp ! r) (hp' ! r))"
  by (erule micro.cases) (auto simp: grows_def host_fixed_def same_keys_def nth_list_update)

lemma sendsD:
  assumes "sends n hp holds ev log"
  shows "data_datagrams ev = log_datagrams hp log" "(r, c) \<in># pairs log + held drawn holds \<Longrightarrow> r < length hp"
    "n < 2 ^ 64 \<Longrightarrow> once (pairs log + held drawn holds)"
    "n < 2 ^ 64 \<Longrightarrow> (r, c) \<in># pairs log + held drawn holds \<Longrightarrow> c \<le> hCounter (hp ! r)"
    "n < 2 ^ 64 \<Longrightarrow> r < length hp \<Longrightarrow> unat (hCounter (hp ! r)) \<le> n"
  using assms unfolding sends_def by blast+

lemma sends_log: "sends n hp holds ev log \<Longrightarrow> (r, c) \<in># pairs log \<Longrightarrow> r < length hp"
  by (simp add: sends_def)

lemma sends_mono:
  assumes "sends n hp holds ev log" "length hp \<le> length hp'" "\<forall>r < length hp. host_fixed (hp ! r) (hp' ! r)"
    and "\<forall>r < length hp. hCounter (hp' ! r) = hCounter (hp ! r)" "\<forall>r < length hp'. length hp \<le> r \<longrightarrow> hCounter (hp' ! r) = 0"
    and "held drawn holds' \<subseteq># held drawn holds" "data_datagrams ev' = []"
  shows "sends (Suc n) hp' holds' (ev @ ev') log"
proof -
  have sub: "pairs log + held drawn holds' \<subseteq># pairs log + held drawn holds" using assms(6) by simp
  have "r < length hp'" if "(r, c) \<in># pairs log + held drawn holds'" for r c
    using sendsD(2) [OF assms(1) mset_subset_eqD [OF sub that]] assms(2) by auto
  moreover have "c \<le> hCounter (hp' ! r)" if "(r, c) \<in># pairs log + held drawn holds'" "n < 2 ^ 64" for r c
    using sendsD(2,4) [OF assms(1)] mset_subset_eqD [OF sub that(1)] that(2) assms(4) by auto
  moreover have "unat (hCounter (hp' ! r)) \<le> Suc n" if "r < length hp'" "n < 2 ^ 64" for r
    using that sendsD(5) [OF assms(1), of r] assms(4,5) by (cases "r < length hp") auto
  ultimately show ?thesis
    using sendsD(1) [OF assms(1)] once_mono [OF sendsD(3) [OF assms(1)] sub] assms(7)
      log_datagrams_fixed [OF assms(3) sends_log [OF assms(1)], of log]
    unfolding sends_def by simp
qed

lemma counter_next: "unat (c :: u64) \<le> n \<Longrightarrow> Suc n < 2 ^ 64 \<Longrightarrow> unat (c + 1) = Suc (unat c)"
  using counter_offset [of c 1] by simp

lemma sends_draw:
  assumes "sends n hp holds ev log" "j < length holds" "r < length hp" "c = hCounter (hp ! r) + 1"
  shows "sends (Suc n) (hp[r := (hp ! r)\<lparr>hCounter := c\<rparr>]) (holds[j := Sealing r c]) ev log"
proof -
  let ?hp = "hp[r := (hp ! r)\<lparr>hCounter := c\<rparr>]" and ?holds = "holds[j := Sealing r c]"
  obtain X where X: "held drawn holds = drawn (holds ! j) + X" "\<And>h. held drawn (holds[j := h]) = drawn h + X"
    using held_update [OF assms(2)] by metis
  have old: "q < length hp" "n < 2 ^ 64 \<Longrightarrow> d \<le> hCounter (hp ! q)" if "(q, d) \<in># pairs log + X" for q d
    using that sendsD(2,4) [OF assms(1), of q d] X(1) by auto
  have "once (pairs log + held drawn ?holds)" "unat (hCounter (?hp ! q)) \<le> Suc n"
    "(q, d) \<in># pairs log + held drawn ?holds \<Longrightarrow> d \<le> hCounter (?hp ! q)"
    if n: "Suc n < 2 ^ 64" and q: "q < length hp" for q d
  proof -
    have c: "unat c = Suc (unat (hCounter (hp ! r)))"
      unfolding assms(4) using counter_next [OF sendsD(5) [OF assms(1) _ assms(3)] n] n by simp
    then have lt: "hCounter (hp ! r) < c" by (simp add: word_less_nat_alt)
    then have "(r, c) \<notin># pairs log + X" using old(2) n by (metis Suc_lessD leD)
    moreover have "once (pairs log + X)" using once_mono [OF sendsD(3) [OF assms(1)]] X(1) n by simp
    ultimately show "once (pairs log + held drawn ?holds)" unfolding X(2) by (simp add: once_add)
    show "unat (hCounter (?hp ! q)) \<le> Suc n"
      using q n sendsD(5) [OF assms(1), of q] c by (cases "q = r") auto
    show "d \<le> hCounter (?hp ! q)" if "(q, d) \<in># pairs log + held drawn ?holds"
      using that old(2) [of q d] lt assms(3) n unfolding X(2) by (cases "q = r") (auto intro: order_trans less_imp_le)
  qed
  moreover have "q < length ?hp" if "(q, d) \<in># pairs log + held drawn ?holds" for q d
    using that old(1) [of q d] assms(3) unfolding X(2) by auto
  moreover have "log_datagrams ?hp log = log_datagrams hp log"
    using grows_counter [of hp r c] by (intro log_datagrams_fixed [OF _ sends_log [OF assms(1)]]) (simp add: grows_def)
  ultimately show ?thesis
    using sendsD(1) [OF assms(1)] assms(3) unfolding sends_def by auto
qed

lemma sends_seal:
  assumes "sends n hp holds ev log" "j < length holds" "holds ! j = Sealing r c"
  shows "sends (Suc n) hp (holds[j := Idle]) (ev @ [Udp (data_packet (hp ! r) c p) a]) (log @ [(r, c, p)])"
proof -
  obtain X where X: "held drawn holds = drawn (holds ! j) + X" "\<And>h. held drawn (holds[j := h]) = drawn h + X"
    using held_update [OF assms(2)] by metis
  have eq: "pairs (log @ [(r, c, p)]) + held drawn (holds[j := Idle]) = pairs log + held drawn holds"
    unfolding X by (simp add: assms(3))
  have "unat (hCounter (hp ! q)) \<le> Suc n" if "q < length hp" "n < 2 ^ 64" for q
    using sendsD(5) [OF assms(1) that(2,1)] by simp
  moreover have "log_datagrams hp (log @ [(r, c, p)]) = log_datagrams hp log @ [data_packet (hp ! r) c p]"
    by (simp add: log_datagrams_def)
  ultimately show ?thesis
    using assms(1) unfolding sends_def eq by simp
qed

lemma sends_step:
  assumes "sends n hp holds ev log" "j < length holds" "micro op (holds ! j) hp hp' ev' hold' P"
  shows "\<exists>log'. sends (Suc n) hp' (holds[j := hold']) (ev @ ev') log' \<and> log_packets log' = log_packets log + P"
proof -
  obtain X where X: "held drawn holds = drawn (holds ! j) + X" "\<And>h. held drawn (holds[j := h]) = drawn h + X"
    using held_update [OF assms(2)] by metis
  note f = micro_fixed [OF assms(3)]
  have keep: ?thesis if "sends (Suc n) hp' (holds[j := hold']) (ev @ ev') log" "P = {#}"
    using that by auto
  from assms(3) show ?thesis
  proof cases
    case m_quiet
    then have "\<forall>r < length hp. hCounter (hp' ! r) = hCounter (hp ! r)" "\<forall>r < length hp'. length hp \<le> r \<longrightarrow> hCounter (hp' ! r) = 0"
      by (auto simp: sealed_log_def counter_at_def) (metis order_less_le_trans, metis linorder_not_le)
    with m_quiet f show ?thesis by (intro keep sends_mono [OF assms(1)]) auto
  next
    case (m_draw r c)
    with sends_draw [OF assms(1,2)] show ?thesis by (intro keep) auto
  next
    case (m_seal r c p a)
    with sends_seal [OF assms(1,2)] show ?thesis by (intro exI [of _ "log @ [(r, c, p)]"]) auto
  next
    case (m_accept r c p)
    with f show ?thesis by (intro keep sends_mono [OF assms(1)]) (auto simp: X nth_list_update)
  next
    case (m_discard r c)
    with f show ?thesis by (intro keep sends_mono [OF assms(1)]) (auto simp: X nth_list_update)
  next
    case (m_write r c p)
    then show ?thesis by (intro keep sends_mono [OF assms(1)]) (auto simp: X)
  qed
qed

section \<open>Deliveries\<close>

definition receives :: "iface_op list \<Rightarrow> host_heap \<Rightarrow> holding list \<Rightarrow> event list \<Rightarrow> seal_log \<Rightarrow> (href \<Rightarrow> nat set) \<Rightarrow> bool" where
  "receives ops hp holds ev dels S \<longleftrightarrow> tun_writes ev = map (\<lambda>(r, c, p). p) dels \<and> once (pairs dels + held taken holds) \<and>
     remembering hp S \<and> (\<forall>r c. (r, c) \<in># pairs dels + held taken holds \<longrightarrow> r < length hp \<and> unat c \<in> S r) \<and>
     (\<forall>x \<in> set dels. \<exists>op \<in> set ops. opens op hp x) \<and>
     (\<forall>j r c p. j < length holds \<longrightarrow> holds ! j = Accepted r c p \<longrightarrow> opens (ops ! j) hp (r, c, p))"

lemma receivesD:
  assumes "receives ops hp holds ev dels S"
  shows "tun_writes ev = map (\<lambda>(r, c, p). p) dels" "once (pairs dels + held taken holds)" "remembering hp S"
    "(r, c) \<in># pairs dels + held taken holds \<Longrightarrow> r < length hp \<and> unat c \<in> S r"
    "(r, c, p) \<in> set dels \<Longrightarrow> \<exists>op \<in> set ops. opens op hp (r, c, p)"
    "j < length holds \<Longrightarrow> holds ! j = Accepted r c p \<Longrightarrow> opens (ops ! j) hp (r, c, p)"
  using assms unfolding receives_def by blast+

lemma opens_fixed: "opens op hp (r, c, p) \<Longrightarrow> host_fixed (hp ! r) (hp' ! r) \<Longrightarrow> opens op hp' (r, c, p)"
  by (auto simp: opens_def host_fixed_def)

lemma held_mem: "j < length holds \<Longrightarrow> x \<in># f (holds ! j) \<Longrightarrow> x \<in># held f holds"
  using held_update [of j holds f] by (metis union_iff)

lemma receives_mono:
  assumes R: "receives ops hp holds ev dels S" "j < length holds" and M: "micro (ops ! j) (holds ! j) hp hp' ev' hold' P"
    and S: "remembering hp' S'" "\<And>r. S r \<subseteq> S' r" and "tun_writes ev' = []" "taken hold' = {#} \<or> hold' = holds ! j"
  shows "receives ops hp' (holds[j := hold']) (ev @ ev') dels S'"
proof -
  obtain X where X: "held taken holds = taken (holds ! j) + X" "\<And>h. held taken (holds[j := h]) = taken h + X"
    using held_update [OF R(2)] by metis
  have sub: "pairs dels + held taken (holds[j := hold']) \<subseteq># pairs dels + held taken holds"
    unfolding X using assms(7) by auto
  note f = micro_fixed [OF M]
  have old: "r < length hp' \<and> unat c \<in> S' r \<and> host_fixed (hp ! r) (hp' ! r)" if "(r, c) \<in># pairs dels + held taken holds" for r c
    using receivesD(4) [OF R(1) that] f S(2) by fastforce
  have "opens (ops ! k) hp' (r, c, p)" if "k < length holds" "holds[j := hold'] ! k = Accepted r c p" for k r c p
  proof -
    have k: "holds ! k = Accepted r c p" using that assms(7) by (cases "k = j") auto
    with held_mem [OF that(1), of "(r, c)" taken] old opens_fixed receivesD(6) [OF R(1) that(1)] show ?thesis by force
  qed
  moreover have "\<exists>op \<in> set ops. opens op hp' (r, c, p)" if "(r, c, p) \<in> set dels" for r c p
    using receivesD(5) [OF R(1) that] old [of r c] pairs_mem [OF that] opens_fixed by (simp, blast)
  moreover have "r < length hp' \<and> unat c \<in> S' r" if "(r, c) \<in># pairs dels + held taken (holds[j := hold'])" for r c
    using old [OF mset_subset_eqD [OF sub that]] by simp
  ultimately show ?thesis
    using receivesD(1) [OF R(1)] once_mono [OF receivesD(2) [OF R(1)] sub] S(1) assms(6)
    unfolding receives_def by auto
qed

lemma receives_accept:
  assumes R: "receives ops hp holds ev dels S" "j < length holds" and M: "micro (ops ! j) (holds ! j) hp hp' [] (Accepted r c p) P"
    and a: "hp' = hp[r := snd (CheckReplay c (hp ! r))]" "r < length hp" "\<not> fst (CheckReplay c (hp ! r))" "opens (ops ! j) hp (r, c, p)"
  shows "receives ops hp' (holds[j := Accepted r c p]) ev dels (S(r := insert (unat c) (S r)))"
proof -
  let ?S = "S(r := insert (unat c) (S r))"
  obtain X where X: "held taken holds = taken (holds ! j) + X" "\<And>h. held taken (holds[j := h]) = taken h + X"
    using held_update [OF R(2)] by metis
  have S: "remembering hp' ?S" unfolding a(1) by (rule remembering_accept [OF receivesD(3) [OF R(1)] a(2,3)])
  have "micro (ops ! j) (holds ! j) hp hp' [] Idle {#}" unfolding a(1) by (rule m_discard [OF a(2)])
  from receives_mono [OF R this S] have I: "receives ops hp' (holds[j := Idle]) ev dels ?S" by (simp add: subset_insertI)
  have "unat c \<notin> S r"
    using win.remembers_verdict [of "hp ! r" "S r" c] receivesD(3) [OF R(1)] a(2,3) by (simp add: remembering_def)
  then have new: "(r, c) \<notin># pairs dels + X" using receivesD(4) [OF R(1), of r c] X(1) by auto
  have "opens (ops ! k) hp' (q, d, t)" if "k < length holds" "holds[j := Accepted r c p] ! k = Accepted q d t" for k q d t
  proof (cases "k = j")
    case True
    with that R(2) a(2,4) micro_fixed [OF M] opens_fixed show ?thesis by auto
  next
    case False
    with that receivesD(6) [OF I, of k] show ?thesis by simp
  qed
  with I new a(1,2) show ?thesis unfolding receives_def X(2) by (simp add: once_add)
qed

lemma receives_write:
  assumes "receives ops hp holds ev dels S" "j < length holds" "length holds \<le> length ops" "holds ! j = Accepted r c p"
  shows "receives ops hp (holds[j := Idle]) (ev @ [Tun p]) (dels @ [(r, c, p)]) S"
proof -
  obtain X where X: "held taken holds = taken (holds ! j) + X" "\<And>h. held taken (holds[j := h]) = taken h + X"
    using held_update [OF assms(2)] by metis
  have eq: "pairs (dels @ [(r, c, p)]) + held taken (holds[j := Idle]) = pairs dels + held taken holds"
    unfolding X by (simp add: assms(4))
  have "\<exists>op \<in> set ops. opens op hp (r, c, p)"
    using receivesD(6) [OF assms(1,2,4)] assms(2,3) by (meson nth_mem order_less_le_trans)
  moreover have "opens (ops ! k) hp (q, d, t)" if "k < length holds" "holds[j := Idle] ! k = Accepted q d t" for k q d t
    using that receivesD(6) [OF assms(1), of k] by (cases "k = j") auto
  ultimately show ?thesis
    using assms(1) unfolding receives_def eq by auto
qed

lemma receives_step:
  assumes R: "receives ops hp holds ev dels S" "j < length holds" "length holds \<le> length ops"
    and M: "micro (ops ! j) (holds ! j) hp hp' ev' hold' P"
  shows "\<exists>dels' S'. receives ops hp' (holds[j := hold']) (ev @ ev') dels' S'"
  using M
proof cases
  case m_quiet
  with receives_mono [OF R(1,2) M remembering_grows [OF receivesD(3) [OF R(1)]]] show ?thesis by blast
next
  case (m_draw r c)
  with receives_mono [OF R(1,2) M remembering_grows [OF receivesD(3) [OF R(1)]]] grows_counter show ?thesis by auto
next
  case (m_seal r c p a)
  with receives_mono [OF R(1,2) M, of S] receivesD(3) [OF R(1)] show ?thesis by auto
next
  case (m_accept r c p)
  with receives_accept [OF R(1,2), of hp' r c p] M show ?thesis by auto
next
  case (m_discard r c)
  have "\<exists>S'. remembering hp' S' \<and> (\<forall>r. S r \<subseteq> S' r)"
  proof (cases "fst (CheckReplay c (hp ! r))")
    case True
    with m_discard receivesD(3) [OF R(1)] show ?thesis by (auto simp: CheckReplay_reject)
  next
    case False
    with m_discard remembering_accept [OF receivesD(3) [OF R(1)], of r c] show ?thesis
      by (intro exI [of _ "S(r := insert (unat c) (S r))"]) auto
  qed
  with receives_mono [OF R(1,2) M] m_discard show ?thesis by auto
next
  case (m_write r c p)
  with receives_write [OF R] show ?thesis by auto
qed

section \<open>Every interleaving\<close>

lemma iface_init_good: "iface_init s \<Longrightarrow> good s"
  by (auto simp: iface_init_def good_def hm_ok_new hsm_inv_new) (simp add: stored_control_def NewHandshakeManager_def)

lemma receives_spawn:
  assumes "receives ops hp holds ev dels S" "length holds = length ops"
  shows "receives (ops @ [op]) hp (holds @ [Idle]) ev dels S"
  using assms unfolding receives_def held_snoc_Idle by (auto simp: nth_append less_Suc_eq)

text \<open>
  The invariant of all interleavings: what the threads hold, the packets \<open>Qs\<close> they carry and the \<open>log\<close> of the
  seals.  Every packet sealed, carried or queued was read from the TUN device.
\<close>

definition conc_inv :: "iface_op list \<Rightarrow> nat \<Rightarrow> 'hs Interface \<Rightarrow> 'hs thread list \<Rightarrow> event list \<Rightarrow> holding list \<Rightarrow>
    bytes multiset list \<Rightarrow> seal_log \<Rightarrow> bool" where
  "conc_inv ops n s ts ev holds Qs log \<longleftrightarrow> good s \<and> length ops = length ts \<and> length holds = length ts \<and> length Qs = length ts \<and>
     (\<forall>j < length ts. disciplined (ops ! j) (ts ! j) (length (ifHosts s)) (holds ! j) (Qs ! j)) \<and>
     (\<exists>dels S. receives ops (ifHosts s) holds ev dels S) \<and> sends n (ifHosts s) holds ev log \<and>
     log_packets log + held (\<lambda>Q. Q) Qs + queued (ifMgr s) \<subseteq># mset (tun_reads ops)"

lemma tun_reads_append: "tun_reads (ops @ ops') = tun_reads ops @ tun_reads ops'"
  by (induction ops) simp_all

lemma conc_inv_spawn:
  assumes "conc_inv ops n s ts ev holds Qs log"
  shows "conc_inv (ops @ [op]) n s (ts @ [thread_of E op]) ev (holds @ [Idle]) (Qs @ [mset (tun_reads [op])]) log"
proof -
  let ?Q = "mset (tun_reads [op])"
  have "disciplined ((ops @ [op]) ! j) ((ts @ [thread_of E op]) ! j) (length (ifHosts s)) ((holds @ [Idle]) ! j) ((Qs @ [?Q]) ! j)"
    if "j < length (ts @ [thread_of E op])" for j
    using that assms thread_disciplined [of op E] by (auto simp: conc_inv_def nth_append less_Suc_eq simp del: tun_reads.simps)
  moreover from assms obtain dels S where "receives ops (ifHosts s) holds ev dels S" "length holds = length ops"
    unfolding conc_inv_def by metis
  from receives_spawn [OF this] have "\<exists>dels S. receives (ops @ [op]) (ifHosts s) (holds @ [Idle]) ev dels S" by blast
  moreover have "sends n (ifHosts s) (holds @ [Idle]) ev log"
    using assms by (simp add: conc_inv_def sends_def held_snoc_Idle)
  moreover have "log_packets log + held (\<lambda>Q. Q) (Qs @ [?Q]) + queued (ifMgr s) \<subseteq># mset (tun_reads (ops @ [op]))"
  proof -
    have "held (\<lambda>Q. Q) (Qs @ [?Q]) = held (\<lambda>Q. Q) Qs + ?Q" by (simp add: held_def)
    moreover have "log_packets log + held (\<lambda>Q. Q) Qs + queued (ifMgr s) + ?Q \<subseteq># mset (tun_reads ops) + ?Q"
      using assms unfolding conc_inv_def by (intro subset_mset.add_right_mono) blast
    ultimately show ?thesis by (simp add: tun_reads_append ac_simps)
  qed
  ultimately show ?thesis using assms unfolding conc_inv_def by simp
qed

lemma conc_inv_micro:
  assumes "conc_inv ops n s ts ev holds Qs log" "j < length ts" "ts ! j = Step act next" "act s = (s', ev')"
  obtains hold' P Q' where "good s'" "micro (ops ! j) (holds ! j) (ifHosts s) (ifHosts s') ev' hold' P"
    "P + Q' + queued (ifMgr s') \<subseteq># Qs ! j + queued (ifMgr s)" "disciplined (ops ! j) (next s) (length (ifHosts s')) hold' Q'"
proof -
  have "disciplined (ops ! j) (Step act next) (length (ifHosts s)) (holds ! j) (Qs ! j)" "good s"
    using assms(1-3) unfolding conc_inv_def by metis+
  then show ?thesis using that assms(4) by auto
qed

lemma conc_inv_act:
  assumes inv: "conc_inv ops n s ts ev holds Qs log" and j: "j < length ts" "ts ! j = Step act next" "act s = (s', ev')"
  shows "\<exists>hold' Q' log'. conc_inv ops (Suc n) s' (ts[j := next s]) (ev @ ev') (holds[j := hold']) (Qs[j := Q']) log'"
proof -
  have d: "disciplined (ops ! k) (ts ! k) (length (ifHosts s)) (holds ! k) (Qs ! k)" if "k < length ts" for k
    using inv that by (simp add: conc_inv_def)
  have l: "j < length holds" "j < length Qs" "length holds \<le> length ops" "sends n (ifHosts s) holds ev log"
    using inv j(1) by (simp_all add: conc_inv_def)
  obtain hold' P Q' where h: "good s'" "micro (ops ! j) (holds ! j) (ifHosts s) (ifHosts s') ev' hold' P"
    "P + Q' + queued (ifMgr s') \<subseteq># Qs ! j + queued (ifMgr s)" "disciplined (ops ! j) (next s) (length (ifHosts s')) hold' Q'"
    by (rule conc_inv_micro [OF inv j])
  have "disciplined (ops ! k) (ts[j := next s] ! k) (length (ifHosts s')) (holds[j := hold'] ! k) (Qs[j := Q'] ! k)"
    if "k < length ts" for k
    using that disciplined_mono [OF d [OF that]] micro_fixed [OF h(2)] h(4) l by (cases "k = j") simp_all
  moreover from inv obtain dels S where "receives ops (ifHosts s) holds ev dels S" unfolding conc_inv_def by blast
  note receives_step [OF this l(1,3) h(2)]
  moreover from sends_step [OF l(4,1) h(2)] obtain log' where
    log: "sends (Suc n) (ifHosts s') (holds[j := hold']) (ev @ ev') log'" "log_packets log' = log_packets log + P" by blast
  moreover have "log_packets log' + held (\<lambda>Q. Q) (Qs[j := Q']) + queued (ifMgr s') \<subseteq># mset (tun_reads ops)"
  proof -
    obtain X where X: "held (\<lambda>Q. Q) Qs = Qs ! j + X" "held (\<lambda>Q. Q) (Qs[j := Q']) = Q' + X"
      using held_update [OF l(2), of "\<lambda>Q. Q"] by metis
    have "log_packets log + X + (P + Q' + queued (ifMgr s')) \<subseteq># log_packets log + X + (Qs ! j + queued (ifMgr s))"
      using h(3) by simp
    also have "\<dots> \<subseteq># mset (tun_reads ops)" using inv unfolding conc_inv_def X by (simp add: ac_simps)
    finally show ?thesis unfolding X log(2) by (simp add: ac_simps)
  qed
  ultimately show ?thesis using inv h(1) unfolding conc_inv_def by (intro exI [of _ hold'] exI [of _ Q'] exI [of _ log']) simp
qed

lemma conc_invariant: "conc E ops n s ts ev \<Longrightarrow> \<exists>holds Qs log. conc_inv ops n s ts ev holds Qs log"
proof (induction rule: conc.induct)
  case (conc_init s)
  then have "good s" "ifHosts s = []" "queued (ifMgr s) = {#}" using iface_init_good by (auto simp: iface_init_def)
  moreover have "receives [] [] [] [] [] (\<lambda>_. {})" by (simp add: receives_def held_def once_def remembering_def)
  moreover have "sends 0 [] [] [] []" by (simp add: sends_def held_def once_def log_datagrams_def)
  ultimately have "conc_inv [] 0 s [] [] [] [] []" unfolding conc_inv_def by (auto simp: held_def)
  then show ?case by blast
next
  case (conc_spawn ops n s ts ev op)
  with conc_inv_spawn show ?case by blast
next
  case (conc_act ops n s ts ev j act "next" s' ev')
  with conc_inv_act show ?case by metis
qed

text \<open>Running a thread to its end without interruption is one of the interleavings.\<close>

primrec actions :: "'hs thread \<Rightarrow> 'hs Interface \<Rightarrow> nat" where
  "actions Stop s = 0"
| "actions (Step act next) s = Suc (actions (next s) (fst (act s)))"

lemma actions_simps [simp]:
  "actions (call f k) s = Suc (actions (k (fst (f s))) (fst (snd (f s))))"
  "actions (look g k) s = Suc (actions (k (g s)) s)" "actions (emit ev t) s = Suc (actions t s)"
  by (simp_all add: call_def look_def emit_def)

lemma conc_exec:
  assumes "conc E ops n s ts ev" "j < length ts"
  shows "conc E ops (n + actions (ts ! j) s) (fst (exec (ts ! j) s)) (ts[j := Stop]) (ev @ snd (exec (ts ! j) s))"
  using assms
proof (induction "ts ! j" arbitrary: n s ts ev)
  case Stop
  then show ?case by (metis add_0_right actions.simps(1) append_Nil2 exec.simps(1) fst_conv list_update_id snd_conv)
next
  case (Step act "next")
  note eq = Step(2) [symmetric]
  obtain s' ev' where a: "act s = (s', ev')" by (cases "act s")
  have "conc E ops (Suc n) s' (ts[j := next s]) (ev @ ev')"
    by (rule conc_act [OF Step.prems eq a])
  from Step(1) [OF _ this] Step.prems(2) show ?case by (simp add: eq a case_prod_unfold Let_def)
qed

lemma conc_call:
  "conc E ops n s ts ev \<Longrightarrow> j < length ts \<Longrightarrow> ts ! j = call f k \<Longrightarrow>
     conc E ops (Suc n) (fst (snd (f s))) (ts[j := k (fst (f s))]) (ev @ snd (snd (f s)))"
  using conc_act [of E ops n s ts ev j "\<lambda>s. snd (f s)" "\<lambda>s. k (fst (f s))"] by (simp add: call_def)

lemma conc_look:
  "conc E ops n s ts ev \<Longrightarrow> j < length ts \<Longrightarrow> ts ! j = look g k \<Longrightarrow> conc E ops (Suc n) s (ts[j := k (g s)]) ev"
  using conc_call [of E ops n s ts ev j "\<lambda>s. (g s, s, [])" k] by (simp add: look_def)

lemma conc_calls:
  "conc E ops n s (ts[j := call f k]) ev \<Longrightarrow> j < length ts \<Longrightarrow>
     conc E ops (Suc n) (fst (snd (f s))) (ts[j := k (fst (f s))]) (ev @ snd (snd (f s)))"
  using conc_call [of E ops n s "ts[j := call f k]" ev j f k] by simp

lemma conc_looks:
  "conc E ops n s (ts[j := look g k]) ev \<Longrightarrow> j < length ts \<Longrightarrow> conc E ops (Suc n) s (ts[j := k (g s)]) ev"
  using conc_look [of E ops n s "ts[j := look g k]" ev j g k] by simp

lemma conc_start:
  assumes "conc E ops n s ts ev"
  shows "conc E (ops @ [op]) (n + actions (thread_of E op) s) (fst (exec (thread_of E op) s)) (ts @ [Stop])
    (ev @ snd (exec (thread_of E op) s))"
  using conc_exec [OF conc_spawn [OF assms], of "length ts" op] by simp

text \<open>The sequential runs are among them.\<close>

lemma conc_run:
  "conc E ops n s ts ev \<Longrightarrow> hm_ok (ifHosts s) (ifHostmap s) \<Longrightarrow>
     \<exists>m ts'. conc E (ops @ ops') m (run_state E ops' s) ts' (ev @ run_sends E ops' s)"
proof (induction ops' arbitrary: ops n s ts ev)
  case Nil
  then show ?case by auto
next
  case (Cons op ops')
  let ?s = "fst (iface_step E op s)"
  have "hm_ok (ifHosts ?s) (ifHostmap ?s)" using hm_ok_hosts_step [OF hosts_step_iface Cons.prems(2)] .
  from Cons.IH [OF _ this] conc_start [OF Cons.prems(1), of op] show ?case
    by (fastforce simp: exec_step [OF Cons.prems(2)])
qed

section \<open>Sample schedules\<close>

lemma conc_allow:
  assumes "conc E ops n s (ts[j := allow_t outbound now ip gs port proto k]) ev" "j < length ts"
    "fst (AllowOutbound (ifFw s) now ip gs port proto)"
  shows "\<exists>m \<le> 2. conc E ops (n + m) (s\<lparr>ifFw := snd (AllowOutbound (ifFw s) now ip gs port proto)\<rparr>) (ts[j := k]) ev"
proof (cases "IsEstablished (flowKey ip port proto) (ct (ifFw s))")
  case True
  then have "snd (AllowOutbound (ifFw s) now ip gs port proto) = ifFw s" by (simp add: AllowOutbound_def)
  moreover have "conc E ops (Suc n) s (ts[j := k]) ev"
    using conc_looks [OF assms(1,2) [unfolded allow_t_def]] True by simp
  ultimately show ?thesis by (intro exI [of _ 1]) simp
next
  case False
  then have e: "AllowOutbound (ifFw s) now ip gs port proto = ruleLoop (outbound (ifFw s)) (ifFw s) now ip gs port proto"
    by (simp add: AllowOutbound_def Let_def)
  have "conc E ops (Suc n) s (ts[j := call (\<lambda>s. let (allowed, fw) = ruleLoop (outbound (ifFw s)) (ifFw s) now ip gs port proto
      in (allowed, s\<lparr>ifFw := fw\<rparr>, [])) (\<lambda>allowed. if allowed then k else Stop)]) ev"
    using conc_looks [OF assms(1,2) [unfolded allow_t_def]] False by simp
  from conc_calls [OF this assms(2)] assms(3) have
    "conc E ops (Suc (Suc n)) (s\<lparr>ifFw := snd (AllowOutbound (ifFw s) now ip gs port proto)\<rparr>) (ts[j := k]) ev"
    unfolding e by (simp add: case_prod_unfold Let_def)
  then show ?thesis by (intro exI [of _ 2]) simp
qed

text \<open>A thread with a packet for session \<open>r\<close>, up to the moment it has drawn its counter.\<close>

lemma conc_draw:
  assumes "conc E ops n s ts ev" "j < length ts" "ts ! j = thread_of E (FromTun i p)" "outgoing s r p" "r < length (ifHosts s)"
    and c: "c = hCounter (ifHosts s ! r) + 1"
  shows "\<exists>m s'. m \<le> 4 \<and> ifHosts s' = (ifHosts s)[r := (ifHosts s ! r)\<lparr>hCounter := hCounter (ifHosts s ! r) + 1\<rparr>] \<and>
    outgoing s' r = outgoing s r \<and>
    conc E ops (n + m) s' (ts[j := call (\<lambda>s. ((), s, [Udp (data_packet (ifHosts s ! r) c p) (hRemote (ifHosts s ! r))])) (\<lambda>_. Stop)]) ev"
proof -
  from assms(4) obtain ip where ip: "dstIPFromIPv4 p = Some ip" "GetByVpnIP (ifHostmap s) ip = Some r"
    "fst (AllowOutbound (ifFw s) (inNow (inBase i)) ip (hostGroups s r) (dstPortFromIPv4 p) (protoFromIPv4 p))"
    by (auto simp: outgoing_def outb.verdict split: option.splits)
  let ?fw = "snd (AllowOutbound (ifFw s) (inNow (inBase i)) ip (hostGroups s r) (dstPortFromIPv4 p) (protoFromIPv4 p))"
  let ?s = "s\<lparr>ifFw := ?fw, ifHosts := (ifHosts s)[r := (ifHosts s ! r)\<lparr>hCounter := hCounter (ifHosts s ! r) + 1\<rparr>]\<rparr>"
  have "conc E ops (Suc n) s (ts[j := allow_t outbound (inNow (inBase i)) ip (hostGroups s r) (dstPortFromIPv4 p) (protoFromIPv4 p)
      (sendToRemote_t r p Stop)]) ev"
    using conc_look [OF assms(1,2)] assms(3) ip(1,2) by (fastforce simp: consumeInsidePacket_t_def)
  from conc_allow [OF this assms(2) ip(3)] obtain m where
    m: "m \<le> 2" "conc E ops (Suc n + m) (s\<lparr>ifFw := ?fw\<rparr>) (ts[j := sendToRemote_t r p Stop]) ev"
    by auto
  from conc_calls [OF m(2) [unfolded sendToRemote_t_eq] assms(2)] c
  have "conc E ops (n + (m + 2)) ?s (ts[j := call (\<lambda>s. ((), s, [Udp (data_packet (ifHosts s ! r) c p) (hRemote (ifHosts s ! r))])) (\<lambda>_. Stop)]) ev"
    by simp
  moreover have "outgoing ?s r = outgoing s r"
    using assms(5) by (simp add: outgoing_def fun_eq_iff outb.frame hostGroups_def split: option.split)
  ultimately show ?thesis using m(1) by (intro exI [of _ "m + 2"] exI [of _ ?s]) simp
qed

text \<open>The second node of the sample pair once its session is up.\<close>

lemma sample_conc:
  obtains op ev k1 k2 where "aesKey k1" "aesKey k2" "data_datagrams ev = []" "tun_writes ev = []"
    "conc sample_libs [op] 3 (fst (onHandshakeComplete (sample_end 8 7 k2 k1) [] (sample_iface 2 1))) [Stop] ev"
proof -
  let ?u = "\<lparr>udpIP = [], udpPort = 2\<rparr>" and ?s = "sample_iface 2 1"
  obtain p0 p1 k1 k2 where k: "aesKey k1" "aesKey k2" and d: "handshake_datagram HandshakeInitiation p0" and
    s: "HandleStage0 sample_libs (sample_input 8) p0 ?u (sample_manager 2) = (Inr (sample_end 8 7 k2 k1, []), [(p1, ?u)])"
    by (rule sample_stage0)
  let ?op = "FromUdp (sample_in 8) p0 ?u" and ?t = "fst (onHandshakeComplete (sample_end 8 7 k2 k1) [] ?s)"
  from d obtain hd where hd: "Parse p0 = Inr hd" "hdrType hd = TypeHandshake" "hdrSubType hd = HandshakeInitiation"
    by (auto simp: handshake_datagram_def)
  have init: "iface_init ?s" by (auto simp: iface_init_def sample_iface_def sample_manager_def)
  then have "hm_ok (ifHosts ?s) (ifHostmap ?s)" by (simp add: iface_init_def hm_ok_new)
  from exec_step [OF this, of sample_libs ?op] have e: "exec (thread_of sample_libs ?op) ?s = (?t, udp_events [(p1, ?u)])"
    using outside_stage0 [OF d, of sample_libs "sample_in 8" _ ?s] s by (simp add: complete_session)
  have "actions (thread_of sample_libs ?op) ?s = 3"
    using s hd Parse_InrD(1) [OF hd(1)]
    by (simp add: consumeOutsidePacket_t_def handleHandshake_t_def onHandshakeComplete_t_def TypeHandshake_def TypeMessage_def Let_def)
  with conc_start [OF conc_init [OF init], of sample_libs ?op] e
  have "conc sample_libs [?op] 3 ?t [Stop] (udp_events [(p1, ?u)])" by simp
  moreover have "data_datagrams (udp_events [(p1, ?u)]) = []"
    using control_stage0 [of sample_libs "sample_input 8" p0 ?u "sample_manager 2"] s by (simp add: data_control)
  ultimately show ?thesis using that k by simp
qed

text \<open>A packet of the other end, received and delivered there.\<close>

lemma sample_conc_delivery:
  obtains ops n iface ts ev where "conc sample_libs ops n iface ts ev" "tun_writes ev = [sample_pkt 5]"
proof -
  obtain op ev k1 k2 where k: "aesKey k1" "aesKey k2" and ev: "tun_writes ev = []"
    and c: "conc sample_libs [op] 3 (fst (onHandshakeComplete (sample_end 8 7 k2 k1) [] (sample_iface 2 1))) [Stop] ev"
    by (rule sample_conc)
  let ?s = "fst (onHandshakeComplete (sample_end 8 7 k2 k1) [] (sample_iface 2 1))"
  let ?op = "FromUdp (sample_in 1) (data_packet (sample_end 7 8 k1 k2) 1 (sample_pkt 5)) sample_src"
  note e = sample_established [OF k]
  have "\<not> fst (CheckReplay 1 (ifHosts ?s ! 0))" using e(4) by (simp add: CheckReplay_def Let_def)
  from receiver_step(1) [OF e(1,2) this] have "snd (exec (thread_of sample_libs ?op) ?s) = [Tun (sample_pkt 5)]"
    using e(1) exec_step [of ?s sample_libs ?op] by (simp add: receiver_of_def)
  with conc_start [OF c, of ?op] obtain n ts s' where
    fin: "conc sample_libs [op, ?op] n s' ts (ev @ [Tun (sample_pkt 5)])" by auto
  have "tun_writes (ev @ [Tun (sample_pkt 5)]) = [sample_pkt 5]" by (simp add: ev)
  with fin that show ?thesis by blast
qed

section \<open>Properties\<close>

text \<open>
  C6: no schedule reuses a nonce.  However the goroutines interleave, action by action, as long as
  fewer than two to the 64 actions have been taken, every data datagram sent is the seal of some
  packet under some session and counter, and no two of them share both.
\<close>
theorem concurrent_nonces_never_repeat:
  assumes "conc E ops n iface ts ev" "n < 2 ^ 64"
  shows "\<exists>log. data_datagrams ev = map (\<lambda>(r, c, p). data_packet (ifHosts iface ! r) c p) log \<and>
    distinct (map (\<lambda>(r, c, p). (r, c)) log)"
proof -
  from conc_invariant [OF assms(1)] obtain holds log where "sends n (ifHosts iface) holds ev log"
    unfolding conc_inv_def by blast
  note d = sendsD(1,3) [OF this]
  then have "once (pairs log)" using once_mono assms(2) by fastforce
  with d(1) show ?thesis unfolding pairs_def once_distinct log_datagrams_def by blast
qed

text \<open>Two threads draw their counters in one order and send in the other.\<close>

theorem concurrent_nonces_never_repeat_witness:
  "\<exists>ops n iface ts ev log. conc sample_libs ops n iface ts ev \<and>
    data_datagrams ev = [data_packet (ifHosts iface ! 0) 2 (sample_reply 2), data_packet (ifHosts iface ! 0) 1 (sample_reply 1)] \<and>
    data_datagrams ev = map (\<lambda>(r, c, p). data_packet (ifHosts iface ! r) c p) log \<and>
    distinct (map (\<lambda>(r, c, p). (r, c)) log)"
proof -
  let ?op = "\<lambda>b. FromTun (sample_in 1) (sample_reply b)"
  let ?seal = "\<lambda>c b. call (\<lambda>s :: nat Interface. ((), s, [Udp (data_packet (ifHosts s ! 0) c (sample_reply b)) (hRemote (ifHosts s ! 0))])) (\<lambda>_. Stop)"
  obtain op0 ev k1 k2 where k: "aesKey k1" "aesKey k2" and ev: "data_datagrams ev = []"
    and c: "conc sample_libs [op0] 3 (fst (onHandshakeComplete (sample_end 8 7 k2 k1) [] (sample_iface 2 1))) [Stop] ev"
    by (rule sample_conc)
  let ?s = "fst (onHandshakeComplete (sample_end 8 7 k2 k1) [] (sample_iface 2 1))" and ?h = "sample_end 8 7 k2 k1"
  note e = sample_established [OF k]
  have "conc sample_libs [op0, ?op 1, ?op 2] 3 ?s [Stop, thread_of sample_libs (?op 1), thread_of sample_libs (?op 2)] ev"
    using conc_spawn [OF conc_spawn [OF c, of "?op 1"], of "?op 2"] by simp
  from conc_draw [OF this, of 1 "sample_in 1" "sample_reply 1" 0 1] e obtain m s' where
    m: "m \<le> 4" "ifHosts s' = [?h\<lparr>hCounter := 1\<rparr>]" "outgoing s' 0 = outgoing ?s 0"
      "conc sample_libs [op0, ?op 1, ?op 2] (3 + m) s' [Stop, ?seal 1 1, thread_of sample_libs (?op 2)] ev"
    by auto
  from conc_draw [OF m(4), of 2 "sample_in 1" "sample_reply 2" 0 2] e(3) m(2,3) obtain m' s'' where
    m': "m' \<le> 4" "ifHosts s'' = [?h\<lparr>hCounter := 2\<rparr>]"
      "conc sample_libs [op0, ?op 1, ?op 2] (3 + m + m') s'' [Stop, ?seal 1 1, ?seal 2 2] ev"
    by auto
  from conc_exec [OF m'(3), of 2] have
    "conc sample_libs [op0, ?op 1, ?op 2] (Suc (3 + m + m')) s'' [Stop, ?seal 1 1, Stop]
      (ev @ [Udp (data_packet (ifHosts s'' ! 0) 2 (sample_reply 2)) (hRemote (ifHosts s'' ! 0))])"
    by simp
  from conc_exec [OF this, of 1] have
    fin: "conc sample_libs [op0, ?op 1, ?op 2] (Suc (Suc (3 + m + m'))) s'' [Stop, Stop, Stop]
      (ev @ [Udp (data_packet (ifHosts s'' ! 0) 2 (sample_reply 2)) (hRemote (ifHosts s'' ! 0)),
        Udp (data_packet (ifHosts s'' ! 0) 1 (sample_reply 1)) (hRemote (ifHosts s'' ! 0))])"
    by simp
  have "Suc (Suc (3 + m + m')) < 2 ^ 64" using m(1) m'(1) by simp
  note log = concurrent_nonces_never_repeat [OF fin this]
  have "data_datagrams (ev @ [Udp (data_packet (ifHosts s'' ! 0) 2 (sample_reply 2)) (hRemote (ifHosts s'' ! 0)),
        Udp (data_packet (ifHosts s'' ! 0) 1 (sample_reply 1)) (hRemote (ifHosts s'' ! 0))]) =
      [data_packet (ifHosts s'' ! 0) 2 (sample_reply 2), data_packet (ifHosts s'' ! 0) 1 (sample_reply 1)]"
    by (simp add: ev)
  with fin log show ?thesis by blast
qed

text \<open>
  C5: no schedule delivers a packet twice.  However the goroutines interleave, everything written to
  the TUN device was received in a data packet that opens under the receive key of a session and the
  counter it carries, and no session and counter deliver twice.
\<close>
theorem concurrent_at_most_once:
  assumes "conc E ops n iface ts ev"
  shows "\<exists>dels. tun_writes ev = map (\<lambda>(r, c, p). p) dels \<and> distinct (map (\<lambda>(r, c, p). (r, c)) dels) \<and>
    (\<forall>(r, c, p) \<in> set dels. \<exists>i d src h. FromUdp i d src \<in> set ops \<and> Parse d = Inr h \<and> hdrType h = TypeMessage \<and>
      hdrMessageCounter h = c \<and> Decrypt (hRecvCipher (ifHosts iface ! r)) c (take HeaderLen d) (drop HeaderLen d) = Inr p)"
proof -
  from conc_invariant [OF assms] obtain holds dels S where R: "receives ops (ifHosts iface) holds ev dels S"
    unfolding conc_inv_def by blast
  then have "once (pairs dels)" using once_mono [OF receivesD(2)] by fastforce
  then have "distinct (map (\<lambda>(r, c, p). (r, c)) dels)" unfolding pairs_def once_distinct .
  with receivesD(1,5) [OF R] show ?thesis by (fastforce simp: opens_def)
qed

theorem concurrent_at_most_once_witness:
  "\<exists>ops n iface ts ev (dels :: seal_log). conc sample_libs ops n iface ts ev \<and> tun_writes ev = [sample_pkt 5] \<and>
    tun_writes ev = map (\<lambda>(r, c, p). p) dels \<and> distinct (map (\<lambda>(r, c, p). (r, c)) dels)"
proof -
  obtain ops n iface ts ev where c: "conc sample_libs ops n iface ts ev" "tun_writes ev = [sample_pkt 5]"
    by (rule sample_conc_delivery)
  with concurrent_at_most_once [OF c(1)] show ?thesis by blast
qed

end
