(* ===== verification/Neth_EndToEnd.thy ===== *)
theory Neth_EndToEnd
  imports Neth_Tunnel
begin

text \<open>
  Two interfaces together: a packet read from one node's TUN device starts a handshake, is queued,
  and reaches the other node's TUN device once the handshake has completed.
\<close>

section \<open>Dialling\<close>

text \<open>
  A packet that makes \<open>consumeInsidePacket\<close> dial: addressed to \<open>ip\<close>, covered by an outbound rule, no
  session yet, the peer's certificate \<open>c\<close> and its first address \<open>addr\<close> known.
\<close>

definition dials :: "'hs Interface \<Rightarrow> Addr \<Rightarrow> Certificate \<Rightarrow> UDPAddr \<Rightarrow> bytes \<Rightarrow> bool" where
  "dials iface ip c addr p \<longleftrightarrow> dstIPFromIPv4 p = Some ip \<and> GetByVpnIP (ifHostmap iface) ip = None \<and>
     (\<exists>rule \<in> set (outbound (ifFw iface)). matches rule ip [] (dstPortFromIPv4 p) (protoFromIPv4 p)) \<and>
     getPeerCert iface ip = Some c \<and> (\<exists>as. GetAddrs (ifLh iface) ip = addr # as)"

text \<open>What two interfaces share when they differ only in the manager and the firewall's flow table.\<close>

definition same_wiring :: "'hs Interface \<Rightarrow> 'hs Interface \<Rightarrow> bool" where
  "same_wiring a b \<longleftrightarrow> ifHosts b = ifHosts a \<and> ifHostmap b = ifHostmap a \<and> ifLh b = ifLh a \<and>
     ifPeerCerts b = ifPeerCerts a \<and> outbound (ifFw b) = outbound (ifFw a)"

lemma dials_cong: "same_wiring a b \<Longrightarrow> dials b = dials a"
  by (simp add: fun_eq_iff dials_def same_wiring_def getPeerCert_def)

lemma dial_step:
  assumes "dials iface ip c addr p" "StartHandshake E (inBase i) ip addr c (ifMgr iface) = (Inr (), m, out)"
  shows "snd (consumeInsidePacket E i p iface) = udp_events out"
    "ifMgr (fst (consumeInsidePacket E i p iface)) = QueuePacket ip p m"
    "same_wiring iface (fst (consumeInsidePacket E i p iface))"
proof -
  from assms(1) obtain as where d: "dstIPFromIPv4 p = Some ip" "GetByVpnIP (ifHostmap iface) ip = None"
    "ifPeerCerts iface ip = Some c" "GetAddrs (ifLh iface) ip = addr # as"
    "fst (AllowOutbound (ifFw iface) (inNow (inBase i)) ip [] (dstPortFromIPv4 p) (protoFromIPv4 p))"
    by (auto simp: dials_def outb.verdict getPeerCert_def)
  then have "consumeInsidePacket E i p iface =
      (iface\<lparr>ifFw := snd (AllowOutbound (ifFw iface) (inNow (inBase i)) ip [] (dstPortFromIPv4 p) (protoFromIPv4 p)),
         ifMgr := QueuePacket ip p m\<rparr>, udp_events out)"
    using assms(2) by (simp add: consumeInsidePacket_def Let_def case_prod_unfold getPeerCert_def)
  then show "snd (consumeInsidePacket E i p iface) = udp_events out"
    "ifMgr (fst (consumeInsidePacket E i p iface)) = QueuePacket ip p m"
    "same_wiring iface (fst (consumeInsidePacket E i p iface))"
    by (simp_all add: same_wiring_def outb.frame)
qed

lemma QueuePacket_pending: "pending (QueuePacket ip p m) = pending m"
  by (simp add: QueuePacket_def Let_def split: option.splits)

text \<open>While a handshake is pending further packets for the peer only join the queue.\<close>

lemma dial_again:
  assumes "pending (ifMgr iface) ip \<noteq> None" "\<forall>p \<in> set pkts. dials iface ip c addr p"
  shows "run_sends E (map (FromTun i) pkts) iface = [] \<and>
    ifMgr (run_state E (map (FromTun i) pkts) iface) = fold (QueuePacket ip) pkts (ifMgr iface) \<and>
    same_wiring iface (run_state E (map (FromTun i) pkts) iface)"
  using assms
proof (induction pkts arbitrary: iface)
  case Nil
  then show ?case by (simp add: same_wiring_def)
next
  case (Cons p pkts)
  have "StartHandshake E (inBase i) ip addr c (ifMgr iface) = (Inr (), ifMgr iface, [])"
    using Cons.prems(1) by (auto simp: StartHandshake_def)
  note d = dial_step [OF _ this, of p]
  let ?i = "fst (consumeInsidePacket E i p iface)"
  have p: "dials iface ip c addr p" using Cons.prems by simp
  have "pending (ifMgr ?i) ip \<noteq> None" "\<forall>p \<in> set pkts. dials ?i ip c addr p"
    using Cons.prems d(2) [OF p] dials_cong [OF d(3) [OF p]] by (simp_all add: QueuePacket_pending)
  from Cons.IH [OF this] d [OF p] show ?case by (auto simp: same_wiring_def)
qed

section \<open>Flushing the queue\<close>

text \<open>A packet some inbound rule of \<open>iface\<close> covers for a peer with certificate \<open>c\<close>.\<close>

definition expects :: "'hs Interface \<Rightarrow> Certificate \<Rightarrow> bytes \<Rightarrow> bool" where
  "expects iface c p \<longleftrightarrow> (case srcIPFromIPv4 p of None \<Rightarrow> False | Some src \<Rightarrow>
     \<exists>rule \<in> set (inbound (ifFw iface)). matches rule src (Groups c) (dstPortFromIPv4 p) (protoFromIPv4 p))"

text \<open>The queue one end flushes on completion is what the other end, registered with the matching session, writes.\<close>

lemma flush_arrives:
  assumes "hm_ok (ifHosts iface) (ifHostmap iface)" "fresh_host b" "hCert b = Some c" "session_pair a b"
    and "hCounter a = 0" "length q < 2 ^ 64" "\<forall>p \<in> set q. expects iface c p"
  shows "run_writes E (map (\<lambda>d. FromUdp j d src)
      (map (\<lambda>(c, p). data_packet a c p) (map (\<lambda>(k, p). (hCounter a + word_of_nat (Suc k), p)) (enumerate 0 q))))
      (fst (onHandshakeComplete b [] iface)) = q"
proof -
  let ?i = "fst (onHandshakeComplete b [] iface)" and ?r = "length (ifHosts iface)"
  let ?cps = "map (\<lambda>(k, p). (word_of_nat (Suc k) :: u64, p)) (enumerate 0 q)"
  have rec: "receiver_of ?i ?r a"
    using assms(4) by (intro complete_receives assms(1,2)) (simp_all add: session_pair_def)
  have u: "unat (word_of_nat (Suc k) :: u64) = Suc k" if "k < length q" for k
    using counter_offset [of 0 "Suc k"] that assms(6) by simp
  have mem: "\<exists>k < length q. c = word_of_nat (Suc k) \<and> p \<in> set q" if "(c, p) \<in> set ?cps" for c p
    using that by (auto 4 4 simp: in_set_enumerate_eq)
  have "incoming ?i ?r p" if "expects iface c p" for p
    using that assms(3) by (simp add: incoming_def expects_def complete_session hostGroups_def split: option.splits)
  with assms(7) mem have "\<forall>(c, p) \<in> set ?cps. incoming ?i ?r p" by blast
  moreover have "sorted_wrt (<) (map fst ?cps)"
    by (auto simp: sorted_wrt_iff_nth_less nth_enumerate_eq word_less_nat_alt u simp del: of_nat_Suc)
  moreover have "windowEnd (ifHosts ?i ! ?r) < c" if "(c, p) \<in> set ?cps" for c p
    using mem [OF that] assms(2) by (auto simp: complete_session fresh_host_def word_less_nat_alt u simp del: of_nat_Suc)
  ultimately have "run_writes E (map (\<lambda>(c, p). FromUdp j (data_packet a c p) src) ?cps) ?i = map snd ?cps"
    using receive_rising [OF rec] by blast
  then show ?thesis by (simp add: assms(5) comp_def case_prod_unfold)
qed

section \<open>The sample pair\<close>

lemma sample_dials:
  "dials (sample_iface 1 2) (Addr4 2) (sample_cert 2) \<lparr>udpIP = [], udpPort = 1\<rparr> (sample_pkt b)"
  "expects (sample_iface 2 1) (sample_cert 1) (sample_pkt b)"
proof -
  show "dials (sample_iface 1 2) (Addr4 2) (sample_cert 2) \<lparr>udpIP = [], udpPort = 1\<rparr> (sample_pkt b)"
    by (simp add: dials_def sample_pkt_ips sample_iface_def NewHostMap_def GetByVpnIP_def getPeerCert_def New_def sample_matches
        AddStaticEntry_def GetAddrs_def stored_def NewLightHouse_def)
  show "expects (sample_iface 2 1) (sample_cert 1) (sample_pkt b)"
    by (simp add: expects_def sample_pkt_ips sample_iface_def New_def sample_matches)
qed

section \<open>Properties\<close>

text \<open>
  C1: a tunnel comes up on demand and loses nothing it can hold.  A packet for a known peer without a
  session starts a handshake and is queued with the ones that follow; the peer answers the handshake;
  the answer makes the sender flush its queue; and from these datagrams the peer writes to its TUN
  device exactly the newest fifty of the queued packets, byte for byte and in order.
\<close>
theorem first_packets_arrive:
  assumes "iface_reach E ifB" "peers_agree E (ifMgr ifA) (ifMgr ifB)"
    and "Verify (libL E) (localCert (ifMgr ifA)) (caPool (ifMgr ifB)) (inNow (inBase iB)) = Inr ()"
    and "Verify (libL E) (localCert (ifMgr ifB)) (caPool (ifMgr ifA)) (inNow (inBase iA')) = Inr ()"
    and "pending (ifMgr ifA) ipB = None" "inRand (inBase iA) = Some ra" "inRand (inBase iB) = Some rb"
    and "\<And>p a. inSendOk (inBase iA) p a" "\<And>p a. inSendOk (inBase iB) p a"
    and "\<forall>p \<in> set (pkt # pkts). dials ifA ipB (localCert (ifMgr ifB)) addrB p \<and> expects ifB (localCert (ifMgr ifA)) p"
  shows "\<exists>p0 p1 ds. let ops = map (FromTun iA) (pkt # pkts); start = FromUdp iB p0 addrA in
    run_sends E ops ifA = [Udp p0 addrB] \<and>
    snd (iface_step E start ifB) = [Udp p1 addrA] \<and>
    snd (iface_step E (FromUdp iA' p1 src) (run_state E ops ifA)) = map (\<lambda>d. Udp d addrB) ds \<and>
    run_writes E (map (\<lambda>d. FromUdp j d addrA) ds) (fst (iface_step E start ifB)) =
      drop (length (pkt # pkts) - 50) (pkt # pkts)"
proof -
  let ?cA = "localCert (ifMgr ifA)" and ?cB = "localCert (ifMgr ifB)"
  let ?q = "drop (length (pkt # pkts) - 50) (pkt # pkts)"
  from handshake_run [OF assms(2-9), of addrB addrA "pkt # pkts"] obtain p0 p1 mA' k1 k2 where
    k: "aesKey k1" "aesKey k2" and pend: "pending mA' ipB \<noteq> None" and
    d: "handshake_datagram HandshakeInitiation p0" "handshake_datagram HandshakeResponse p1" and
    start: "StartHandshake E (inBase iA) ipB addrB ?cB (ifMgr ifA) = (Inr (), mA', [(p0, addrB)])" and
    stage0: "HandleStage0 E (inBase iB) p0 addrA (ifMgr ifB) =
      (Inr (newHost (pfxAddr (VpnIP ?cA)) addrA (get_le rb) (get_le ra) k2 k1 ?cA, []), [(p1, addrA)])" and
    stage1: "fst (HandleStage1 E (inBase iA') p1 (fold (QueuePacket ipB) (pkt # pkts) mA')) =
      Inr (newHost ipB addrB (get_le ra) (get_le rb) k1 k2 ?cB, ?q)"
    by blast
  let ?b = "newHost (pfxAddr (VpnIP ?cA)) addrA (get_le rb) (get_le ra) k2 k1 ?cA"
  let ?a = "newHost ipB addrB (get_le ra) (get_le rb) k1 k2 ?cB"
  let ?ds = "map (\<lambda>(c, p). data_packet ?a c p) (map (\<lambda>(k, p). (hCounter ?a + word_of_nat (Suc k), p)) (enumerate 0 ?q))"
  let ?ops = "map (FromTun iA) (pkt # pkts)"
  have dial: "dials ifA ipB ?cB addrB pkt" "\<forall>p \<in> set pkts. dials ifA ipB ?cB addrB p"
    and exp: "\<forall>p \<in> set ?q. expects ifB ?cA p"
    using assms(10) set_drop_subset [of "length (pkt # pkts) - 50" "pkt # pkts"] by auto
  note first = dial_step [OF dial(1) start]
  have "run_sends E ?ops ifA = [Udp p0 addrB] \<and>
      ifMgr (run_state E ?ops ifA) = fold (QueuePacket ipB) (pkt # pkts) mA'"
    using dial_again [of "fst (consumeInsidePacket E iA pkt ifA)" ipB pkts ?cB addrB E iA] first dials_cong [OF first(3)]
      dial(2) pend by (simp add: QueuePacket_pending udp_events_def)
  moreover from this stage1 have
    "consumeOutsidePacket E iA' p1 src (run_state E ?ops ifA) = onHandshakeComplete ?a ?q
      (run_state E ?ops ifA\<lparr>ifMgr := snd (HandleStage1 E (inBase iA') p1 (ifMgr (run_state E ?ops ifA)))\<rparr>)"
    by (intro outside_stage1 [OF d(2)]) simp
  moreover have "consumeOutsidePacket E iB p0 addrA ifB = (fst (onHandshakeComplete ?b [] ifB), [Udp p1 addrA])"
    using outside_stage0 [OF d(1) stage0] by (simp add: complete_session udp_events_def)
  moreover have "run_writes E (map (\<lambda>d. FromUdp j d addrA) ?ds) (fst (onHandshakeComplete ?b [] ifB)) = ?q"
  proof (rule flush_arrives [OF _ fresh_newHost [OF k(2,1)] _ _ _ _ exp])
    show "hm_ok (ifHosts ifB) (ifHostmap ifB)" using iface_reach_sessions [OF assms(1)] by blast
    show "session_pair ?a ?b" using k by (simp add: session_pair_def newHost_def)
  qed (simp_all add: newHost_def)
  ultimately show ?thesis
    using complete_flushes [of ?a ?q]
    by (intro exI [of _ p0] exI [of _ p1] exI [of _ ?ds]) (simp add: newHost_def Let_def)
qed

theorem first_packets_arrive_witness:
  "\<exists>p0 p1 ds. let ops = map (FromTun (sample_in 7)) [sample_pkt 1, sample_pkt 2];
      start = FromUdp (sample_in 8) p0 \<lparr>udpIP = [], udpPort = 2\<rparr> in
    run_sends sample_libs ops (sample_iface 1 2) = [Udp p0 \<lparr>udpIP = [], udpPort = 1\<rparr>] \<and>
    snd (iface_step sample_libs start (sample_iface 2 1)) = [Udp p1 \<lparr>udpIP = [], udpPort = 2\<rparr>] \<and>
    snd (iface_step sample_libs (FromUdp (sample_in 9) p1 \<lparr>udpIP = [], udpPort = 1\<rparr>)
      (run_state sample_libs ops (sample_iface 1 2))) = map (\<lambda>d. Udp d \<lparr>udpIP = [], udpPort = 1\<rparr>) ds \<and>
    run_writes sample_libs (map (\<lambda>d. FromUdp (sample_in 10) d \<lparr>udpIP = [], udpPort = 2\<rparr>) ds)
      (fst (iface_step sample_libs start (sample_iface 2 1))) = [sample_pkt 1, sample_pkt 2]"
  using first_packets_arrive [where ifA = "sample_iface 1 2" and ifB = "sample_iface 2 1" and E = sample_libs
      and iA = "sample_in 7" and iB = "sample_in 8" and iA' = "sample_in 9" and j = "sample_in 10"
      and ipB = "Addr4 2" and addrB = "\<lparr>udpIP = [], udpPort = 1\<rparr>" and addrA = "\<lparr>udpIP = [], udpPort = 2\<rparr>"
      and src = "\<lparr>udpIP = [], udpPort = 1\<rparr>" and pkt = "sample_pkt 1" and pkts = "[sample_pkt 2]"]
    sample_iface_reach [of sample_libs 2 1] sample_agree sample_dials
  by (simp add: sample_verify)

end
