(* ===== verification/Neth_Network.thy ===== *)
theory Neth_Network
  imports Neth_Races Neth_EndToEnd
begin

text \<open>
  Two daemons and a hostile network between them.  The network may lose, delay, reorder and repeat
  datagrams and inject others; all it cannot do is forge one that opens under the key of a session it
  does not hold.  Then what one daemon writes to its TUN device for a session was read from the TUN
  device at the other end, each packet at most as often as it was read.
\<close>

section \<open>What a session delivers\<close>

definition delivered_in :: "href \<Rightarrow> (href \<times> u64 \<times> bytes) list \<Rightarrow> (u64 \<times> bytes) list" where
  "delivered_in r ds = map (\<lambda>(r, c, p). (c, p)) (filter (\<lambda>(r', c, p). r' = r) ds)"

text \<open>
  Every datagram among the operations that opens under the sending key of session \<open>a\<close> is the seal of one
  of the packets \<open>S\<close>, given with their counters.
\<close>

definition unforged :: "HostInfo \<Rightarrow> (u64 \<times> bytes) set \<Rightarrow> iface_op list \<Rightarrow> bool" where
  "unforged a S ops \<longleftrightarrow> (\<forall>i d src h p. FromUdp i d src \<in> set ops \<and> Parse d = Inr h \<and> hdrType h = TypeMessage \<and>
     Decrypt (hSendCipher a) (hdrMessageCounter h) (take HeaderLen d) (drop HeaderLen d) = Inr p \<longrightarrow>
       (\<exists>(c, q) \<in> S. d = data_packet a c q))"

lemma unforged_opens:
  assumes "unforged a S ops" "aesKey (hSendCipher a)" "hRecvCipher (hp ! r) = hSendCipher a"
    and "op \<in> set ops" "opens op hp (r, c, p)"
  shows "(c, p) \<in> S"
proof -
  from assms(4,5) obtain i d src h where
    d: "FromUdp i d src \<in> set ops" "Parse d = Inr h" "hdrType h = TypeMessage" "hdrMessageCounter h = c"
      "Decrypt (hSendCipher a) c (take HeaderLen d) (drop HeaderLen d) = Inr p"
    by (auto simp: opens_def assms(3))
  with assms(1) obtain c' q where "(c', q) \<in> S" "d = data_packet a c' q"
    unfolding unforged_def by blast
  with d Decrypt_data_packet [OF assms(2), of c' q] show ?thesis by (auto simp: Parse_data_packet data_header_def)
qed

text \<open>Sessions keep their keys for life.\<close>

lemma run_keeps_keys:
  assumes "iface_reach E iface" "r < length (ifHosts iface)"
  shows "hRecvCipher (ifHosts (run_state E ops iface) ! r) = hRecvCipher (ifHosts iface ! r)"
proof -
  from settled_run [OF assms(1), of ops] obtain log where "sealed_log (ifHosts iface) log (ifHosts (run_state E ops iface))"
    by (auto simp: settled_def accounts_def)
  with assms(2) show ?thesis by (simp add: sealed_log_def host_fixed_def)
qed

lemma delivered_opens:
  assumes "iface_reach E iface" "(r, c, p) \<in> set (deliveries E ops iface)"
  shows "\<exists>op \<in> set ops. opens op (ifHosts (run_state E ops iface)) (r, c, p)"
  using assms
proof (induction ops arbitrary: iface)
  case (Cons op ops)
  let ?i = "fst (iface_step E op iface)"
  note reach = iface_reach_step [OF Cons.prems(1), of op]
  from iface_reach_sessions [OF Cons.prems(1)] have "hm_ok (ifHosts iface) (ifHostmap iface)" by blast
  then show ?case
  proof (cases rule: delivered_cases [where E = E and op = op])
    case quiet
    with Cons.prems(2) have "(r, c, p) \<in> set (deliveries E ops ?i)" by simp
    from Cons.IH [OF reach this] show ?thesis by auto
  next
    case (one r' c' p' i pkt src)
    show ?thesis
    proof (cases "(r, c, p) \<in> set (deliveries E ops ?i)")
      case True
      from Cons.IH [OF reach this] show ?thesis by auto
    next
      case False
      with Cons.prems(2) one(2) have eq: "r' = r" "c' = c" "p' = p" by auto
      have "hRecvCipher (ifHosts (run_state E (op # ops) iface) ! r) = hRecvCipher (ifHosts iface ! r)"
        using run_keeps_keys [OF Cons.prems(1)] one(5) eq(1) by blast
      with one(1,4) eq show ?thesis by (auto simp: accepts_def opens_def)
    qed
  qed
qed simp

lemma distinct_delivered_in:
  assumes "distinct (map (\<lambda>(r, c, p). (r, c)) ds)"
  shows "distinct (delivered_in r ds)"
proof -
  from assms have "distinct ds" by (simp add: distinct_map)
  then show ?thesis unfolding delivered_in_def distinct_map by (auto simp: inj_on_def)
qed

lemma mset_distinct_subseteq: "distinct xs \<Longrightarrow> set xs \<subseteq> set ys \<Longrightarrow> mset xs \<subseteq># mset ys"
  by (metis List.finite_set mset_set_set mset_set_set_mset_msubset set_mset_mset subset_imp_msubset_mset_set subset_mset.order_trans)

text \<open>What a session delivers without forgeries is among the packets the far end sealed, each as often at most.\<close>

lemma delivered_sealed:
  assumes "unforged a {(c, p). (rA, c, p) \<in> set log} ops" "aesKey (hSendCipher a)" "hRecvCipher (hp ! rB) = hSendCipher a"
    and "distinct (map (\<lambda>(r, c, p). (r, c)) dels)" "\<And>c p. (rB, c, p) \<in> set dels \<Longrightarrow> \<exists>op \<in> set ops. opens op hp (rB, c, p)"
  shows "mset (map snd (delivered_in rB dels)) \<subseteq># log_packets log"
proof -
  let ?D = "delivered_in rB dels" and ?S = "delivered_in rA log"
  have "set ?D \<subseteq> set ?S"
  proof safe
    fix c p
    assume "(c, p) \<in> set ?D"
    then have "(rB, c, p) \<in> set dels" by (auto simp: delivered_in_def)
    from assms(5) [OF this] unforged_opens [OF assms(1-3)] have "(rA, c, p) \<in> set log" by blast
    then show "(c, p) \<in> set ?S" by (force simp: delivered_in_def)
  qed
  from mset_distinct_subseteq [OF distinct_delivered_in [OF assms(4)] this]
  have "mset (map snd ?D) \<subseteq># mset (map snd ?S)" by (simp add: image_mset_subseteq_mono)
  also have "\<dots> \<subseteq># log_packets log"
    by (simp add: delivered_in_def log_packets_def comp_def case_prod_unfold image_mset_subseteq_mono multiset_filter_subset mset_filter)
  finally show ?thesis .
qed

text \<open>
  Nothing is invented on the way.  Let two daemons run, each through any operations, with a session
  at the receiver that opens with the sender's key.  Whatever the network does to the datagrams, as
  long as none that opens under that key is forged, the packets the receiver delivers in the session
  are, counted with multiplicity, among those the sender's daemon read from its own TUN device (or had
  waiting when the run began).
\<close>

theorem only_read_packets_arrive:
  fixes EA :: "('ha, 'ca) libs" and EB :: "('hb, 'cb) libs"
  assumes "iface_reach EA ifA" "iface_reach EB ifB"
    and "hRecvCipher (ifHosts (run_state EB opsB ifB) ! rB) = hSendCipher (ifHosts (run_state EA opsA ifA) ! rA)"
    and "aesKey (hSendCipher (ifHosts (run_state EA opsA ifA) ! rA))"
  shows "\<exists>log. data_datagrams (run_sends EA opsA ifA) =
      map (\<lambda>(r, c, p). data_packet (ifHosts (run_state EA opsA ifA) ! r) c p) log \<and>
    (\<forall>(r, c, p) \<in> set log. r < length (ifHosts (run_state EA opsA ifA))) \<and>
    (unforged (ifHosts (run_state EA opsA ifA) ! rA) {(c, p). (rA, c, p) \<in> set log} opsB \<longrightarrow>
      mset (map snd (delivered_in rB (deliveries EB opsB ifB))) \<subseteq># queued (ifMgr ifA) + mset (tun_reads opsA))"
proof -
  from accounts_run [OF assms(1), of opsA] obtain log where
    log: "data_datagrams (run_sends EA opsA ifA) = log_datagrams (ifHosts (run_state EA opsA ifA)) log"
      "log_packets log \<subseteq># queued (ifMgr ifA) + mset (tun_reads opsA)"
      "\<forall>(r, c, p) \<in> set log. r < length (ifHosts (run_state EA opsA ifA))"
    unfolding accounts_def sealed_log_def fst_conv snd_conv by (meson subset_mset.order_trans)
  have "distinct (map (\<lambda>(r, c, p). (r, c)) (deliveries EB opsB ifB))"
    using iface_reach_sessions [OF assms(2)] deliveries_unseen [of ifB _ EB opsB] by blast
  note d = delivered_sealed [OF _ assms(4,3) this delivered_opens [OF assms(2)]]
  show ?thesis using log d unfolding log_datagrams_def by (meson subset_mset.order_trans)
qed

section \<open>Properties\<close>

text \<open>
  C4: nothing is invented on the way.  Let two daemons run since their start, each under any interleaving
  of its goroutines, with a session at the receiver that opens with the sender's key.  Whatever the network
  does to the datagrams, as long as none that opens under that key is forged, the packets the
  receiver has written for the session are at every moment, counted with multiplicity, among those
  the sender's daemon has read from its own TUN device: none is altered, made up or duplicated.
\<close>
theorem concurrent_packets_conserved:
  fixes EA :: "('ha, 'ca) libs" and EB :: "('hb, 'cb) libs"
  assumes "conc EA opsA m ifA tsA evA" "conc EB opsB n ifB tsB evB"
    and "hRecvCipher (ifHosts ifB ! rB) = hSendCipher (ifHosts ifA ! rA)" "aesKey (hSendCipher (ifHosts ifA ! rA))"
  shows "\<exists>log dels. data_datagrams evA = map (\<lambda>(r, c, p). data_packet (ifHosts ifA ! r) c p) log \<and>
    (\<forall>(r, c, p) \<in> set log. r < length (ifHosts ifA)) \<and>
    tun_writes evB = map (\<lambda>(r, c, p). p) dels \<and> (\<forall>x \<in> set dels. \<exists>op \<in> set opsB. opens op (ifHosts ifB) x) \<and>
    (unforged (ifHosts ifA ! rA) {(c, p). (rA, c, p) \<in> set log} opsB \<longrightarrow>
      mset (map snd (delivered_in rB dels)) \<subseteq># mset (tun_reads opsA))"
proof -
  from conc_invariant [OF assms(1)] obtain holds Qs log where
    s: "sends m (ifHosts ifA) holds evA log" and
    q: "log_packets log + held (\<lambda>Q. Q) Qs + queued (ifMgr ifA) \<subseteq># mset (tun_reads opsA)"
    unfolding conc_inv_def by blast
  from conc_invariant [OF assms(2)] obtain holds' dels S where r: "receives opsB (ifHosts ifB) holds' evB dels S"
    unfolding conc_inv_def by blast
  have log: "log_packets log \<subseteq># mset (tun_reads opsA)"
    using q by (meson mset_subset_eq_add_left subset_mset.order_trans)
  have "once (pairs dels)" using once_mono [OF receivesD(2) [OF r]] by simp
  then have "distinct (map (\<lambda>(r, c, p). (r, c)) dels)" unfolding pairs_def once_distinct .
  from delivered_sealed [OF _ assms(4,3) this receivesD(5) [OF r]] log
  have "unforged (ifHosts ifA ! rA) {(c, p). (rA, c, p) \<in> set log} opsB \<longrightarrow>
      mset (map snd (delivered_in rB dels)) \<subseteq># mset (tun_reads opsA)"
    by (meson subset_mset.order_trans)
  moreover have "\<forall>(r, c, p) \<in> set log. r < length (ifHosts ifA)" using sends_log [OF s pairs_mem] by blast
  moreover have "\<forall>x \<in> set dels. \<exists>op \<in> set opsB. opens op (ifHosts ifB) x" using receivesD(5) [OF r] by auto
  ultimately show ?thesis
    using sendsD(1) [OF s] receivesD(1) [OF r] unfolding log_datagrams_def by blast
qed

text \<open>A datagram that arrives twice in a fresh session is delivered once.\<close>

lemma repeated_delivered_once:
  assumes "receiver_of iface r a" "incoming iface r p" "fresh_host (ifHosts iface ! r)"
  shows "run_writes E [FromUdp i (data_packet a 1 p) src, FromUdp i (data_packet a 1 p) src] iface = [p]"
proof -
  let ?h = "ifHosts iface ! r" and ?i = "fst (consumeOutsidePacket E i (data_packet a 1 p) src iface)"
  have new: "\<not> fst (CheckReplay 1 ?h)" using assms(3) by (simp add: CheckReplay_def Let_def fresh_host_def)
  have "fst (CheckReplay 1 (snd (CheckReplay 1 ?h)))"
    using win.remembers_verdict [OF win.remembers_accept [OF fresh_host_remembers [OF assms(3)] new], of 1] by simp
  moreover note step = receiver_step [OF assms(1,2) new, of E i src]
  ultimately have "consumeOutsidePacket E i (data_packet a 1 p) src ?i = (?i, [])"
    by (intro replayed_dropped [of _ _ r]) (simp_all add: receiver_of_def)
  with step(1) show ?thesis by simp
qed

lemma run_writes_sends: "run_writes E ops iface = tun_writes (run_sends E ops iface)"
  by (induction ops arbitrary: iface) simp_all

text \<open>The sample pair: one packet brings the tunnel up, and the network repeats its datagram.\<close>

lemma sample_exchange:
  obtains opsA opsB d where "tun_reads opsA = [sample_pkt 1]" "length (ifHosts (run_state sample_libs opsA (sample_iface 1 2))) = 1"
    "data_datagrams (run_sends sample_libs opsA (sample_iface 1 2)) = [d]"
    "\<forall>i d' src h. FromUdp i d' src \<in> set opsB \<and> Parse d' = Inr h \<and> hdrType h = TypeMessage \<longrightarrow> d' = d"
    "hRecvCipher (ifHosts (run_state sample_libs opsB (sample_iface 2 1)) ! 0) =
      hSendCipher (ifHosts (run_state sample_libs opsA (sample_iface 1 2)) ! 0)"
    "aesKey (hSendCipher (ifHosts (run_state sample_libs opsA (sample_iface 1 2)) ! 0))"
    "tun_writes (run_sends sample_libs opsB (sample_iface 2 1)) = [sample_pkt 1]"
proof -
  let ?ifA = "sample_iface 1 2" and ?ifB = "sample_iface 2 1" and ?u = "\<lparr>udpIP = [], udpPort = 1\<rparr>" and ?v = "\<lparr>udpIP = [], udpPort = 2\<rparr>"
  have v: "Verify (libL sample_libs) (localCert (sample_manager 1)) (caPool (sample_manager 2)) (inNow (sample_input 8)) = Inr ()"
    "Verify (libL sample_libs) (localCert (sample_manager 2)) (caPool (sample_manager 1)) (inNow (sample_input 9)) = Inr ()"
    "pending (sample_manager 1) (Addr4 2) = None" "inSendOk (sample_input b) p u" for b p u
    by (simp_all add: sample_verify)
  obtain p0 p1 m k1 k2 where k: "aesKey k1" "aesKey k2"
    and d: "handshake_datagram HandshakeInitiation p0" "handshake_datagram HandshakeResponse p1"
    and start: "StartHandshake sample_libs (sample_input 7) (Addr4 2) ?u (sample_cert 2) (sample_manager 1) = (Inr (), m, [(p0, ?u)])"
    and s0: "HandleStage0 sample_libs (sample_input 8) p0 ?v (sample_manager 2) = (Inr (sample_end 8 7 k2 k1, []), [(p1, ?v)])"
    and s1: "fst (HandleStage1 sample_libs (sample_input 9) p1 (QueuePacket (Addr4 2) (sample_pkt 1) m)) =
      Inr (newHost (Addr4 2) ?u (get_le [7, 0, 0, 0]) (get_le [8, 0, 0, 0]) k1 k2 (sample_cert 2), [sample_pkt 1])"
    using handshake_run [OF sample_agree v(1-3) sample_manager_sel(5) sample_manager_sel(5) v(4) v(4), of 7 ?u ?v "[sample_pkt 1]"]
    unfolding sample_manager_sel sample_end_def by auto
  let ?a = "newHost (Addr4 2) ?u (get_le [7, 0, 0, 0]) (get_le [8, 0, 0, 0]) k1 k2 (sample_cert 2)"
  let ?opsA = "[FromTun (sample_in 7) (sample_pkt 1), FromUdp (sample_in 9) p1 ?u]"
  let ?d = "data_packet (sample_end 7 8 k1 k2) 1 (sample_pkt 1)"
  let ?opsB = "[FromUdp (sample_in 8) p0 ?v, FromUdp (sample_in 9) ?d ?v, FromUdp (sample_in 9) ?d ?v]"
  let ?A1 = "fst (consumeInsidePacket sample_libs (sample_in 7) (sample_pkt 1) ?ifA)"
  note first = dial_step [OF sample_dials(1), of sample_libs "sample_in 7" m "[(p0, ?u)]", simplified, OF start, of 1]
  have A1: "ifHosts ?A1 = []" using first(3) by (simp add: same_wiring_def sample_iface_def)
  let ?A2 = "?A1\<lparr>ifMgr := snd (HandleStage1 sample_libs (sample_input 9) p1 (ifMgr ?A1))\<rparr>"
  have step: "consumeOutsidePacket sample_libs (sample_in 9) p1 ?u ?A1 = onHandshakeComplete ?a [sample_pkt 1] ?A2"
    using s1 first(2) by (intro outside_stage1 [OF d(2), of sample_libs "sample_in 9", simplified]) simp
  obtain x where x: "onHandshakeComplete ?a [sample_pkt 1] ?A2 = sendAll 0 [sample_pkt 1] x" "ifHosts x = [?a]"
    using A1 by (simp add: onHandshakeComplete_def Let_def newHost_def)
  have hs: "length (ifHosts (fst (sendAll 0 [sample_pkt 1] x))) = 1" "hSendCipher (ifHosts (fst (sendAll 0 [sample_pkt 1] x)) ! 0) = k1"
    using x(2) by (simp_all add: sendToRemote_eq Let_def case_prod_unfold newHost_def)
  have p0: "\<not> is_data p0" using d(1) by (auto simp: handshake_datagram_def is_data_def TypeMessage_def TypeHandshake_def)
  have "data_packet ?a = data_packet (sample_end 7 8 k1 k2)" by (simp add: fun_eq_iff data_packet_def data_header_def newHost_def)
  then have "data_datagrams (snd (onHandshakeComplete ?a [sample_pkt 1] ?A2)) = [?d]"
    unfolding complete_flushes by (simp add: newHost_def)
  moreover have B1: "consumeOutsidePacket sample_libs (sample_in 8) p0 ?v ?ifB = (fst (onHandshakeComplete (sample_end 8 7 k2 k1) [] ?ifB), [Udp p1 ?v])"
    using outside_stage0 [OF d(1), of sample_libs "sample_in 8" _ ?ifB] s0 by (simp add: complete_session udp_events_def)
  have "hRecvCipher (ifHosts (run_state sample_libs ?opsB ?ifB) ! 0) = k1"
    using run_keeps_keys [OF iface_reach_step [OF sample_iface_reach, of sample_libs "FromUdp (sample_in 8) p0 ?v" 2 1], of 0 "tl ?opsB"]
      B1 sample_established(4) [OF k] by simp
  moreover have "tun_writes (run_sends sample_libs ?opsB ?ifB) = [sample_pkt 1]"
    using repeated_delivered_once [OF sample_established(1) [OF k] sample_established(2) [OF k, of 1], where E = sample_libs and i = "sample_in 9" and src = ?v] B1 sample_established(4) [OF k]
      fresh_newHost [OF k(2,1)] by (simp add: run_writes_sends sample_end_def)
  moreover have "\<forall>i d' src h. FromUdp i d' src \<in> set ?opsB \<and> Parse d' = Inr h \<and> hdrType h = TypeMessage \<longrightarrow> d' = ?d"
    using p0 by (auto simp: is_data_def)
  ultimately show ?thesis
    using hs step x(1) first(1) p0 k(1) by (intro that [of ?opsA ?d ?opsB]) (simp_all add: udp_events_def)
qed

theorem concurrent_packets_conserved_witness:
  "\<exists>opsA opsB m n ifA ifB tsA tsB evA evB dels. conc sample_libs opsA m ifA tsA evA \<and> conc sample_libs opsB n ifB tsB evB \<and>
    tun_writes evB = [sample_pkt 1] \<and> tun_writes evB = map (\<lambda>(r :: href, c :: u64, p). p) dels \<and>
    mset (map snd (delivered_in 0 dels)) \<subseteq># {#sample_pkt 1#}"
proof -
  obtain opsA opsB d where x: "tun_reads opsA = [sample_pkt 1]" "length (ifHosts (run_state sample_libs opsA (sample_iface 1 2))) = 1"
    "data_datagrams (run_sends sample_libs opsA (sample_iface 1 2)) = [d]"
    "\<forall>i d' src h. FromUdp i d' src \<in> set opsB \<and> Parse d' = Inr h \<and> hdrType h = TypeMessage \<longrightarrow> d' = d"
    and key: "hRecvCipher (ifHosts (run_state sample_libs opsB (sample_iface 2 1)) ! 0) =
      hSendCipher (ifHosts (run_state sample_libs opsA (sample_iface 1 2)) ! 0)"
    "aesKey (hSendCipher (ifHosts (run_state sample_libs opsA (sample_iface 1 2)) ! 0))"
    and out: "tun_writes (run_sends sample_libs opsB (sample_iface 2 1)) = [sample_pkt 1]"
    by (rule sample_exchange)
  let ?a = "ifHosts (run_state sample_libs opsA (sample_iface 1 2)) ! 0"
  have init: "iface_init (sample_iface k n)" for k n by (auto simp: iface_init_def sample_iface_def sample_manager_def)
  have run: "\<exists>m ts. conc sample_libs ops m (run_state sample_libs ops (sample_iface k n)) ts (run_sends sample_libs ops (sample_iface k n))"
    for ops k n
    using conc_run [OF conc_init [OF init [of k n]], of sample_libs ops] init [of k n] by (simp add: iface_init_def hm_ok_new)
  from run [of opsA 1 2] run [of opsB 2 1] obtain m tsA n tsB where
    A: "conc sample_libs opsA m (run_state sample_libs opsA (sample_iface 1 2)) tsA (run_sends sample_libs opsA (sample_iface 1 2))" and
    B: "conc sample_libs opsB n (run_state sample_libs opsB (sample_iface 2 1)) tsB (run_sends sample_libs opsB (sample_iface 2 1))"
    by blast
  from concurrent_packets_conserved [OF A B key] obtain log dels where
    log: "data_datagrams (run_sends sample_libs opsA (sample_iface 1 2)) =
        map (\<lambda>(r, c, p). data_packet (ifHosts (run_state sample_libs opsA (sample_iface 1 2)) ! r) c p) log"
      "\<forall>(r, c, p) \<in> set log. r < length (ifHosts (run_state sample_libs opsA (sample_iface 1 2)))"
      "tun_writes (run_sends sample_libs opsB (sample_iface 2 1)) = map (\<lambda>(r, c, p). p) dels"
      "unforged ?a {(c, p). (0, c, p) \<in> set log} opsB \<longrightarrow>
        mset (map snd (delivered_in 0 dels)) \<subseteq># mset (tun_reads opsA)"
    by blast
  from log(1,2) obtain c p where "(0, c, p) \<in> set log" "d = data_packet ?a c p"
    unfolding x(2,3) by (cases log) auto
  then have "unforged ?a {(c, p). (0, c, p) \<in> set log} opsB" using x(4) unfolding unforged_def by blast
  with log(4) have "mset (map snd (delivered_in 0 dels)) \<subseteq># {#sample_pkt 1#}" unfolding x(1) by simp
  with A B out log(3) show ?thesis by blast
qed

end
