(* ===== verification/Neth_WellFormed.thy ===== *)
theory Neth_WellFormed
  imports Neth_Nonces
begin

text \<open>
  What every reachable state of an interface looks like: no reference of the registry or of the pending
  maps points outside its heap, every key and window has its size, every counter of the handshake manager is in its
  range; and what no packet, datagram or tick can change.
\<close>

section \<open>Well-formed states\<close>

definition session_wf :: "HostInfo \<Rightarrow> bool" where
  "session_wf h \<longleftrightarrow> length (window h) = 64 \<and> aesKey (hSendCipher h) \<and> aesKey (hRecvCipher h)"

definition registry_wf :: "host_heap \<Rightarrow> HostMap \<Rightarrow> bool" where
  "registry_wf hp m \<longleftrightarrow> (\<forall>ip r. GetByVpnIP m ip = Some r \<longrightarrow> r < length hp \<and> hVpnIP (hp ! r) = ip) \<and>
     (\<forall>i r. GetByIndex m i = Some r \<longrightarrow> r < length hp \<and> hIndex (hp ! r) = i)"

definition pending_wf :: "'hs HandshakeManager \<Rightarrow> bool" where
  "pending_wf m \<longleftrightarrow> (\<forall>ip r. pending m ip = Some r \<longrightarrow> r < length (phHeap m) \<and> phRemoteVpnIP (phHeap m ! r) = ip \<and>
       length (phPendingPackets (phHeap m ! r)) \<le> 50 \<and> 1 \<le> phAttempts (phHeap m ! r) \<and> phAttempts (phHeap m ! r) \<le> 10) \<and>
     (\<forall>i r. indexMap m i = Some r \<longrightarrow> r < length (phHeap m) \<and> phLocalIndex (phHeap m ! r) = i \<and>
       pending m (phRemoteVpnIP (phHeap m ! r)) = Some r)"

definition iface_wf :: "'hs Interface \<Rightarrow> bool" where
  "iface_wf iface \<longleftrightarrow> (\<forall>h \<in> set (ifHosts iface). session_wf h) \<and> registry_wf (ifHosts iface) (ifHostmap iface) \<and>
     pending_wf (ifMgr iface)"

definition keyed_sessions :: "host_heap \<Rightarrow> bool" where
  "keyed_sessions hp \<longleftrightarrow> (\<forall>r < length hp. aesKey (hSendCipher (hp ! r)) \<and> aesKey (hRecvCipher (hp ! r)))"

lemma keyed_grows: "keyed_sessions hp \<Longrightarrow> grows hp hp' \<Longrightarrow> keyed_sessions hp'"
  unfolding keyed_sessions_def grows_def host_fixed_def fresh_host_def by (metis not_le)

lemma keyed_replay: "keyed_sessions hp \<Longrightarrow> keyed_sessions (hp[r := snd (CheckReplay c (hp ! r))])"
  by (cases "r < length hp") (auto simp: keyed_sessions_def nth_list_update list_update_beyond)

lemma keyed_step: "hosts_step (hp, m) (hp', m') \<Longrightarrow> keyed_sessions hp \<Longrightarrow> keyed_sessions hp'"
  by (erule hosts_stepE) (auto simp: keyed_replay intro: keyed_grows keyed_grows [OF keyed_grows [OF _ grows_append]])

lemma iface_reach_keyed: "iface_reach E iface \<Longrightarrow> keyed_sessions (ifHosts iface)"
proof (induction rule: iface_reach.induct)
  case (reach_init iface)
  then show ?case by (simp add: iface_init_def keyed_sessions_def)
next
  case (reach_step iface op iface' ev)
  with keyed_step [OF hosts_step_iface [of iface E op]] show ?case by simp
qed

section \<open>What never changes\<close>

definition same_identity :: "'hs HandshakeManager \<Rightarrow> 'hs HandshakeManager \<Rightarrow> bool" where
  "same_identity m m' \<longleftrightarrow> localCert m' = localCert m \<and> localKey m' = localKey m \<and> caPool m' = caPool m"

definition same_policy :: "Firewall \<Rightarrow> Firewall \<Rightarrow> bool" where
  "same_policy f f' \<longleftrightarrow> inbound f' = inbound f \<and> outbound f' = outbound f"

definition same_role :: "LightHouse \<Rightarrow> LightHouse \<Rightarrow> bool" where
  "same_role l l' \<longleftrightarrow> lighthouses l' = lighthouses l \<and> amLighthouse l' = amLighthouse l \<and> lhPunchy l' = lhPunchy l"

definition same_settings :: "'hs Interface \<Rightarrow> 'hs Interface \<Rightarrow> bool" where
  "same_settings i i' \<longleftrightarrow> same_identity (ifMgr i) (ifMgr i') \<and> same_policy (ifFw i) (ifFw i') \<and> same_role (ifLh i) (ifLh i') \<and>
     ifPunchy i' = ifPunchy i"

lemma same_settings_trans: "same_settings a b \<Longrightarrow> same_settings b c \<Longrightarrow> same_settings a c"
  by (simp add: same_settings_def same_identity_def same_policy_def same_role_def)

lemma retryStep_identity: "same_identity m (retryStep now ip m)"
  by (simp add: same_identity_def retryStep_def split: option.split)

lemma retryPending_identity: "same_identity m (fst (retryPending now order m))"
  unfolding retryPending_fold
proof (induction order arbitrary: m)
  case (Cons ip order)
  from Cons [of "retryStep now ip m"] retryStep_identity [of m now ip] show ?case by (simp add: same_identity_def)
qed (simp add: same_identity_def)

lemma identity_evolves: "mgr_evolves E m m' \<Longrightarrow> same_identity m m'"
proof (induction rule: mgr_evolves.induct)
  case (me_tick m' now order)
  then show ?case using retryPending_identity [of m' now order] by (simp add: same_identity_def)
qed (auto simp: same_identity_def StartHandshake_def QueuePacket_def HandleStage1_state Let_def
    split: option.splits sum.splits prod.splits)

lemma policy_allow:
  "inbound (snd (AllowInbound f now ip gs port p)) = inbound f" "outbound (snd (AllowInbound f now ip gs port p)) = outbound f"
  "inbound (snd (AllowOutbound f now ip gs port p)) = inbound f" "outbound (snd (AllowOutbound f now ip gs port p)) = outbound f"
  by (simp_all add: inb.frame outb.frame)

lemma role_message: "same_role lh (fst (HandleMessage P msg from lh))"
  by (simp add: same_role_def HandleMessage_def handleQueryReply_def handleUpdate_def handleWhoAmIReply_def Let_def
      split: option.split sum.split)

lemma sendAll_settings: "same_settings iface (fst (sendAll r ms iface))"
proof (induction ms arbitrary: iface)
  case (Cons m ms)
  let ?i = "fst (sendToRemote r m iface)"
  have "same_settings iface ?i"
    by (simp add: sendToRemote_eq Let_def same_settings_def same_identity_def same_policy_def same_role_def)
  with Cons [of ?i] show ?case by (simp add: case_prod_unfold Let_def same_settings_trans)
qed (simp add: same_settings_def same_identity_def same_policy_def same_role_def)

lemmas same_defs = same_settings_def same_identity_def same_policy_def same_role_def

lemma complete_settings: "same_settings iface (fst (onHandshakeComplete h q iface))"
proof -
  obtain x where "onHandshakeComplete h q iface = sendAll (length (ifHosts iface)) q x" "same_settings iface x"
    by (cases "hCert h") (simp_all add: onHandshakeComplete_def Let_def same_defs)
  then show ?thesis using sendAll_settings [of x] by (simp add: same_settings_trans)
qed

lemma inside_settings: "same_settings iface (fst (consumeInsidePacket E i pkt iface))"
proof -
  have "same_identity (ifMgr iface) (ifMgr (fst (consumeInsidePacket E i pkt iface)))"
    by (rule identity_evolves [OF inside_mgr])
  then show ?thesis
    by (simp add: same_settings_def) (simp add: consumeInsidePacket_def Let_def case_prod_unfold sendToRemote_eq same_policy_def
        same_role_def policy_allow split: option.split sum.split)
qed

lemma stage1_settings: "same_settings iface (iface\<lparr>ifMgr := snd (HandleStage1 E i pkt (ifMgr iface))\<rparr>)"
  using identity_evolves [OF me_stage1 [OF me_refl]] by (simp add: same_settings_def same_policy_def same_role_def)

lemma outside_settings: "same_settings iface (fst (consumeOutsidePacket E i pkt src iface))"
proof -
  have refl: "same_settings x x" for x :: "'a Interface" by (simp add: same_defs)
  have "same_settings iface (fst (handleMessage i pkt h src iface))" for h
    by (simp add: handleMessage_def Let_def case_prod_unfold same_defs policy_allow split: option.split sum.split)
  moreover have "same_settings iface (fst (handleHandshake E i pkt h src iface))" for h
    by (simp add: handleHandshake_def Let_def case_prod_unfold refl complete_settings stage1_settings
        same_settings_trans [OF stage1_settings complete_settings] split: sum.split)
  moreover have "same_settings iface (fst (handleLightHouse E i pkt h src iface))" for h
    using role_message by (simp add: handleLightHouse_def Let_def case_prod_unfold same_settings_def same_identity_def
        same_policy_def split: option.split) (simp add: same_role_def)
  moreover have "same_settings iface (handleCloseTunnel h iface)" for h
    by (simp add: handleCloseTunnel_def same_defs split: option.split)
  ultimately show ?thesis
    by (simp add: consumeOutsidePacket_def handleTest_def refl split: sum.split)
qed

lemma step_settings: "same_settings iface (fst (iface_step E op iface))"
proof (cases op)
  case (RetryTick now order)
  with retryPending_identity [of "ifMgr iface" now order] show ?thesis
    by (simp add: Let_def case_prod_unfold same_settings_def same_policy_def same_role_def)
next
  case (ExpiryTick now)
  then show ?thesis by (simp add: same_defs RunExpiry_tick_def)
next
  case AdvertiseTick
  then show ?thesis by (simp add: same_defs)
qed (simp_all add: inside_settings outside_settings)

lemma run_settings: "same_settings iface (run_state E ops iface)"
proof (induction ops arbitrary: iface)
  case (Cons op ops)
  from same_settings_trans [OF step_settings Cons] show ?case by simp
qed (simp add: same_defs)

lemma iface_wf_invariants:
  assumes "hm_ok (ifHosts iface) (ifHostmap iface)" "remembering (ifHosts iface) S" "keyed_sessions (ifHosts iface)"
    and inv: "hsm_inv (ifMgr iface)"
  shows "iface_wf iface"
proof -
  have "session_wf (ifHosts iface ! r)" if "r < length (ifHosts iface)" for r
    using assms(2,3) that
    by (auto simp: session_wf_def keyed_sessions_def remembering_def win.remembers_def window_inv_def)
  moreover have "registry_wf (ifHosts iface) (ifHostmap iface)" using assms(1) by (simp add: hm_ok_iff registry_wf_def)
  moreover have "pending_wf (ifMgr iface)"
    using hsm_invD [OF inv] by (auto simp: pending_wf_def ph_ok_def maxPendingPackets_def maxHandshakeAttempts_def)
  ultimately show ?thesis by (auto simp: iface_wf_def in_set_conv_nth)
qed

section \<open>Properties\<close>

text \<open>
  C25: the network cannot reconfigure a node.  No sequence of packets, datagrams and ticks, from any state,
  changes the node's certificate, its key, the CAs it trusts, a firewall rule, the lighthouses it asks, its
  own role as a lighthouse or its punching settings.
\<close>
theorem network_cannot_reconfigure:
  "same_settings iface (run_state E ops iface)"
  by (rule run_settings)

end
