(* ===== verification/Neth_Admission.thy ===== *)
theory Neth_Admission
  imports Neth_Races
begin

text \<open>
  The firewall of \<^verbatim>\<open>firewall/\<close> as the goroutines of \<^verbatim>\<open>interface.go\<close> use it: the lookup in the connection
  table and the entry a matching rule makes are separate critical sections, and the groups of a session
  are read before either.  Still every packet written to the TUN device has a ground on which it was admitted.
\<close>

section \<open>Grounds of admission\<close>

text \<open>
  What the rules are asked about: the remote address, the destination port and the protocol of a packet
  that came in from a peer, and of one that goes out to a peer.
\<close>

definition flowIn :: "bytes \<Rightarrow> (Addr \<times> u16 \<times> Proto) option" where
  "flowIn p = map_option (\<lambda>ip. (ip, dstPortFromIPv4 p, protoFromIPv4 p)) (srcIPFromIPv4 p)"

definition flowOut :: "bytes \<Rightarrow> (Addr \<times> u16 \<times> Proto) option" where
  "flowOut p = map_option (\<lambda>ip. (ip, dstPortFromIPv4 p, protoFromIPv4 p)) (dstIPFromIPv4 p)"

text \<open>The flow came in under groups \<open>gs\<close>: a datagram opens, for a session whose certificate has them, as a packet of that flow.\<close>

definition came_in :: "iface_op set \<Rightarrow> 'hs Interface \<Rightarrow> string list \<Rightarrow> Addr \<times> u16 \<times> Proto \<Rightarrow> bool" where
  "came_in ops s gs fl \<longleftrightarrow> (\<exists>op \<in> ops. \<exists>r c q. r < length (ifHosts s) \<and> opens op (ifHosts s) (r, c, q) \<and>
     flowIn q = Some fl \<and> gs = hostGroups s r)"

text \<open>It went out: a packet of that flow was read from the TUN device, with or without a session for its address.\<close>

definition went_out :: "iface_op set \<Rightarrow> 'hs Interface \<Rightarrow> string list \<Rightarrow> Addr \<times> u16 \<times> Proto \<Rightarrow> bool" where
  "went_out ops s gs fl \<longleftrightarrow> (\<exists>i q. FromTun i q \<in> ops \<and> flowOut q = Some fl) \<and>
     (gs = [] \<or> (\<exists>r < length (ifHosts s). hVpnIP (ifHosts s ! r) = fst fl \<and> gs = hostGroups s r))"

definition granted :: "iface_op set \<Rightarrow> 'hs Interface \<Rightarrow> Addr \<times> u16 \<times> Proto \<Rightarrow> bool" where
  "granted ops s = (\<lambda>(ip, port, proto).
     (\<exists>gs. came_in ops s gs (ip, port, proto) \<and> (\<exists>r \<in> set (inbound (ifFw s)). matches r ip gs port proto)) \<or>
     (\<exists>gs. went_out ops s gs (ip, port, proto) \<and> (\<exists>r \<in> set (outbound (ifFw s)). matches r ip gs port proto)))"

text \<open>What others may do between two actions of a thread: the rules stay, and so does what a session was made with.\<close>

definition evolves :: "'hs Interface \<Rightarrow> 'hs Interface \<Rightarrow> bool" where
  "evolves s s' \<longleftrightarrow> inbound (ifFw s') = inbound (ifFw s) \<and> outbound (ifFw s') = outbound (ifFw s) \<and>
     length (ifHosts s) \<le> length (ifHosts s') \<and> (\<forall>r < length (ifHosts s). host_fixed (ifHosts s ! r) (ifHosts s' ! r))"

lemma evolves_refl [simp]: "evolves s s"
  by (simp add: evolves_def)

lemma evolves_trans:
  assumes "evolves s s'" "evolves s' s''"
  shows "evolves s s''"
proof -
  have "host_fixed (ifHosts s ! r) (ifHosts s'' ! r)" if "r < length (ifHosts s)" for r
  proof (rule host_fixed_trans)
    show "host_fixed (ifHosts s ! r) (ifHosts s' ! r)" using that assms(1) by (simp add: evolves_def)
    have "r < length (ifHosts s')" using that assms(1) by (simp add: evolves_def)
    with assms(2) show "host_fixed (ifHosts s' ! r) (ifHosts s'' ! r)" by (simp add: evolves_def)
  qed
  with assms show ?thesis by (simp add: evolves_def)
qed

lemma evolves_same:
  "ifHosts s' = ifHosts s \<Longrightarrow> inbound (ifFw s') = inbound (ifFw s) \<Longrightarrow> outbound (ifFw s') = outbound (ifFw s) \<Longrightarrow> evolves s s'"
  by (simp add: evolves_def)

lemma evolves_groups:
  "evolves s s' \<Longrightarrow> r < length (ifHosts s) \<Longrightarrow> hostGroups s' r = hostGroups s r \<and> hVpnIP (ifHosts s' ! r) = hVpnIP (ifHosts s ! r)"
  by (simp add: evolves_def host_fixed_def same_keys_def hostGroups_def)

lemma evolves_session:
  "evolves s s' \<Longrightarrow> r < length (ifHosts s) \<Longrightarrow> r < length (ifHosts s') \<and> host_fixed (ifHosts s ! r) (ifHosts s' ! r)"
  by (auto simp: evolves_def)

lemma came_in_evolves:
  assumes "came_in ops s gs fl" "evolves s s'"
  shows "came_in ops s' gs fl"
proof -
  from assms(1) obtain op r c q where "op \<in> ops" "r < length (ifHosts s)" "opens op (ifHosts s) (r, c, q)" "flowIn q = Some fl"
    "gs = hostGroups s r" unfolding came_in_def by blast
  with evolves_session [OF assms(2), of r] evolves_groups [OF assms(2), of r] opens_fixed show ?thesis
    unfolding came_in_def by (intro bexI [of _ op] exI [of _ r] exI [of _ c] exI [of _ q]) auto
qed

lemma went_out_evolves:
  assumes "went_out ops s gs fl" "evolves s s'"
  shows "went_out ops s' gs fl"
  using assms(1) evolves_session [OF assms(2)] evolves_groups [OF assms(2)] unfolding went_out_def by fastforce

lemma granted_evolves: "granted ops s fl \<Longrightarrow> evolves s s' \<Longrightarrow> granted ops s' fl"
proof (cases fl)
  case (fields ip port proto)
  assume "granted ops s fl" "evolves s s'"
  moreover from this(2) have "inbound (ifFw s') = inbound (ifFw s)" "outbound (ifFw s') = outbound (ifFw s)"
    by (simp_all add: evolves_def)
  ultimately show ?thesis
    unfolding granted_def fields prod.case by (auto dest: came_in_evolves went_out_evolves)
qed

section \<open>What a thread does with the firewall\<close>

text \<open>Every entry of the connection table has a ground.\<close>

definition tracked :: "iface_op set \<Rightarrow> 'hs Interface \<Rightarrow> bool" where
  "tracked ops s \<longleftrightarrow> (\<forall>k t. ct (ifFw s) k = Some t \<longrightarrow>
     (\<exists>ip port proto. k = flowKey ip port proto \<and> granted ops s (ip, port, proto)))"

lemma tracked_evolves:
  "tracked ops s \<Longrightarrow> evolves s s' \<Longrightarrow> (\<And>k t. ct (ifFw s') k = Some t \<Longrightarrow> ct (ifFw s) k \<noteq> None) \<Longrightarrow> tracked ops s'"
  unfolding tracked_def by (meson granted_evolves option.exhaust)

lemma tracked_established:
  assumes "tracked ops s" "IsEstablished (flowKey ip port proto) (ct (ifFw s))"
  shows "granted ops s (ip, port, proto)"
proof -
  have "justified (ifFw s)"
    using assms(1) unfolding tracked_def justified_def granted_def by fastforce
  with assms(2) have "ct (ifFw s) (flowKey ip port proto) \<noteq> None" by (simp add: justified_established)
  with assms(1) show ?thesis unfolding tracked_def by fastforce
qed

text \<open>
  A thread that, from any state the others may have led to since \<open>s0\<close>, keeps a ground for every entry of
  the table and writes only packets that have one.
\<close>

primrec guarded :: "iface_op set \<Rightarrow> 'hs thread \<Rightarrow> 'hs Interface \<Rightarrow> bool" where
  "guarded ops Stop s0 = True"
| "guarded ops (Step act next) s0 =
     (\<forall>s. evolves s0 s \<and> good s \<and> tracked ops s \<longrightarrow>
        evolves s (fst (act s)) \<and> tracked ops (fst (act s)) \<and>
        (\<forall>p \<in> set (tun_writes (snd (act s))). \<exists>fl. flowIn p = Some fl \<and> granted ops (fst (act s)) fl) \<and>
        guarded ops (next s) (fst (act s)))"

lemma guarded_mono: "guarded ops t s \<Longrightarrow> evolves s s' \<Longrightarrow> guarded ops t s'"
  by (cases t) (auto dest: evolves_trans)

lemma guarded_StepD:
  assumes "guarded ops (Step act next) s" "good s" "tracked ops s" "act s = (s', ev)"
  shows "evolves s s'" "tracked ops s'" "guarded ops (next s) s'"
    "p \<in> set (tun_writes ev) \<Longrightarrow> \<exists>fl. flowIn p = Some fl \<and> granted ops s' fl"
  using spec [OF assms(1) [unfolded guarded.simps], of s] assms(2-4) by auto

lemma guarded_call:
  assumes "\<And>s. evolves s0 s \<Longrightarrow> good s \<Longrightarrow> tracked ops s \<Longrightarrow> evolves s (fst (snd (f s))) \<and> tracked ops (fst (snd (f s))) \<and>
      (\<forall>p \<in> set (tun_writes (snd (snd (f s)))). \<exists>fl. flowIn p = Some fl \<and> granted ops (fst (snd (f s))) fl) \<and>
      guarded ops (k (fst (f s))) (fst (snd (f s)))"
  shows "guarded ops (call f k) s0"
  using assms by (simp add: call_def)

text \<open>An action that leaves the firewall alone, or only takes entries from its table.\<close>

lemma guarded_quiet:
  assumes "\<And>s. evolves s (fst (snd (f s))) \<and> tun_writes (snd (snd (f s))) = [] \<and>
      (\<forall>k t. ct (ifFw (fst (snd (f s)))) k = Some t \<longrightarrow> ct (ifFw s) k \<noteq> None)"
    and "\<And>s. evolves s0 s \<Longrightarrow> good s \<Longrightarrow> guarded ops (k (fst (f s))) (fst (snd (f s)))"
  shows "guarded ops (call f k) s0"
proof (rule guarded_call, goal_cases)
  case (1 s)
  have "tracked ops (fst (snd (f s)))" by (rule tracked_evolves [OF 1(3)]) (use assms(1) in blast)+
  with assms 1 show ?case by simp
qed

lemma guarded_look:
  "(\<And>s. evolves s0 s \<Longrightarrow> good s \<Longrightarrow> guarded ops (k (g s)) s) \<Longrightarrow> guarded ops (look g k) s0"
  unfolding look_def by (rule guarded_quiet) simp_all

lemma guarded_allow:
  assumes "\<And>s r. evolves s0 s \<Longrightarrow> r \<in> set (rules (ifFw s)) \<Longrightarrow> matches r ip gs port proto \<Longrightarrow> granted ops s (ip, port, proto)"
    and "\<And>s. evolves s0 s \<Longrightarrow> granted ops s (ip, port, proto) \<Longrightarrow> guarded ops k s"
  shows "guarded ops (allow_t rules now ip gs port proto k) s0"
proof -
  let ?f = "\<lambda>s :: 'a Interface. let (allowed, fw) = ruleLoop (rules (ifFw s)) (ifFw s) now ip gs port proto in (allowed, s\<lparr>ifFw := fw\<rparr>, [] :: event list)"
  have rule: "guarded ops (call ?f (\<lambda>allowed. if allowed then k else Stop)) s1" if "evolves s0 s1" for s1
  proof (rule guarded_call, goal_cases)
    case (1 s)
    let ?s = "fst (snd (?f s))"
    have e: "evolves s ?s" by (intro evolves_same) (simp_all add: Let_def case_prod_unfold ruleLoop_snd)
    show ?case
    proof (cases "fst (ruleLoop (rules (ifFw s)) (ifFw s) now ip gs port proto)")
      case True
      then have g: "granted ops s (ip, port, proto)"
        using assms(1) [OF evolves_trans [OF that 1(1)]] by (auto simp: ruleLoop_fst)
      from granted_evolves [OF this e] have "tracked ops ?s"
        using tracked_evolves [OF 1(3) e] 1(3) granted_evolves [OF _ e] True
        unfolding tracked_def by (auto simp: Let_def case_prod_unfold ruleLoop_snd)
      with e True assms(2) [OF evolves_trans [OF evolves_trans [OF that 1(1)] e] granted_evolves [OF g e]] show ?thesis
        by (simp add: Let_def case_prod_unfold)
    next
      case False
      with 1(3) show ?thesis by (simp add: Let_def case_prod_unfold ruleLoop_snd)
    qed
  qed
  have "guarded ops (if e then k else call ?f (\<lambda>allowed. if allowed then k else Stop)) s"
    if "evolves s0 s" "tracked ops s" "e = IsEstablished (flowKey ip port proto) (ct (ifFw s))" for s e
    using that rule [OF that(1)] assms(2) [OF that(1)] tracked_established [OF that(2), of ip port proto] by (cases e) simp_all
  then show ?thesis
    unfolding allow_t_def look_def by (intro guarded_call) (simp add: Let_def)
qed

section \<open>The handlers\<close>

lemma evolves_host:
  assumes "host_fixed (ifHosts s ! r) h"
  shows "evolves s (s\<lparr>ifHosts := (ifHosts s)[r := h]\<rparr>)"
proof -
  have "host_fixed (ifHosts s ! q) ((ifHosts s)[r := h] ! q)" if "q < length (ifHosts s)" for q
    using that assms by (cases "q = r") simp_all
  then show ?thesis by (simp add: evolves_def)
qed

lemma guarded_send:
  fixes s0 :: "'hs Interface"
  assumes "\<And>s. evolves s0 s \<Longrightarrow> guarded ops k s"
  shows "guarded ops (sendToRemote_t r p k) s0"
proof -
  have seal: "guarded ops (call (\<lambda>s. ((), s, [Udp (data_packet (ifHosts s ! r) c p) (hRemote (ifHosts s ! r))])) (\<lambda>_. k)) s1"
    if "evolves s0 s1" for c s1
    by (rule guarded_quiet) (use assms evolves_trans [OF that] in auto)
  have draw: "evolves s (s\<lparr>ifHosts := (ifHosts s)[r := (ifHosts s ! r)\<lparr>hCounter := c\<rparr>]\<rparr>)" for s :: "'hs Interface" and c
    by (rule evolves_host) (simp add: host_fixed_def same_keys_def)
  show ?thesis
    unfolding sendToRemote_t_eq
    by (rule guarded_quiet) (simp_all add: draw seal evolves_trans [OF _ draw])
qed

lemma guarded_sendAll: "guarded ops (sendAll_t r pkts) s0"
  by (induction pkts arbitrary: s0) (auto intro: guarded_send)

lemma guarded_complete: "guarded ops (onHandshakeComplete_t h pend) (s0 :: 'hs Interface)"
proof -
  have "evolves s (s\<lparr>ifHosts := ifHosts s @ [h], ifHostmap := m\<rparr>)" for s :: "'hs Interface" and m
    by (simp add: evolves_def nth_append)
  then show ?thesis
    unfolding onHandshakeComplete_t_def
    by (auto simp: Let_def guarded_sendAll evolves_same split: option.split intro!: guarded_quiet)
qed

lemma guarded_dial: "guarded ops (dial_t E i ip pkt) (s0 :: 'hs Interface)"
proof -
  have "guarded ops (queue_t ip pkt) s" for s :: "'hs Interface"
    unfolding queue_t_def by (rule guarded_quiet) (simp_all add: evolves_same)
  then show ?thesis
    unfolding dial_t_def
    by (auto simp: Let_def case_prod_unfold evolves_same split: option.split sum.split intro!: guarded_look guarded_quiet)
qed

lemma guarded_inside:
  fixes s0 :: "'hs Interface"
  assumes "FromTun i pkt \<in> ops"
  shows "guarded ops (consumeInsidePacket_t E i pkt) s0"
proof (cases "dstIPFromIPv4 pkt")
  case None
  then show ?thesis by (simp add: consumeInsidePacket_t_def)
next
  case (Some ip)
  let ?port = "dstPortFromIPv4 pkt" and ?proto = "protoFromIPv4 pkt"
  have allow: "guarded ops (allow_t outbound now ip gs ?port ?proto k) s"
    if "went_out ops s gs (ip, ?port, ?proto)" "\<And>s. guarded ops k s" for gs k now and s :: "'hs Interface"
  proof (rule guarded_allow)
    fix s' r
    assume "evolves s s'" "r \<in> set (outbound (ifFw s'))" "matches r ip gs ?port ?proto"
    with went_out_evolves [OF that(1)] show "granted ops s' (ip, ?port, ?proto)" by (auto simp: granted_def)
  qed (rule that(2))
  have flow: "\<exists>i q. FromTun i q \<in> ops \<and> flowOut q = Some (ip, ?port, ?proto)" using assms Some by (auto simp: flowOut_def)
  have send: "guarded ops (sendToRemote_t r pkt Stop) s" for r and s :: "'hs Interface" by (rule guarded_send) simp
  show ?thesis
    unfolding consumeInsidePacket_t_def Some option.case
  proof (rule guarded_look, goal_cases)
    case (1 s)
    show ?case
    proof (cases "GetByVpnIP (ifHostmap s) ip")
      case None
      with flow show ?thesis by (simp add: allow went_out_def guarded_dial)
    next
      case (Some r)
      with hm_okD(1) [OF goodD(1) [OF 1(2)] Some] flow have "went_out ops s (hostGroups s r) (ip, ?port, ?proto)"
        by (auto simp: went_out_def)
      with Some show ?thesis by (simp add: allow send)
    qed
  qed
qed

lemma guarded_receive:
  assumes "FromUdp i pkt src \<in> ops" "Parse pkt = Inr h" "hdrType h = TypeMessage" "r < length (ifHosts s0)"
  shows "guarded ops (receive_t i' pkt h r) s0"
  unfolding receive_t_def
proof (rule guarded_call, goal_cases)
  case (1 s)
  let ?h = "ifHosts s ! r" and ?c = "hdrMessageCounter h"
  let ?s = "s\<lparr>ifHosts := (ifHosts s)[r := snd (CheckReplay ?c ?h)]\<rparr>"
  let ?D = "Decrypt (hRecvCipher ?h) ?c (take HeaderLen pkt) (drop HeaderLen pkt)"
  have r: "r < length (ifHosts s)" using assms(4) 1(1) by (simp add: evolves_def)
  have e: "evolves s ?s" by (rule evolves_host) (simp add: host_fixed_def same_keys_def)
  have t: "tracked ops ?s" by (rule tracked_evolves [OF 1(3) e]) simp
  have admit: "guarded ops (allow_t inbound now ip (hostGroups s r) (dstPortFromIPv4 p) (protoFromIPv4 p) (emit [Tun p] Stop)) ?s"
    if p: "?D = Inr p" "srcIPFromIPv4 p = Some ip" for p ip now
  proof -
    let ?fl = "(ip, dstPortFromIPv4 p, protoFromIPv4 p)"
    have fl: "flowIn p = Some ?fl" using p(2) by (simp add: flowIn_def)
    have "opens (FromUdp i pkt src) (ifHosts s) (r, ?c, p)" using assms(2,3) p(1) by (auto simp: opens_def)
    then have "came_in ops s (hostGroups s r) ?fl" using assms(1) r fl unfolding came_in_def by blast
    from came_in_evolves [OF this e] have in_s: "came_in ops ?s (hostGroups s r) ?fl" .
    show ?thesis
    proof (rule guarded_allow)
      fix s' q
      assume "evolves ?s s'" "q \<in> set (inbound (ifFw s'))" "matches q ip (hostGroups s r) (dstPortFromIPv4 p) (protoFromIPv4 p)"
      with came_in_evolves [OF in_s] show "granted ops s' ?fl" by (auto simp: granted_def)
    next
      fix s'
      assume "granted ops s' ?fl"
      with fl granted_evolves show "guarded ops (emit [Tun p] Stop) s'"
        unfolding emit_def by (intro guarded_call) auto
    qed
  qed
  from e t admit show ?case
    by (auto simp: Let_def case_prod_unfold split: sum.split option.split)
qed

lemma guarded_outside:
  fixes s0 :: "'hs Interface"
  assumes "FromUdp i pkt src \<in> ops"
  shows "guarded ops (consumeOutsidePacket_t E i pkt src) s0"
proof -
  have message: "guarded ops (handleMessage_t i pkt h src) s" if "Parse pkt = Inr h" "hdrType h = TypeMessage" for h and s :: "'hs Interface"
    unfolding handleMessage_t_def
  proof (rule guarded_look, goal_cases)
    case (1 s')
    show ?case
    proof (cases "GetByIndex (ifHostmap s') (hdrRemoteIndex h)")
      case None
      then show ?thesis by (auto split: option.split intro!: guarded_quiet)
    next
      case (Some r)
      with hm_okD(2) [OF goodD(1) [OF 1(2)] Some] show ?thesis by (simp add: guarded_receive [OF assms that])
    qed
  qed
  have handshake: "guarded ops (handleHandshake_t E i pkt h src) s" for h and s :: "'hs Interface"
    unfolding handleHandshake_t_def
    by (auto simp: Let_def case_prod_unfold guarded_complete evolves_same split: sum.split intro!: guarded_quiet)
  have rest: "guarded ops (handleLightHouse_t E i pkt h src) s" "guarded ops (handleTest_t src) s" "guarded ops (handleCloseTunnel_t h) s"
    for h and s :: "'hs Interface"
    by (auto simp: handleLightHouse_t_def handleTest_t_def handleCloseTunnel_t_def emit_def Let_def case_prod_unfold evolves_same
        split: option.split intro!: guarded_look guarded_quiet)
  show ?thesis
    by (simp add: consumeOutsidePacket_t_def message handshake rest split: sum.split)
qed

lemma thread_guarded: "op \<in> ops \<Longrightarrow> guarded ops (thread_of E op) s0"
  by (cases op)
    (auto simp: guarded_inside guarded_outside Let_def case_prod_unfold evolves_same RunExpiry_tick_def Expire_Some
      intro!: guarded_quiet)

section \<open>Every interleaving\<close>

lemma conc_guarded:
  "conc E ops n s ts ev \<Longrightarrow> set ops \<subseteq> A \<Longrightarrow>
     tracked A s \<and> (\<forall>t \<in> set ts. guarded A t s) \<and> (\<forall>p \<in> set (tun_writes ev). \<exists>fl. flowIn p = Some fl \<and> granted A s fl)"
proof (induction rule: conc.induct)
  case (conc_init s)
  then show ?case by (auto simp: iface_init_def tracked_def New_def newConntrack_def)
next
  case (conc_spawn ops n s ts ev op)
  then show ?case by (auto simp: thread_guarded)
next
  case (conc_act ops n s ts ev j act "next" s' ev')
  from conc_invariant [OF conc_act(1)] have "good s" by (auto simp: conc_inv_def)
  moreover have "guarded A (Step act next) s" "tracked A s" using conc_act by (metis nth_mem)+
  ultimately have g: "evolves s s'" "tracked A s'" "guarded A (next s) s'"
    "\<forall>p \<in> set (tun_writes ev'). \<exists>fl. flowIn p = Some fl \<and> granted A s' fl"
    using guarded_StepD [of A act "next" s s' ev'] conc_act(4) by blast+
  have "guarded A t s'" if "t \<in> set (ts[j := next s])" for t
    using set_update_subset_insert [of ts j "next s"] that g(1,3) conc_act guarded_mono by blast
  moreover have "\<exists>fl. flowIn p = Some fl \<and> granted A s' fl" if "p \<in> set (tun_writes (ev @ ev'))" for p
    using that g(4) conc_act(5,6) granted_evolves [OF _ g(1)] by (auto simp del: split_paired_Ex)
  ultimately show ?case using g(2) by blast
qed

section \<open>Properties\<close>

text \<open>
  C14: no schedule gets a packet past the firewall.  However the goroutines interleave, for every packet
  written to the TUN device there is a ground in the rules: either a received datagram opens,
  under a session's key, as a packet from the same address to the same port and protocol that an inbound rule
  admits for the groups of that session's certificate; or a packet to that address, port and protocol was read from
  the TUN device and an outbound rule admits it, for no groups or those of a session of that address.
\<close>
theorem concurrent_firewall:
  assumes "conc E ops n iface ts ev" "p \<in> set (tun_writes ev)"
  shows "\<exists>ip port proto. flowIn p = Some (ip, port, proto) \<and>
    ((\<exists>op \<in> set ops. \<exists>r c q. r < length (ifHosts iface) \<and> opens op (ifHosts iface) (r, c, q) \<and> flowIn q = Some (ip, port, proto) \<and>
       (\<exists>rule \<in> set (inbound (ifFw iface)). matches rule ip (hostGroups iface r) port proto)) \<or>
     (\<exists>i q gs. FromTun i q \<in> set ops \<and> flowOut q = Some (ip, port, proto) \<and>
       (gs = [] \<or> (\<exists>r < length (ifHosts iface). hVpnIP (ifHosts iface ! r) = ip \<and> gs = hostGroups iface r)) \<and>
       (\<exists>rule \<in> set (outbound (ifFw iface)). matches rule ip gs port proto)))"
proof -
  from conc_guarded [OF assms(1) order_refl] assms(2) obtain ip port proto where
    "flowIn p = Some (ip, port, proto)" "granted (set ops) iface (ip, port, proto)" by (metis prod_cases3)
  then show ?thesis
    unfolding granted_def came_in_def went_out_def prod.case fst_conv by blast
qed

theorem concurrent_firewall_witness:
  "\<exists>ops n iface ts ev. conc sample_libs ops n iface ts ev \<and> sample_pkt 5 \<in> set (tun_writes ev) \<and>
    (\<exists>ip port proto. flowIn (sample_pkt 5) = Some (ip, port, proto) \<and>
      (\<exists>gs. \<exists>rule \<in> set (inbound (ifFw iface)) \<union> set (outbound (ifFw iface)). matches rule ip gs port proto))"
proof -
  obtain ops n iface ts ev where c: "conc sample_libs ops n iface ts ev" "tun_writes ev = [sample_pkt 5]"
    by (rule sample_conc_delivery)
  then have "sample_pkt 5 \<in> set (tun_writes ev)" by simp
  from concurrent_firewall [OF c(1) this] this c(1) show ?thesis by blast
qed

end
