(* ===== verification/Neth_Attacks.thy ===== *)
theory Neth_Attacks
  imports Neth_WellFormed
begin

text \<open>
  Two weaknesses of the packet pipeline, stated as theorems of the model.  A handshake proves the
  possession of a private key and carries a certificate, and nothing compares the two
  (\<open>HandleStage0\<close> of \<^verbatim>\<open>handshake_manager.go\<close>); and a test packet is answered with a test packet
  (\<open>handleTest\<close> of \<^verbatim>\<open>interface.go\<close>).
\<close>

section \<open>Test packets\<close>

definition test_reply :: bytes where
  "test_reply = Bytes \<lparr>hdrVersion = Version, hdrType = TypeTest, hdrSubType = 0, hdrRemoteIndex = 0, hdrMessageCounter = 0\<rparr>"

lemma outside_test:
  assumes "Parse d = Inr h" "hdrType h = TypeTest"
  shows "consumeOutsidePacket E i d src iface = (iface, [Udp test_reply src])"
  using assms Parse_InrD(1) [OF assms(1)]
  by (simp add: consumeOutsidePacket_def handleTest_def test_reply_def TypeMessage_def TypeHandshake_def TypeLightHouse_def
      TypeTest_def)

lemma Parse_test_reply: "\<exists>h. Parse test_reply = Inr h \<and> hdrType h = TypeTest"
  using hdr.dec_enc [of "\<lparr>hdrVersion = Version, hdrType = TypeTest, hdrSubType = 0, hdrRemoteIndex = 0, hdrMessageCounter = 0\<rparr>" "[]"]
  by (simp add: wire_header_def Version_def TypeTest_def test_reply_def)

text \<open>
  Two nodes on a network that delivers every datagram: the datagram \<open>d\<close> arrives at the first node,
  from the address of the second; what the first sends back arrives at the second; and so on, for
  \<open>n\<close> datagrams.  The result lists the datagrams exchanged.
\<close>

primrec ping_pong :: "('hs, 'cs) libs \<Rightarrow> iface_input \<Rightarrow> nat \<Rightarrow> event list \<Rightarrow> 'hs Interface \<times> UDPAddr \<Rightarrow>
    'hs Interface \<times> UDPAddr \<Rightarrow> event list" where
  "ping_pong E i 0 ev x y = []"
| "ping_pong E i (Suc n) ev x y =
     (case ev of
        [Udp d to] \<Rightarrow> (let (iface, ev') = consumeOutsidePacket E i d (snd y) (fst x) in ev @ ping_pong E i n ev' y (iface, snd x))
      | _ \<Rightarrow> [])"

lemma ping_pong_test:
  "length (ping_pong E i n [Udp test_reply to] x y) = n"
proof (induction n arbitrary: x y to)
  case (Suc n)
  obtain h where "Parse test_reply = Inr h" "hdrType h = TypeTest" using Parse_test_reply by blast
  from outside_test [OF this, of E i "snd y" "fst x"] Suc show ?case by simp
qed simp

text \<open>
  One test packet never dies: two nodes that hear of each other by a single datagram of type Test, with
  whatever fields and payload, exchange as many datagrams as the network will carry.
\<close>

lemma test_packets_bounce:
  assumes "Parse d = Inr h" "hdrType h = TypeTest"
  shows "length (ping_pong E i n [Udp d to] x y) = n"
  using outside_test [OF assms, of E i "snd y" "fst x"] ping_pong_test [of E i _ "snd y" y "(fst x, snd x)"] by (cases n) simp_all

section \<open>Properties\<close>

text \<open>
  C8: a stolen certificate is enough to take a node's place.  Certificates are public: they travel in
  clear in every handshake.  Whoever sends a node a handshake that carries the victim's certificate,
  under a key pair of his own that need not match it, gets a session registered under the victim's
  address and groups; he can open every packet the node then sends to the victim, and what he seals is
  written to the node's TUN device under the victim's groups.
\<close>
theorem stolen_certificate_suffices:
  fixes E :: "('hs, 'cs) libs" and key :: DHKey
  defines "attacker \<equiv> \<lambda>victim pool. NewHandshakeManager victim key pool :: 'hs HandshakeManager"
  assumes "iface_reach E ifB" "peers_agree E (attacker victim pool) (ifMgr ifB)"
    and "Verify (libL E) victim (caPool (ifMgr ifB)) (inNow (inBase iB)) = Inr ()"
    and "Verify (libL E) (localCert (ifMgr ifB)) pool (inNow iA') = Inr ()"
    and "inRand iA = Some ra" "inRand (inBase iB) = Some rb" "\<And>p a. inSendOk iA p a" "\<And>p a. inSendOk (inBase iB) p a"
  shows "\<exists>p0 p1 a mA. StartHandshake E iA ipB addrB (localCert (ifMgr ifB)) (attacker victim pool) = (Inr (), mA, [(p0, addrB)]) \<and>
    (let ifB' = fst (consumeOutsidePacket E iB p0 addrA ifB); r = length (ifHosts ifB) in
      snd (consumeOutsidePacket E iB p0 addrA ifB) = [Udp p1 addrA] \<and> fst (HandleStage1 E iA' p1 mA) = Inr (a, []) \<and>
      GetByVpnIP (ifHostmap ifB') (pfxAddr (VpnIP victim)) = Some r \<and> hCert (ifHosts ifB' ! r) = Some victim \<and>
      (\<forall>i p. outgoing ifB' r p \<longrightarrow> (\<exists>d. snd (consumeInsidePacket E i p ifB') = [Udp d addrA] \<and>
        Decrypt (hRecvCipher a) 1 (take HeaderLen d) (drop HeaderLen d) = Inr p)) \<and>
      (\<forall>i p src. incoming ifB' r p \<longrightarrow> snd (consumeOutsidePacket E i (data_packet a 1 p) src ifB') = [Tun p]))"
proof -
  have sel: "localCert (attacker victim pool) = victim" "caPool (attacker victim pool) = pool"
    "pending (attacker victim pool) ipB = None"
    by (simp_all add: attacker_def NewHandshakeManager_def)
  let ?cB = "localCert (ifMgr ifB)" and ?ip = "pfxAddr (VpnIP victim)" and ?r = "length (ifHosts ifB)"
  obtain p0 p1 mA k1 k2 where k: "aesKey k1" "aesKey k2" and d: "handshake_datagram HandshakeInitiation p0" and
    start: "StartHandshake E iA ipB addrB ?cB (attacker victim pool) = (Inr (), mA, [(p0, addrB)])" and
    stage0: "HandleStage0 E (inBase iB) p0 addrA (ifMgr ifB) =
      (Inr (newHost ?ip addrA (get_le rb) (get_le ra) k2 k1 victim, []), [(p1, addrA)])" and
    stage1: "fst (HandleStage1 E iA' p1 mA) = Inr (newHost ipB addrB (get_le ra) (get_le rb) k1 k2 ?cB, [])"
    using handshake_run [OF assms(3), unfolded sel, OF assms(4,5) sel(3) assms(6-9), of addrB addrA "[]"] by auto
  let ?b = "newHost ?ip addrA (get_le rb) (get_le ra) k2 k1 victim" and ?a = "newHost ipB addrB (get_le ra) (get_le rb) k1 k2 ?cB"
  let ?B = "fst (onHandshakeComplete ?b [] ifB)"
  have out: "consumeOutsidePacket E iB p0 addrA ifB = (?B, [Udp p1 addrA])"
    using outside_stage0 [OF d stage0] by (simp add: complete_session udp_events_def)
  have h: "ifHosts ?B ! ?r = ?b" "?r < length (ifHosts ?B)" "GetByVpnIP (ifHostmap ?B) ?ip = Some ?r"
    using hm.lookup_after_add(1) [of "ifHosts ifB @ [?b]" ?r] by (simp_all add: complete_session newHost_def)
  have recv: "receiver_of ?B ?r ?a"
    using iface_reach_sessions [OF assms(2)] by (intro complete_receives [OF fresh_newHost [OF k(2,1)]]) (simp_all add: newHost_def)
  have new: "hSendCipher ?b = hRecvCipher ?a" "hCounter ?b = 0" "hRemote ?b = addrA" "aesKey (hSendCipher ?b)"
    "windowEnd ?b = 0" "hCert ?b = Some victim"
    using k by (simp_all add: newHost_def)
  have "\<exists>d. snd (consumeInsidePacket E i p ?B) = [Udp d addrA] \<and>
      Decrypt (hRecvCipher ?a) 1 (take HeaderLen d) (drop HeaderLen d) = Inr p" if "outgoing ?B ?r p" for i p
    using send_step(1) [OF that h(2), of E i] Decrypt_data_packet [OF new(4), of 1 p] new h(1) by simp
  moreover have "snd (consumeOutsidePacket E i (data_packet ?a 1 p) src ?B) = [Tun p]" if "incoming ?B ?r p" for i p src
    using receiver_step(1) [OF recv that, of 1 E i src] new(5) h(1) by (simp add: CheckReplay_def Let_def)
  ultimately show ?thesis
    using out start stage1 h new(6)
    by (intro exI [of _ p0] exI [of _ p1] exI [of _ ?a] exI [of _ mA]) (simp add: Let_def)
qed

text \<open>The key of the sample attacker is not the key in the sample certificate of node 1.\<close>

theorem stolen_certificate_suffices_witness:
  "replicate 32 9 \<noteq> X25519PublicKey (sample_cert 1) \<and>
   (\<exists>p0 p1 a mA. StartHandshake sample_libs (sample_input 7) (Addr4 2) sample_src (sample_cert 2)
      (NewHandshakeManager (sample_cert 1) \<lparr>dhPrivate = [], dhPublic = replicate 32 9\<rparr> [sample_cert 3]) =
        (Inr (), mA, [(p0, sample_src)]) \<and>
    (let ifB' = fst (consumeOutsidePacket sample_libs (sample_in 8) p0 sample_src (sample_iface 2 1)) in
      snd (consumeOutsidePacket sample_libs (sample_in 8) p0 sample_src (sample_iface 2 1)) = [Udp p1 sample_src] \<and>
      GetByVpnIP (ifHostmap ifB') (pfxAddr (VpnIP (sample_cert 1))) = Some 0 \<and>
      (\<forall>i p src. incoming ifB' 0 p \<longrightarrow> snd (consumeOutsidePacket sample_libs i (data_packet a 1 p) src ifB') = [Tun p])))"
proof -
  let ?key = "\<lparr>dhPrivate = [], dhPublic = replicate 32 9\<rparr>"
  let ?atk = "NewHandshakeManager (sample_cert 1) ?key [sample_cert 3] :: nat HandshakeManager"
  have "peers_agree sample_libs ?atk (ifMgr (sample_iface 2 1))"
    using sample_agree sample_IK [of ?key]
    by (simp add: peers_agree_def sample_libs_def NewHandshakeManager_def)
  from stolen_certificate_suffices [OF sample_iface_reach this, of "sample_in 8" "sample_input 9" "sample_input 7" "[7, 0, 0, 0]"
      "[8, 0, 0, 0]" "Addr4 2" sample_src sample_src]
  show ?thesis
    by (simp add: sample_verify Let_def sample_iface_def) (simp add: sample_cert_def, blast)
qed

text \<open>
  C9: a captured initiation can be replayed.  The responder keeps no record of the initiations it has
  answered.  Whoever has captured the one datagram with which a node opened its tunnel can send it again,
  from any address and however much later, while the certificate is valid: the peer builds a new
  session with that address and routes everything for the node there instead of to the node.
\<close>
theorem replayed_initiation_hijacks_route:
  fixes iA' :: input
  assumes "iface_reach E ifB" "peers_agree E mA (ifMgr ifB)" "pending mA ipB = None"
    and "Verify (libL E) (localCert mA) (caPool (ifMgr ifB)) (inNow (inBase iB)) = Inr ()"
    and "Verify (libL E) (localCert mA) (caPool (ifMgr ifB)) (inNow (inBase iB')) = Inr ()"
    and "Verify (libL E) (localCert (ifMgr ifB)) (caPool mA) (inNow iA') = Inr ()"
    and "inRand iA = Some ra" "inRand (inBase iB) = Some rb" "inRand (inBase iB') = Some rb'"
    and "\<And>p a. inSendOk iA p a" "\<And>p a. inSendOk (inBase iB) p a" "\<And>p a. inSendOk (inBase iB') p a"
  shows "\<exists>p0. snd (snd (StartHandshake E iA ipB addrB (localCert (ifMgr ifB)) mA)) = [(p0, addrB)] \<and>
    (let ip = pfxAddr (VpnIP (localCert mA)); up = fst (consumeOutsidePacket E iB p0 addrA ifB);
         later = run_state E ops up; taken = fst (consumeOutsidePacket E iB' p0 evil later) in
      GetByVpnIP (ifHostmap up) ip = Some (length (ifHosts ifB)) \<and> hRemote (ifHosts up ! length (ifHosts ifB)) = addrA \<and>
      GetByVpnIP (ifHostmap taken) ip = Some (length (ifHosts later)) \<and>
      (\<forall>i p. outgoing taken (length (ifHosts later)) p \<longrightarrow>
        (\<exists>d. snd (consumeInsidePacket E i p taken) = [Udp d evil])))"
proof -
  have answer: "\<exists>p0 mA' h out. StartHandshake E iA ipB addrB (localCert mB) mA = (Inr (), mA', [(p0, addrB)]) \<and>
      handshake_datagram HandshakeInitiation p0 \<and> HandleStage0 E i p0 a mB = (Inr (h, []), out) \<and>
      hVpnIP h = pfxAddr (VpnIP (localCert mA)) \<and> hRemote h = a"
    if "same_identity (ifMgr ifB) mB" "Verify (libL E) (localCert mA) (caPool (ifMgr ifB)) (inNow i) = Inr ()"
      "inRand i = Some r" "\<And>p a. inSendOk i p a" for mB i a r
    using handshake_run [of E mA mB i iA' ipB iA ra r addrB a "[]"] that assms(2,3,6,7,10)
    by (auto simp: same_identity_def peers_agree_def newHost_def)
  have none: "same_identity (ifMgr ifB) (ifMgr ifB)" by (simp add: same_identity_def)
  obtain p0 mA' b out where
    start: "StartHandshake E iA ipB addrB (localCert (ifMgr ifB)) mA = (Inr (), mA', [(p0, addrB)])" and
    d: "handshake_datagram HandshakeInitiation p0" and s0: "HandleStage0 E (inBase iB) p0 addrA (ifMgr ifB) = (Inr (b, []), out)" and
    b: "hVpnIP b = pfxAddr (VpnIP (localCert mA))" "hRemote b = addrA"
    using answer [OF none assms(4,8,11), of addrA] by blast
  let ?up = "fst (consumeOutsidePacket E iB p0 addrA ifB)"
  let ?later = "run_state E ops ?up"
  have same: "same_identity (ifMgr ifB) (ifMgr ?later)"
    using same_settings_trans [OF outside_settings run_settings, of ifB E ops E iB p0 addrA] by (simp add: same_settings_def)
  from answer [OF this assms(5,9,12), of evil] obtain h out' where
    s0': "HandleStage0 E (inBase iB') p0 evil (ifMgr ?later) = (Inr (h, []), out')" and
    h: "hVpnIP h = pfxAddr (VpnIP (localCert mA))" "hRemote h = evil"
    using start same by (auto simp: same_identity_def)
  have up: "?up = fst (onHandshakeComplete b [] ifB)" by (simp add: outside_stage0 [OF d s0])
  let ?taken = "fst (consumeOutsidePacket E iB' p0 evil ?later)" and ?r = "length (ifHosts ?later)"
  have taken: "?taken = fst (onHandshakeComplete h [] ?later)" by (simp add: outside_stage0 [OF d s0'])
  have t: "?r < length (ifHosts ?taken)" "ifHosts ?taken ! ?r = h" by (simp_all add: taken complete_session)
  have "\<exists>d. snd (consumeInsidePacket E i p ?taken) = [Udp d evil]" if "outgoing ?taken ?r p" for i p
    using send_step(1) [OF that t(1), of E i] t(2) h(2) by simp
  moreover have "GetByVpnIP (ifHostmap ?taken) (hVpnIP h) = Some ?r"
    unfolding taken by (simp add: complete_session hm.get_ip_add)
  moreover have "GetByVpnIP (ifHostmap ?up) (hVpnIP b) = Some (length (ifHosts ifB))" "ifHosts ?up ! length (ifHosts ifB) = b"
    unfolding up by (simp_all add: complete_session hm.get_ip_add)
  ultimately show ?thesis using start b h by (intro exI [of _ p0]) (simp add: Let_def)
qed

text \<open>Node 1 opens its tunnel to node 2 and sends a packet; then its initiation arrives again from elsewhere.\<close>

theorem replayed_initiation_hijacks_route_witness:
  "\<exists>p0. snd (snd (StartHandshake sample_libs (sample_input 7) (Addr4 2) sample_src (sample_cert 2) (sample_manager 1))) = [(p0, sample_src)] \<and>
    (let up = fst (consumeOutsidePacket sample_libs (sample_in 8) p0 sample_src (sample_iface 2 1));
         later = run_state sample_libs [ExpiryTick 0] up;
         taken = fst (consumeOutsidePacket sample_libs (sample_in 9) p0 \<lparr>udpIP = [], udpPort = 666\<rparr> later) in
      GetByVpnIP (ifHostmap up) (pfxAddr (VpnIP (sample_cert 1))) = Some 0 \<and>
      GetByVpnIP (ifHostmap taken) (pfxAddr (VpnIP (sample_cert 1))) = Some (length (ifHosts later)))"
  using replayed_initiation_hijacks_route [OF sample_iface_reach, of sample_libs "sample_manager 1" 2 1 "Addr4 2" "sample_in 8" "sample_in 9"
      "sample_input 9" "sample_input 7" "[7, 0, 0, 0]" "[8, 0, 0, 0]" "[9, 0, 0, 0]" sample_src sample_src "[ExpiryTick 0]"
      "\<lparr>udpIP = [], udpPort = 666\<rparr>"] sample_agree
  by (simp add: sample_verify Let_def) (simp add: sample_iface_def, blast)

end
