(* ===== verification/Neth_Expiry.thy ===== *)
theory Neth_Expiry
  imports Neth_Nonces Neth_EndToEnd
begin

text \<open>
  How long an unanswered handshake stays pending in a running node: between 180.5 and 181.5 seconds after it
  was started, when the retry ticker of \<open>HandshakeManager.Run\<close> fires every 100 milliseconds, whatever else
  the node does meanwhile.
\<close>

section \<open>One pending handshake\<close>

text \<open>The handshake \<open>r\<close> toward \<open>ip\<close>: its index, the attempts made and the time of the next.\<close>

definition clock :: "'hs HandshakeManager \<Rightarrow> Addr \<Rightarrow> phref \<Rightarrow> u32 \<Rightarrow> int \<Rightarrow> int \<Rightarrow> bool" where
  "clock m ip r idx a t \<longleftrightarrow> pending m ip = Some r \<and> phLocalIndex (phHeap m ! r) = idx \<and>
     phAttempts (phHeap m ! r) = a \<and> phNextRetry (phHeap m ! r) = t"

definition gone :: "'hs HandshakeManager \<Rightarrow> Addr \<Rightarrow> phref \<Rightarrow> bool" where
  "gone m ip r \<longleftrightarrow> r < length (phHeap m) \<and> pending m ip \<noteq> Some r"

lemma clock_queue: "hsm_inv m \<Longrightarrow> clock m ip r idx a t \<Longrightarrow> clock (QueuePacket ip' pkt m) ip r idx a t"
  using hsm_invD(1) [of m ip'] by (auto simp: clock_def QueuePacket_def Let_def nth_list_update split: option.split)

lemma clock_start: "hsm_inv m \<Longrightarrow> clock m ip r idx a t \<Longrightarrow> clock (fst (snd (StartHandshake E i ip' addr c m))) ip r idx a t"
  using hsm_invD(1) [of m ip r]
  by (auto simp: clock_def StartHandshake_def Let_def nth_append split: option.split sum.split prod.split)

text \<open>A response to another index leaves the handshake alone, even if two handshakes drew the same index.\<close>

lemma clock_stage1:
  assumes "hsm_inv m" "clock m ip r idx a t" "\<And>h. Parse pkt = Inr h \<Longrightarrow> hdrRemoteIndex h \<noteq> idx"
  shows "clock (snd (HandleStage1 E i pkt m)) ip r idx a t"
proof -
  have "phRemoteVpnIP (phHeap m ! q) \<noteq> ip" if "Parse pkt = Inr h" "indexMap m (hdrRemoteIndex h) = Some q" for h q
    using hsm_invD(5,6) [OF assms(1) that(2)] assms(2,3) that(1) by (auto simp: clock_def)
  with assms(2) show ?thesis by (auto simp: HandleStage1_state clock_def split: sum.split option.split)
qed

lemma gone_retryStep: "gone m ip r \<Longrightarrow> gone (retryStep now a m) ip r"
  by (auto simp: gone_def retryStep_def split: option.split)

lemma gone_evolves: "mgr_evolves E m m' \<Longrightarrow> gone m ip r \<Longrightarrow> gone m' ip r"
proof (induction rule: mgr_evolves.induct)
  case (me_tick m' now order)
  then have "gone m' ip r" by simp
  then show ?case unfolding retryPending_fold by (induction order arbitrary: m') (simp_all add: gone_retryStep)
qed (auto simp: gone_def StartHandshake_def QueuePacket_def HandleStage1_state Let_def
    split: option.splits sum.splits prod.splits)

lemma clock_tick:
  assumes "hsm_inv m" "clock m ip r idx a t" "distinct order" "ip \<in> set order"
  shows "if now < t then clock (fst (retryPending now order m)) ip r idx a t
    else if 10 \<le> a then gone (fst (retryPending now order m)) ip r
    else clock (fst (retryPending now order m)) ip r idx (a + 1) (now + retryDelay (a + 1))"
proof -
  have p: "pending m ip = Some r" using assms(2) by (simp add: clock_def)
  have "length (phHeap (fold (retryStep now) order m)) = length (phHeap m)"
    by (induction order arbitrary: m) (simp_all add: retryStep_def split: option.split)
  then show ?thesis
    using retryPending_target [OF assms(1,3,4) p, of now] assms(2) hsm_invD(1) [OF assms(1) p]
    by (auto simp: after_tick_def retryOne_def clock_def gone_def maxHandshakeAttempts_def retryPending_fold)
qed

section \<open>Steps of the interface\<close>

definition answers :: "u32 \<Rightarrow> bytes \<Rightarrow> bool" where
  "answers idx d \<longleftrightarrow> (\<exists>h. Parse d = Inr h \<and> hdrType h = TypeHandshake \<and> hdrSubType h = HandshakeResponse \<and>
     hdrRemoteIndex h = idx)"

lemma step_evolves: "mgr_evolves E (ifMgr iface) (ifMgr (fst (iface_step E op iface)))"
  by (cases op) (auto simp: inside_mgr outside_mgr Let_def case_prod_unfold intro: me_tick)

lemma clock_inside:
  assumes "hsm_inv (ifMgr iface)" "clock (ifMgr iface) ip r idx a t"
  shows "clock (ifMgr (fst (consumeInsidePacket E i pkt iface))) ip r idx a t"
  using assms
  by (simp add: consumeInsidePacket_def Let_def case_prod_unfold sendToRemote_eq clock_queue clock_start hsm_inv_start
      split: option.split sum.split)

lemma clock_outside:
  assumes "hsm_inv (ifMgr iface)" "clock (ifMgr iface) ip r idx a t" "\<not> answers idx d"
  shows "clock (ifMgr (fst (consumeOutsidePacket E i d src iface))) ip r idx a t"
proof -
  have "clock (snd (HandleStage1 E (inBase i) d (ifMgr iface))) ip r idx a t"
    if "Parse d = Inr h" "hdrType h = TypeHandshake" "hdrSubType h = HandshakeResponse" for h
    using that assms(3) by (intro clock_stage1 [OF assms(1,2)]) (auto simp: answers_def)
  with assms(2) show ?thesis
    by (simp add: consumeOutsidePacket_def message_mgr handleHandshake_def complete_mgr handleLightHouse_def handleTest_def
        handleCloseTunnel_def Let_def case_prod_unfold split: option.split sum.split)
qed

section \<open>Runs\<close>

primrec retry_times :: "iface_op list \<Rightarrow> int list" where
  "retry_times [] = []"
| "retry_times (op # ops) = (case op of RetryTick now _ \<Rightarrow> [now] | _ \<Rightarrow> []) @ retry_times ops"

text \<open>Ticks at most \<open>\<delta>\<close> apart, from the time \<open>s\<close> on.\<close>

primrec ticking :: "int \<Rightarrow> int \<Rightarrow> int list \<Rightarrow> bool" where
  "ticking \<delta> s [] = True"
| "ticking \<delta> s (now # ts) \<longleftrightarrow> s \<le> now \<and> now \<le> s + \<delta> \<and> ticking \<delta> now ts"

text \<open>No response names the index, and the range loop of every tick visits the address once.\<close>

definition unanswered :: "u32 \<Rightarrow> Addr \<Rightarrow> iface_op list \<Rightarrow> bool" where
  "unanswered idx ip ops \<longleftrightarrow> (\<forall>op \<in> set ops. case op of
     FromUdp _ d _ \<Rightarrow> \<not> answers idx d | RetryTick _ order \<Rightarrow> distinct order \<and> ip \<in> set order | _ \<Rightarrow> True)"

text \<open>What remains once \<open>a\<close> attempts are made, if every tick came just in time or \<open>\<delta>\<close> late.\<close>

definition remaining :: "int \<Rightarrow> int \<Rightarrow> int" where
  "remaining \<delta> a = (\<Sum>k \<leftarrow> [a + 1..10]. retryDelay k + \<delta>)"

lemma remaining_step: "a < 10 \<Longrightarrow> remaining \<delta> a = retryDelay (a + 1) + \<delta> + remaining \<delta> (a + 1)"
  by (simp add: remaining_def upto_rec1 [of "a + 1"])

lemma retryDelay_pos: "0 < retryDelay a"
  by (simp add: retryDelay_def retryBase_def retryMax_def millisecond_def Let_def)

lemma remaining_nonneg: "0 \<le> \<delta> \<Longrightarrow> 0 \<le> remaining \<delta> a"
  unfolding remaining_def by (intro sum_list_nonneg) (auto intro!: add_nonneg_nonneg less_imp_le [OF retryDelay_pos])

lemma clock_step:
  assumes "iface_reach E iface" "clock (ifMgr iface) ip r idx a t" "unanswered idx ip (op # ops)"
  shows "case op of
      RetryTick now _ \<Rightarrow> (if now < t then clock (ifMgr (fst (iface_step E op iface))) ip r idx a t
        else if 10 \<le> a then gone (ifMgr (fst (iface_step E op iface))) ip r
        else clock (ifMgr (fst (iface_step E op iface))) ip r idx (a + 1) (now + retryDelay (a + 1)))
    | _ \<Rightarrow> clock (ifMgr (fst (iface_step E op iface))) ip r idx a t"
proof -
  have inv: "hsm_inv (ifMgr iface)" using iface_reach_mgr [OF assms(1)] hsm_reach_inv by blast
  from assms(2,3) show ?thesis
    using clock_tick [OF inv assms(2)] clock_inside [OF inv assms(2)] clock_outside [OF inv assms(2)]
    by (auto simp: unanswered_def Let_def case_prod_unfold split: iface_op.split)
qed

lemma gone_run: "gone (ifMgr iface) ip r \<Longrightarrow> gone (ifMgr (run_state E ops iface)) ip r"
  by (induction ops arbitrary: iface) (simp_all add: gone_evolves [OF step_evolves])

lemma expires_after:
  assumes "iface_reach E iface" "clock (ifMgr iface) ip r idx a t" "unanswered idx ip ops" "ticking \<delta> s (retry_times ops)" "s < t"
    "0 \<le> \<delta>" "t + \<delta> + remaining \<delta> a \<le> last (s # retry_times ops)"
  shows "gone (ifMgr (run_state E ops iface)) ip r"
  using assms
proof (induction ops arbitrary: iface a t s)
  case Nil
  then show ?case using remaining_nonneg [of \<delta> a] by simp
next
  case (Cons op ops)
  have un: "unanswered idx ip ops" using Cons.prems(3) by (simp add: unanswered_def)
  have re: "iface_reach E (fst (iface_step E op iface))" by (rule iface_reach_step [OF Cons.prems(1)])
  note st = clock_step [OF Cons.prems(1,2,3)] and ih = Cons.IH [OF re _ un _ _ Cons.prems(6)]
  show ?case
  proof (cases "\<exists>now order. op = RetryTick now order")
    case False
    with st have c: "clock (ifMgr (fst (iface_step E op iface))) ip r idx a t" and e: "retry_times (op # ops) = retry_times ops"
      by (cases op; simp)+
    show ?thesis using ih [OF c Cons.prems(4) [unfolded e] Cons.prems(5) Cons.prems(7) [unfolded e]] by simp
  next
    case True
    then obtain now order where op: "op = RetryTick now order" by blast
    show ?thesis
    proof (cases "now < t")
      case True
      with st ih [of a t now] Cons.prems op show ?thesis by simp
    next
      case False
      show ?thesis
      proof (cases "10 \<le> a")
        case True
        with False st op gone_run show ?thesis by simp
      next
        case a: False
        have "now \<le> t + \<delta>" using Cons.prems(4,5) op by simp
        then have "now + retryDelay (a + 1) + \<delta> + remaining \<delta> (a + 1) \<le> last (now # retry_times ops)"
          using Cons.prems(7) a op by (simp add: remaining_step)
        with a False st op ih [of "a + 1" "now + retryDelay (a + 1)" now] Cons.prems(4) retryDelay_pos [of "a + 1"]
        show ?thesis by simp
      qed
    qed
  qed
qed

lemma pending_until:
  assumes "iface_reach E iface" "clock (ifMgr iface) ip r idx a t" "unanswered idx ip ops" "\<forall>now \<in> set (retry_times ops). now < t + remaining 0 a"
  shows "pending (ifMgr (run_state E ops iface)) ip = Some r"
  using assms
proof (induction ops arbitrary: iface a t)
  case Nil
  then show ?case by (simp add: clock_def)
next
  case (Cons op ops)
  have un: "unanswered idx ip ops" using Cons.prems(3) by (simp add: unanswered_def)
  have re: "iface_reach E (fst (iface_step E op iface))" by (rule iface_reach_step [OF Cons.prems(1)])
  note st = clock_step [OF Cons.prems(1,2,3)] and ih = Cons.IH [OF re _ un]
  show ?case
  proof (cases "\<exists>now order. op = RetryTick now order \<and> t \<le> now")
    case False
    with st have "clock (ifMgr (fst (iface_step E op iface))) ip r idx a t" by (cases op) auto
    with ih Cons.prems(4) show ?thesis by simp
  next
    case True
    then obtain now order where op: "op = RetryTick now order" "t \<le> now" by blast
    have "remaining 0 a = 0" if "10 \<le> a" using that by (simp add: remaining_def)
    then have a: "a < 10" using Cons.prems(4) op by (force simp: not_le)
    then have "\<forall>s \<in> set (retry_times ops). s < now + retryDelay (a + 1) + remaining 0 (a + 1)"
      using Cons.prems(4) op by (auto simp: remaining_step)
    with st op a ih show ?thesis by simp
  qed
qed

lemma remaining_values: "remaining \<delta> 1 = 180000 * millisecond + 9 * \<delta>"
  by (simp add: remaining_def retryDelay_def retryBase_def retryMax_def millisecond_def Let_def upto_rec1)

section \<open>A sample run\<close>

lemma ticking_snoc: "ticking \<delta> s (xs @ [y]) \<longleftrightarrow> ticking \<delta> s xs \<and> last (s # xs) \<le> y \<and> y \<le> last (s # xs) + \<delta>"
  by (induction xs arbitrary: s) auto

lemma ticking_every:
  "0 \<le> \<delta> \<Longrightarrow> ticking \<delta> s (map (\<lambda>k. s + int (Suc k) * \<delta>) [0..<n]) \<and> last (s # map (\<lambda>k. s + int (Suc k) * \<delta>) [0..<n]) = s + int n * \<delta>"
  by (induction n) (simp_all add: ticking_snoc distrib_right)

text \<open>The first sample node after a packet for the second one: a handshake started at time 10.\<close>

definition sample_waiting :: "nat Interface" where
  "sample_waiting = fst (iface_step sample_libs (FromTun (sample_in 7) (sample_pkt 1)) (sample_iface 1 2))"

lemma sample_waiting_clock:
  "iface_reach sample_libs sample_waiting" "clock (ifMgr sample_waiting) (Addr4 2) 0 7 1 (10 + retryBase)"
proof -
  show "iface_reach sample_libs sample_waiting"
    unfolding sample_waiting_def by (rule iface_reach_step [OF sample_iface_reach])
  have "ifMgr sample_waiting = QueuePacket (Addr4 2) (sample_pkt 1) sample_started"
  proof -
    let ?u = "\<lparr>udpIP = [], udpPort = 1\<rparr>"
    have v: "Verify (libL sample_libs) (localCert (sample_manager 1)) (caPool (sample_manager 2)) (inNow (sample_input 8)) = Inr ()"
      "Verify (libL sample_libs) (localCert (sample_manager 2)) (caPool (sample_manager 1)) (inNow (sample_input 9)) = Inr ()"
      "pending (sample_manager 1) (Addr4 2) = None" "inSendOk (sample_input b) p u" for b p u
      by (simp_all add: sample_verify)
    obtain m out where "StartHandshake sample_libs (sample_input 7) (Addr4 2) ?u (sample_cert 2) (sample_manager 1) = (Inr (), m, out)"
      using handshake_run [OF sample_agree v(1-3) sample_manager_sel(5) sample_manager_sel(5) v(4) v(4), of 7 ?u ?u "[]"]
      unfolding sample_manager_sel by blast
    moreover from this have "m = sample_started" by (simp add: sample_started_def)
    ultimately show ?thesis
      using dial_step(2) [OF sample_dials(1), of sample_libs "sample_in 7" m out] by (simp add: sample_waiting_def)
  qed
  moreover have "clock sample_started (Addr4 2) 0 7 1 (10 + retryBase)"
    using sample_started_pending hsm_invD(5) [OF hsm_reach_inv [OF sample_started_reach], of 7 0]
    by (simp add: clock_def retryBase_def millisecond_def)
  ultimately show "clock (ifMgr sample_waiting) (Addr4 2) 0 7 1 (10 + retryBase)"
    using clock_queue [OF hsm_reach_inv [OF sample_started_reach]] by simp
qed

section \<open>Properties\<close>

text \<open>
  C18: an unanswered handshake lasts three minutes.  In a running node whose retry ticker fires every 100
  milliseconds, a handshake started at time \<open>s\<close> that no response ever names is given up between 180.5
  and 181.5 seconds later, whatever packets and datagrams the node handles meanwhile and whatever
  other handshakes it starts, completes or gives up.
\<close>
theorem unanswered_handshake_lasts_three_minutes:
  assumes "iface_reach E iface" "pending (ifMgr iface) ip = Some r" "phAttempts (phHeap (ifMgr iface) ! r) = 1"
    and "phNextRetry (phHeap (ifMgr iface) ! r) = s + retryBase"
    and "unanswered (phLocalIndex (phHeap (ifMgr iface) ! r)) ip ops" "ticking (100 * millisecond) s (retry_times ops)"
  shows "(s + 181500 * millisecond \<le> last (s # retry_times ops) \<longrightarrow> pending (ifMgr (run_state E ops iface)) ip \<noteq> Some r) \<and>
    ((\<forall>now \<in> set (retry_times ops). now < s + 180500 * millisecond) \<longrightarrow> pending (ifMgr (run_state E ops iface)) ip = Some r)"
proof -
  have c: "clock (ifMgr iface) ip r (phLocalIndex (phHeap (ifMgr iface) ! r)) 1 (s + retryBase)"
    using assms(2-4) by (simp add: clock_def)
  show ?thesis
    using expires_after [OF assms(1) c assms(5,6)] pending_until [OF assms(1) c assms(5)]
    by (auto simp: remaining_values retryBase_def millisecond_def gone_def add.commute)
qed

theorem unanswered_handshake_lasts_three_minutes_witness:
  "pending (ifMgr (run_state sample_libs
     (map (\<lambda>k. RetryTick (10 + int (Suc k) * (100 * millisecond)) [Addr4 2]) [0..<1815]) sample_waiting)) (Addr4 2) \<noteq> Some 0"
proof -
  let ?t = "\<lambda>k. 10 + int (Suc k) * (100 * millisecond)"
  have r: "retry_times (map (\<lambda>k. RetryTick (?t k) [Addr4 2]) ks) = map ?t ks" for ks by (induction ks) simp_all
  have u: "unanswered 7 (Addr4 2) (map (\<lambda>k. RetryTick (?t k) [Addr4 2]) ks)" for ks by (simp add: unanswered_def)
  have p: "pending (ifMgr sample_waiting) (Addr4 2) = Some 0" "phAttempts (phHeap (ifMgr sample_waiting) ! 0) = 1"
    "phNextRetry (phHeap (ifMgr sample_waiting) ! 0) = 10 + retryBase" "phLocalIndex (phHeap (ifMgr sample_waiting) ! 0) = 7"
    using sample_waiting_clock(2) by (simp_all add: clock_def)
  have t: "ticking (100 * millisecond) 10 (map ?t [0..<1815])" "last (10 # map ?t [0..<1815]) = 10 + 181500 * millisecond"
    using ticking_every [of "100 * millisecond" 10 1815] by (simp_all add: millisecond_def)
  show ?thesis
    using unanswered_handshake_lasts_three_minutes [OF sample_waiting_clock(1) p(1-3), unfolded p(4), OF u, unfolded r, OF t(1), unfolded t(2)]
    by blast
qed

end
