(* ===== verification/Neth_Tun.thy ===== *)
theory Neth_Tun
  imports Neth_Netip "HOL-Library.Multiset"
begin

text \<open>
  The TUN device of \<^verbatim>\<open>tun/tun.go\<close>: the byte layout of \<^verbatim>\<open>struct ifreq\<close>, the netmask, and the sequence of
  system calls \<open>Open\<close> makes, with what it closes on every path.  The kernel is a parameter: whether a
  call succeeds, and what it leaves in the buffer it was given.  Integers in native byte order are
  little-endian, as on the platforms the 40-byte layout is written for.
\<close>

section \<open>The request buffer\<close>

definition IFNAMSIZ :: nat where "IFNAMSIZ = 16"
definition AF_INET :: u16 where "AF_INET = 2"
definition IFF_UP :: u16 where "IFF_UP = 1"
definition IFF_TUN :: u16 where "IFF_TUN = 1"
definition IFF_NO_PI :: u16 where "IFF_NO_PI = 0x1000"

type_synonym ifreq = bytes

definition ifreqZero :: ifreq where
  "ifreqZero = replicate 40 0"

text \<open>Overwriting bytes of a buffer from an offset.\<close>

definition put_at :: "nat \<Rightarrow> bytes \<Rightarrow> bytes \<Rightarrow> bytes" where
  "put_at i b r = take i r @ b @ drop (i + length b) r"

definition setName :: "string \<Rightarrow> ifreq \<Rightarrow> ifreq" where
  "setName name r = put_at 0 (take IFNAMSIZ (str_bytes name)) r"

definition getName :: "ifreq \<Rightarrow> string" where
  "getName r =
     (let b = take IFNAMSIZ r in
      if 0 \<in> set b then bytes_str (takeWhile (\<lambda>x. x \<noteq> 0) b) else bytes_str b)"

definition setFlags :: "u16 \<Rightarrow> ifreq \<Rightarrow> ifreq" where
  "setFlags flags r = put_at IFNAMSIZ (put_le 2 flags) r"

definition getFlags :: "ifreq \<Rightarrow> u16" where
  "getFlags r = get_le (slice IFNAMSIZ (IFNAMSIZ + 2) r)"

definition setMTU :: "int \<Rightarrow> ifreq \<Rightarrow> ifreq" where
  "setMTU mtu r = put_at IFNAMSIZ (put_le 4 (word_of_int mtu :: u32)) r"

definition setSockaddrIn :: "bytes \<Rightarrow> ifreq \<Rightarrow> ifreq" where
  "setSockaddrIn ip r = put_at (IFNAMSIZ + 4) ip (put_at IFNAMSIZ (put_le 2 AF_INET) r)"

definition prefixMask4 :: "int \<Rightarrow> bytes" where
  "prefixMask4 bits =
     (let m = push_bit (nat (32 - bits)) (NOT (0 :: u32))
      in [ucast (drop_bit 24 m), ucast (drop_bit 16 m), ucast (drop_bit 8 m), ucast m])"

section \<open>Opening the device\<close>

datatype tun_req = TUNSETIFF | SIOCSIFADDR | SIOCSIFNETMASK | SIOCSIFMTU | SIOCGIFFLAGS | SIOCSIFFLAGS

text \<open>
  The kernel: the descriptors two calls return, and the error number of a request with what it writes over
  its buffer, from the start and not beyond its end.
\<close>

record sys =
  sysOpen :: "int option"
  sysSocket :: "int option"
  sysIoctl :: "int \<Rightarrow> tun_req \<Rightarrow> ifreq \<Rightarrow> int \<times> ifreq"

datatype sys_call =
    SysOpen string int
  | SysSocket int
  | SysIoctl int tun_req ifreq
  | SysClose int
  | SysWriteFile string bytes

datatype tun_error = BadCIDR string | OnlyIPv4 string | OpenFailed | SocketFailed | IoctlFailed tun_req

record Device =
  devFd :: int
  devName :: string
  devClosed :: bool

definition cloneDevice :: string where
  "cloneDevice = ''/dev/net/tun''"

definition ioctlPtr :: "sys \<Rightarrow> int \<Rightarrow> tun_req \<Rightarrow> ifreq \<Rightarrow> ifreq option" where
  "ioctlPtr S fd req arg =
     (let (errno, written) = sysIoctl S fd req arg
      in if errno \<noteq> 0 then None else Some (put_at 0 (take (length arg) written) arg))"

text \<open>The requests on the control socket, in order, up to the first that fails.\<close>

definition configure :: "sys \<Rightarrow> int \<Rightarrow> string \<Rightarrow> Prefix \<Rightarrow> int \<Rightarrow> tun_req option \<times> sys_call list" where
  "configure S sock dev pfx mtu =
     (let addrIfr = setSockaddrIn (As4 (pfxAddr pfx)) (setName dev ifreqZero);
          maskIfr = setSockaddrIn (prefixMask4 (pfxBits pfx)) (setName dev ifreqZero);
          mtuIfr = setMTU mtu (setName dev ifreqZero);
          flagsIfr = setName dev ifreqZero;
          log1 = [SysIoctl sock SIOCSIFADDR addrIfr];
          log2 = log1 @ [SysIoctl sock SIOCSIFNETMASK maskIfr];
          log3 = log2 @ [SysIoctl sock SIOCSIFMTU mtuIfr];
          log4 = log3 @ [SysIoctl sock SIOCGIFFLAGS flagsIfr]
      in if ioctlPtr S sock SIOCSIFADDR addrIfr = None then (Some SIOCSIFADDR, log1)
         else if ioctlPtr S sock SIOCSIFNETMASK maskIfr = None then (Some SIOCSIFNETMASK, log2)
         else if ioctlPtr S sock SIOCSIFMTU mtuIfr = None then (Some SIOCSIFMTU, log3)
         else case ioctlPtr S sock SIOCGIFFLAGS flagsIfr of
           None \<Rightarrow> (Some SIOCGIFFLAGS, log4)
         | Some flagsIfr \<Rightarrow>
             let flagsIfr = setFlags (getFlags flagsIfr OR IFF_UP) flagsIfr;
                 log5 = log4 @ [SysIoctl sock SIOCSIFFLAGS flagsIfr]
             in if ioctlPtr S sock SIOCSIFFLAGS flagsIfr = None then (Some SIOCSIFFLAGS, log5)
                else (None, log5))"

text \<open>
  The control socket is closed by a deferred call, after whatever the path closes itself; the
  result of the write to \<^verbatim>\<open>rp_filter\<close> is ignored.
\<close>

definition tun_Open :: "sys \<Rightarrow> string \<Rightarrow> string \<Rightarrow> int \<Rightarrow> (tun_error, Device) res \<times> sys_call list" where
  "tun_Open S name cidr mtu =
     (case ParsePrefix cidr of
        None \<Rightarrow> (Inl (BadCIDR cidr), [])
      | Some pfx \<Rightarrow>
          if \<not> Is4 (pfxAddr pfx) then (Inl (OnlyIPv4 cidr), [])
          else case sysOpen S of
            None \<Rightarrow> (Inl OpenFailed, [])
          | Some fd \<Rightarrow>
              let tunIfr = setFlags (IFF_TUN OR IFF_NO_PI) (setName name ifreqZero);
                  log = [SysOpen cloneDevice fd, SysIoctl fd TUNSETIFF tunIfr]
              in case ioctlPtr S fd TUNSETIFF tunIfr of
                None \<Rightarrow> (Inl (IoctlFailed TUNSETIFF), log @ [SysClose fd])
              | Some tunIfr \<Rightarrow>
                  let dev = getName tunIfr in
                  (case sysSocket S of
                     None \<Rightarrow> (Inl SocketFailed, log @ [SysClose fd])
                   | Some sock \<Rightarrow>
                       let (failed, conf) = configure S sock dev pfx mtu;
                           log = log @ [SysSocket sock] @ conf
                       in case failed of
                            Some req \<Rightarrow> (Inl (IoctlFailed req), log @ [SysClose fd, SysClose sock])
                          | None \<Rightarrow>
                              (Inr \<lparr>devFd = fd, devName = dev, devClosed = False\<rparr>,
                               log @ [SysWriteFile (''/proc/sys/net/ipv4/conf/'' @ dev @ ''/rp_filter'') (str_bytes ''2''),
                                      SysClose sock])))"

definition Device_Name :: "Device \<Rightarrow> string" where
  "Device_Name d = devName d"

text \<open>
  One read of a packet into \<open>buf\<close>: the kernel cuts what does not fit, and the rest of the buffer keeps
  what earlier reads left there.  \<^verbatim>\<open>os.File\<close> reports a read of no bytes into a non-empty buffer as the
  error \<^verbatim>\<open>io.EOF\<close>, and every operation on a closed file fails.
\<close>

definition Read :: "Device \<Rightarrow> bytes option \<Rightarrow> bytes \<Rightarrow> (nat \<times> bytes) option" where
  "Read d packet buf =
     (if devClosed d then None
      else case packet of
        None \<Rightarrow> None
      | Some b \<Rightarrow>
          let n = min (length b) (length buf)
          in if n = 0 \<and> buf \<noteq> [] then None else Some (n, take n b @ drop n buf))"

text \<open>One packet written; \<open>taken\<close> is whether the kernel takes it whole.\<close>

definition Write :: "Device \<Rightarrow> (bytes \<Rightarrow> bool) \<Rightarrow> bytes \<Rightarrow> nat option" where
  "Write d taken buf = (if devClosed d \<or> \<not> taken buf then None else Some (length buf))"

text \<open>The first component is whether the call succeeded.\<close>

definition Device_Close :: "Device \<Rightarrow> bool \<times> Device" where
  "Device_Close d = (if devClosed d then (False, d) else (True, d\<lparr>devClosed := True\<rparr>))"

section \<open>Lemmas\<close>

primrec opened :: "sys_call list \<Rightarrow> int list" where
  "opened [] = []"
| "opened (c # cs) = (case c of SysOpen _ fd \<Rightarrow> [fd] | SysSocket fd \<Rightarrow> [fd] | _ \<Rightarrow> []) @ opened cs"

primrec closed :: "sys_call list \<Rightarrow> int list" where
  "closed [] = []"
| "closed (c # cs) = (case c of SysClose fd \<Rightarrow> [fd] | _ \<Rightarrow> []) @ closed cs"

lemma calls_append [simp]: "opened (xs @ ys) = opened xs @ opened ys" "closed (xs @ ys) = closed xs @ closed ys"
  by (induction xs) simp_all

lemma closed_device_fails:
  "Read (snd (Device_Close d)) packet buf = None" "Write (snd (Device_Close d)) taken b = None"
  "\<not> fst (Device_Close (snd (Device_Close d)))"
  by (simp_all add: Device_Close_def Read_def Write_def)

lemma tun_Open_open: "tun_Open S name cidr mtu = (Inr d, calls) \<Longrightarrow> \<not> devClosed d"
  by (auto simp: tun_Open_def Let_def case_prod_unfold split: option.splits if_splits)

lemma configure_descriptors:
  "opened (snd (configure S sock dev p mtu)) = []" "closed (snd (configure S sock dev p mtu)) = []"
  by (simp_all add: configure_def Let_def split: option.split)

lemma tun_descriptors:
  "case tun_Open S name cidr mtu of
     (Inl _, log) \<Rightarrow> mset (opened log) = mset (closed log)
   | (Inr d, log) \<Rightarrow> mset (opened log) = add_mset (devFd d) (mset (closed log))"
  using configure_descriptors
  by (simp add: tun_Open_def Let_def case_prod_unfold split: option.split)

lemma length_put_at [simp]: "i + length b \<le> length r \<Longrightarrow> length (put_at i b r) = length r"
  by (simp add: put_at_def)

lemma take_put_at [simp]: "n \<le> i \<Longrightarrow> i \<le> length r \<Longrightarrow> take n (put_at i b r) = take n r"
  by (simp add: put_at_def)

lemma slice_put_at [simp]: "i \<le> length r \<Longrightarrow> j = i + length b \<Longrightarrow> slice i j (put_at i b r) = b"
  by (simp add: put_at_def slice_def)

lemma take_setName: "length name \<le> IFNAMSIZ \<Longrightarrow> length r = 40 \<Longrightarrow>
    take IFNAMSIZ (setName name r) = str_bytes name @ drop (length name) (take IFNAMSIZ r)"
  by (simp add: setName_def put_at_def IFNAMSIZ_def drop_take)

lemma str_bytes_NUL: "0 \<in> set (str_bytes s) \<longleftrightarrow> CHR 0x00 \<in> set s"
proof -
  have "(word_of_nat (of_char c) :: byte) = 0 \<longleftrightarrow> c = CHR 0x00" for c
  proof
    assume "(word_of_nat (of_char c) :: byte) = 0"
    then have "unat (word_of_nat (of_char c) :: byte) = 0" by simp
    then have "of_char c = (0 :: nat)" by (simp add: unat_of_nat)
    then have "c = char_of (0 :: nat)" by (metis char_of_char)
    also have "char_of (0 :: nat) = CHR 0x00" by (simp add: char_of_def)
    finally show "c = CHR 0x00" .
  qed simp
  then have "0 \<in> set (str_bytes s) \<longleftrightarrow> (\<exists>c \<in> set s. c = CHR 0x00)"
    unfolding str_bytes_def set_map image_iff by metis
  then show ?thesis by blast
qed

text \<open>A name the kernel hands back fits and holds no NUL, so it survives the next request.\<close>

lemma getName_clean: "length (getName r) \<le> IFNAMSIZ" "CHR 0x00 \<notin> set (getName r)"
proof -
  obtain b :: bytes where b: "getName r = bytes_str b" "length b \<le> IFNAMSIZ" "0 \<notin> set b"
  proof (cases "0 \<in> set (take IFNAMSIZ r)")
    case True
    have "length (takeWhile (\<lambda>x. x \<noteq> 0) (take IFNAMSIZ r)) \<le> IFNAMSIZ"
      by (rule le_trans [OF length_takeWhile_le]) simp
    with True that show ?thesis by (auto simp: getName_def Let_def dest: set_takeWhileD)
  next
    case False
    with that show ?thesis by (simp add: getName_def Let_def)
  qed
  then show "length (getName r) \<le> IFNAMSIZ" by (simp add: bytes_str_def)
  have "x = 0" if "char_of (unat x) = CHR 0x00" for x :: byte
  proof -
    from that have "of_char (char_of (unat x)) = (0 :: nat)" by simp
    then have "unat x mod 256 = 0" by simp
    moreover have "unat x < 2 ^ LENGTH(8)" by (rule unsigned_less)
    ultimately show ?thesis by (simp add: unat_eq_zero)
  qed
  with b show "CHR 0x00 \<notin> set (getName r)" by (auto simp: bytes_str_def) metis
qed

lemma getName_setName:
  assumes "length name \<le> IFNAMSIZ" "CHR 0x00 \<notin> set name"
  shows "getName (setName name ifreqZero) = name"
proof -
  have t: "take IFNAMSIZ (setName name ifreqZero) = str_bytes name @ replicate (IFNAMSIZ - length name) 0"
    using take_setName [OF assms(1), of ifreqZero] by (simp add: ifreqZero_def IFNAMSIZ_def)
  have nz: "\<forall>x \<in> set (str_bytes name). x \<noteq> 0" using assms(2) str_bytes_NUL by metis
  then have "takeWhile (\<lambda>x. x \<noteq> 0) (str_bytes name @ replicate n 0) = str_bytes name" for n
    by (cases n) (simp_all add: takeWhile_append)
  with t nz show ?thesis by (auto simp: getName_def Let_def)
qed

lemma getName_later: "length r = 40 \<Longrightarrow> IFNAMSIZ \<le> i \<Longrightarrow> i \<le> 40 \<Longrightarrow> getName (put_at i b r) = getName r"
  by (simp add: getName_def)

lemma length_setName [simp]: "length (setName name ifreqZero) = 40"
  by (simp add: setName_def ifreqZero_def IFNAMSIZ_def)

lemma sockaddr_request:
  assumes "length ip = 4"
  shows "getName (setSockaddrIn ip (setName (getName r) ifreqZero)) = getName r"
    "slice 20 24 (setSockaddrIn ip (setName name ifreqZero)) = ip"
proof -
  have "getName (setName (getName r) ifreqZero) = getName r" by (rule getName_setName [OF getName_clean])
  then show "getName (setSockaddrIn ip (setName (getName r) ifreqZero)) = getName r"
    by (simp add: setSockaddrIn_def getName_later IFNAMSIZ_def)
  show "slice 20 24 (setSockaddrIn ip (setName name ifreqZero)) = ip"
    using assms by (simp add: setSockaddrIn_def IFNAMSIZ_def)
qed

lemma prefixMask4_eq: "prefixMask4 bits = put_be 4 (push_bit (nat (32 - bits)) (NOT (0 :: u32)))"
  by (simp add: prefixMask4_def Let_def put_be_def upt_rec)

lemma masked_eq_iff:
  fixes a b :: u32
  assumes "n \<le> 32"
  shows "a AND push_bit n (NOT 0) = b AND push_bit n (NOT 0) \<longleftrightarrow> drop_bit n (a XOR b) = 0"
proof -
  have "a AND push_bit n (NOT 0) = b AND push_bit n (NOT 0) \<longleftrightarrow> (\<forall>k. n \<le> k \<longrightarrow> bit a k = bit b k)"
  proof
    assume e: "a AND push_bit n (NOT 0) = b AND push_bit n (NOT 0)"
    show "\<forall>k. n \<le> k \<longrightarrow> bit a k = bit b k"
    proof (intro allI impI)
      fix k assume "n \<le> k"
      with arg_cong [OF e, of "\<lambda>w. bit w k"] show "bit a k = bit b k"
        using bit_imp_le_length [of a k] bit_imp_le_length [of b k] by (auto simp: bit_simps)
    qed
  qed (auto intro!: bit_word_eqI simp: bit_simps)
  moreover have "drop_bit n (a XOR b) = 0 \<longleftrightarrow> (\<forall>k. n \<le> k \<longrightarrow> bit a k = bit b k)"
  proof
    assume e: "drop_bit n (a XOR b) = 0"
    show "\<forall>k. n \<le> k \<longrightarrow> bit a k = bit b k"
    proof (intro allI impI)
      fix k assume "n \<le> k"
      with arg_cong [OF e, of "\<lambda>w. bit w (k - n)"] show "bit a k = bit b k" by (simp add: bit_simps)
    qed
  qed (auto intro!: bit_word_eqI simp: bit_simps)
  ultimately show ?thesis by simp
qed

lemma request_flags:
  assumes "length r = 40"
  shows "getFlags (setFlags w r) = w" "getName (setFlags w r) = getName r"
proof -
  have "slice IFNAMSIZ (IFNAMSIZ + 2) (setFlags w r) = put_le 2 w"
    using assms by (simp add: setFlags_def IFNAMSIZ_def)
  then show "getFlags (setFlags w r) = w" by (simp add: getFlags_def get_le_def put_le_def)
  show "getName (setFlags w r) = getName r" using assms by (simp add: setFlags_def getName_later IFNAMSIZ_def)
qed

lemma request_mtu:
  "slice 16 20 (setMTU mtu (setName name ifreqZero)) = put_le 4 (word_of_int mtu :: u32)"
  "getName (setMTU mtu (setName (getName r) ifreqZero)) = getName r"
  by (simp_all add: setMTU_def IFNAMSIZ_def getName_later getName_setName [OF getName_clean])

lemma ioctl_length: "ioctlPtr S fd req arg = Some out \<Longrightarrow> length out = length arg"
  by (auto simp: ioctlPtr_def Let_def case_prod_unfold put_at_def split: if_splits)

text \<open>
  The requests of a configuration that succeeds: all of them, in order, the last setting the flags the
  kernel reported and \<^verbatim>\<open>IFF_UP\<close>.
\<close>

lemma configure_ok:
  assumes "fst (configure S sock (getName r) \<lparr>pfxAddr = Addr4 w, pfxBits = bits\<rparr> mtu) = None"
  shows "\<exists>a m u g g' f. snd (configure S sock (getName r) \<lparr>pfxAddr = Addr4 w, pfxBits = bits\<rparr> mtu) =
      [SysIoctl sock SIOCSIFADDR a, SysIoctl sock SIOCSIFNETMASK m, SysIoctl sock SIOCSIFMTU u,
       SysIoctl sock SIOCGIFFLAGS g, SysIoctl sock SIOCSIFFLAGS f] \<and>
    (\<forall>x \<in> {a, m, u, g}. getName x = getName r) \<and> slice 20 24 a = put_be 4 w \<and> slice 20 24 m = prefixMask4 bits \<and>
    slice 16 20 u = put_le 4 (word_of_int mtu :: u32) \<and>
    ioctlPtr S sock SIOCGIFFLAGS g = Some g' \<and> getFlags f = getFlags g' OR IFF_UP \<and> getName f = getName g'"
proof -
  let ?z = "setName (getName r) ifreqZero"
  let ?a = "setSockaddrIn (put_be 4 w) ?z" and ?m = "setSockaddrIn (prefixMask4 bits) ?z"
  have l: "length (prefixMask4 bits) = 4" by (simp add: prefixMask4_eq)
  from assms obtain g' where g: "ioctlPtr S sock SIOCGIFFLAGS ?z = Some g'"
    "snd (configure S sock (getName r) \<lparr>pfxAddr = Addr4 w, pfxBits = bits\<rparr> mtu) =
      [SysIoctl sock SIOCSIFADDR ?a, SysIoctl sock SIOCSIFNETMASK ?m, SysIoctl sock SIOCSIFMTU (setMTU mtu ?z),
       SysIoctl sock SIOCGIFFLAGS ?z, SysIoctl sock SIOCSIFFLAGS (setFlags (getFlags g' OR IFF_UP) g')]"
    by (auto simp: configure_def As4_def Let_def split: if_splits option.splits)
  have "length g' = 40" using ioctl_length [OF g(1)] by simp
  note f = request_flags [OF this, of "getFlags g' OR IFF_UP"]
  show ?thesis
    using sockaddr_request [of "put_be 4 w"] sockaddr_request [OF l] request_mtu getName_setName [OF getName_clean, of r] f g
    by (intro exI [of _ ?a] exI [of _ ?m] exI [of _ "setMTU mtu ?z"] exI [of _ ?z] exI [of _ g']
        exI [of _ "setFlags (getFlags g' OR IFF_UP) g'"]) simp
qed

text \<open>All the calls of an opening that succeeds.\<close>

lemma tun_calls:
  assumes "tun_Open S name cidr mtu = (Inr d, log)"
  obtains p r sock where "ParsePrefix cidr = Some p" "Is4 (pfxAddr p)" "devName d = getName r"
    "fst (configure S sock (getName r) p mtu) = None"
    "log = [SysOpen cloneDevice (devFd d), SysIoctl (devFd d) TUNSETIFF (setFlags (IFF_TUN OR IFF_NO_PI) (setName name ifreqZero)),
        SysSocket sock] @ snd (configure S sock (getName r) p mtu) @
      [SysWriteFile (''/proc/sys/net/ipv4/conf/'' @ devName d @ ''/rp_filter'') (str_bytes ''2''), SysClose sock]"
  using assms by (auto simp: tun_Open_def Let_def case_prod_unfold split: option.splits if_splits)

lemma prefix_mask:
  assumes "ParsePrefix cidr = Some \<lparr>pfxAddr = Addr4 w, pfxBits = bits\<rparr>"
  shows "Contains \<lparr>pfxAddr = Addr4 w, pfxBits = bits\<rparr> (Addr4 x) \<longleftrightarrow>
    x AND get_be (prefixMask4 bits) = w AND get_be (prefixMask4 bits)"
proof -
  from ParsePrefix_form(2,3) [OF assms] have b: "0 \<le> bits" "bits \<le> 32" by (simp_all add: BitLen_def)
  then have n: "nat (32 - bits) = 32 - nat bits" by simp
  show ?thesis
    using masked_eq_iff [of "32 - nat bits" w x] b by (auto simp: Contains_def IsValid_def Zone_def prefixMask4_eq n)
qed

lemma tun_network:
  assumes "tun_Open S name cidr mtu = (Inr d, log)"
  shows "\<exists>w bits t sock a m u g g' f. ParsePrefix cidr = Some \<lparr>pfxAddr = Addr4 w, pfxBits = bits\<rparr> \<and>
    log = [SysOpen cloneDevice (devFd d), SysIoctl (devFd d) TUNSETIFF t, SysSocket sock,
      SysIoctl sock SIOCSIFADDR a, SysIoctl sock SIOCSIFNETMASK m, SysIoctl sock SIOCSIFMTU u,
      SysIoctl sock SIOCGIFFLAGS g, SysIoctl sock SIOCSIFFLAGS f,
      SysWriteFile (''/proc/sys/net/ipv4/conf/'' @ devName d @ ''/rp_filter'') (str_bytes ''2''), SysClose sock] \<and>
    getFlags t = IFF_TUN OR IFF_NO_PI \<and>
    (length name \<le> IFNAMSIZ \<and> CHR 0x00 \<notin> set name \<longrightarrow> getName t = name) \<and> (\<forall>x \<in> {a, m, u, g}. getName x = devName d) \<and>
    slice 20 24 a = put_be 4 w \<and>
    (\<forall>x. Contains \<lparr>pfxAddr = Addr4 w, pfxBits = bits\<rparr> (Addr4 x) \<longleftrightarrow>
      x AND get_be (slice 20 24 m) = w AND get_be (slice 20 24 m)) \<and>
    slice 16 20 u = put_le 4 (word_of_int mtu :: u32) \<and>
    ioctlPtr S sock SIOCGIFFLAGS g = Some g' \<and> getFlags f = getFlags g' OR IFF_UP \<and> getName f = getName g'"
proof -
  from assms obtain p r sock where o: "ParsePrefix cidr = Some p" "Is4 (pfxAddr p)" "devName d = getName r"
    "fst (configure S sock (getName r) p mtu) = None"
    "log = [SysOpen cloneDevice (devFd d), SysIoctl (devFd d) TUNSETIFF (setFlags (IFF_TUN OR IFF_NO_PI) (setName name ifreqZero)),
        SysSocket sock] @ snd (configure S sock (getName r) p mtu) @
      [SysWriteFile (''/proc/sys/net/ipv4/conf/'' @ devName d @ ''/rp_filter'') (str_bytes ''2''), SysClose sock]"
    by (rule tun_calls)
  then obtain w bits where p: "p = \<lparr>pfxAddr = Addr4 w, pfxBits = bits\<rparr>" by (cases p) (auto simp: Is4_def split: Addr.splits)
  let ?t = "setFlags (IFF_TUN OR IFF_NO_PI) (setName name ifreqZero)"
  have t: "getFlags ?t = IFF_TUN OR IFF_NO_PI"
    "length name \<le> IFNAMSIZ \<and> CHR 0x00 \<notin> set name \<longrightarrow> getName ?t = name"
    using request_flags [of "setName name ifreqZero"] getName_setName by simp_all
  from configure_ok [OF o(4) [unfolded p]] obtain a m u g g' f where
    c: "snd (configure S sock (getName r) p mtu) =
      [SysIoctl sock SIOCSIFADDR a, SysIoctl sock SIOCSIFNETMASK m, SysIoctl sock SIOCSIFMTU u,
       SysIoctl sock SIOCGIFFLAGS g, SysIoctl sock SIOCSIFFLAGS f]"
      "\<forall>x \<in> {a, m, u, g}. getName x = devName d" "slice 20 24 a = put_be 4 w" "slice 20 24 m = prefixMask4 bits"
      "slice 16 20 u = put_le 4 (word_of_int mtu :: u32)"
      "ioctlPtr S sock SIOCGIFFLAGS g = Some g'" "getFlags f = getFlags g' OR IFF_UP" "getName f = getName g'"
    unfolding p o(3) by blast
  have log: "log = [SysOpen cloneDevice (devFd d), SysIoctl (devFd d) TUNSETIFF ?t, SysSocket sock,
      SysIoctl sock SIOCSIFADDR a, SysIoctl sock SIOCSIFNETMASK m, SysIoctl sock SIOCSIFMTU u,
      SysIoctl sock SIOCGIFFLAGS g, SysIoctl sock SIOCSIFFLAGS f,
      SysWriteFile (''/proc/sys/net/ipv4/conf/'' @ devName d @ ''/rp_filter'') (str_bytes ''2''), SysClose sock]"
    unfolding o(5) c(1) append_Cons append_Nil ..
  have mask: "\<forall>x. Contains \<lparr>pfxAddr = Addr4 w, pfxBits = bits\<rparr> (Addr4 x) \<longleftrightarrow>
      x AND get_be (slice 20 24 m) = w AND get_be (slice 20 24 m)"
    unfolding c(4) by (intro allI prefix_mask [OF o(1) [unfolded p]])
  show ?thesis
    by (intro exI conjI) (rule o(1) [unfolded p] log t c(2,3) mask c(5-8))+
qed

lemma tun_address:
  assumes "tun_Open S name cidr mtu = (Inr d, log)" "ParsePrefix cidr = Some \<lparr>pfxAddr = Addr4 w, pfxBits = bits\<rparr>"
  shows "\<exists>sock a. SysIoctl sock SIOCSIFADDR a \<in> set log \<and> getName a = devName d \<and> slice 20 24 a = put_be 4 w"
  using tun_network [OF assms(1)] assms(2) by auto

definition sample_sys :: sys where
  "sample_sys = \<lparr>sysOpen = Some 3, sysSocket = Some 4, sysIoctl = (\<lambda>_ _ r. (0, r))\<rparr>"

section \<open>Properties\<close>

text \<open>
  C32: an opened TUN device has the configured network and is up.  A successful \<open>Open\<close> makes exactly these
  calls: it asks for a TUN device without packet information under the given name, and configures the one it got.  The requests before the last carry the device's name; they set the address of the configured prefix in
  network byte order, a netmask under which an address shares the device's network exactly when the prefix contains it,
  and the MTU.  The last request sets the flags the kernel had just reported with \<^verbatim>\<open>IFF_UP\<close> added, for the name the kernel
  left in the same buffer; after it only \<^verbatim>\<open>rp_filter\<close> is written and the control socket closed.
\<close>
theorem tun_Open_configures:
  assumes "tun_Open S name cidr mtu = (Inr d, log)"
  shows "\<exists>w bits t sock a m u g g' f. ParsePrefix cidr = Some \<lparr>pfxAddr = Addr4 w, pfxBits = bits\<rparr> \<and>
    log = [SysOpen cloneDevice (devFd d), SysIoctl (devFd d) TUNSETIFF t, SysSocket sock,
      SysIoctl sock SIOCSIFADDR a, SysIoctl sock SIOCSIFNETMASK m, SysIoctl sock SIOCSIFMTU u,
      SysIoctl sock SIOCGIFFLAGS g, SysIoctl sock SIOCSIFFLAGS f,
      SysWriteFile (''/proc/sys/net/ipv4/conf/'' @ devName d @ ''/rp_filter'') (str_bytes ''2''), SysClose sock] \<and>
    getFlags t = IFF_TUN OR IFF_NO_PI \<and>
    (length name \<le> IFNAMSIZ \<and> CHR 0x00 \<notin> set name \<longrightarrow> getName t = name) \<and> (\<forall>x \<in> {a, m, u, g}. getName x = devName d) \<and>
    slice 20 24 a = put_be 4 w \<and>
    (\<forall>x. Contains \<lparr>pfxAddr = Addr4 w, pfxBits = bits\<rparr> (Addr4 x) \<longleftrightarrow>
      x AND get_be (slice 20 24 m) = w AND get_be (slice 20 24 m)) \<and>
    slice 16 20 u = put_le 4 (word_of_int mtu :: u32) \<and>
    ioctlPtr S sock SIOCGIFFLAGS g = Some g' \<and> getFlags f = getFlags g' OR IFF_UP \<and> getName f = getName g'"
  using tun_network [OF assms] .

theorem tun_Open_configures_witness:
  "\<exists>d log w bits sock f. tun_Open sample_sys ''neth0'' ''10.0.0.1/24'' 1300 = (Inr d, log) \<and>
    ParsePrefix ''10.0.0.1/24'' = Some \<lparr>pfxAddr = Addr4 w, pfxBits = bits\<rparr> \<and>
    SysIoctl sock SIOCSIFFLAGS f \<in> set log \<and> (\<exists>flags. getFlags f = flags OR IFF_UP)"
proof -
  have "is_ok (fst (tun_Open sample_sys ''neth0'' ''10.0.0.1/24'' 1300))" by code_simp
  then obtain d log where d: "tun_Open sample_sys ''neth0'' ''10.0.0.1/24'' 1300 = (Inr d, log)"
    by (cases "tun_Open sample_sys ''neth0'' ''10.0.0.1/24'' 1300"; cases "fst (tun_Open sample_sys ''neth0'' ''10.0.0.1/24'' 1300)")
      (auto simp: is_ok_def)
  from tun_Open_configures [OF d] d show ?thesis by (elim exE conjE) (intro exI conjI, auto)
qed

end
