(* ===== verification/Neth_Udp.thy ===== *)
theory Neth_Udp
  imports Neth_Netip
begin

text \<open>
  The UDP socket of \<^verbatim>\<open>udp/conn.go\<close>: binding it with \<^verbatim>\<open>SO_REUSEPORT\<close> set by a control callback, and reading
  into a caller's buffer.  Resolving, creating, setting an option and binding are parameters; which of
  them happen and in which order is the model's, and every call that reaches the kernel is logged.
\<close>

section \<open>Text\<close>

text \<open>The verb \<^verbatim>\<open>%d\<close>.\<close>

definition fmt_d :: "int \<Rightarrow> string" where
  "fmt_d n = (if n < 0 then ''-'' @ itoa (nat (- n)) else itoa (nat n))"

section \<open>The socket\<close>

definition SOL_SOCKET :: int where "SOL_SOCKET = 1"
definition SO_REUSEPORT :: int where "SO_REUSEPORT = 15"

text \<open>
  \<open>usControl\<close> is whether \<^verbatim>\<open>RawConn.Control\<close> runs its callback; \<open>usBind\<close> gives the address the socket got,
  with the port the kernel chose if none was asked for.
\<close>

record udp_sys =
  usResolve :: "string \<Rightarrow> UDPAddr option"
  usSocket :: bool
  usControl :: bool
  usSetsockopt :: "int \<Rightarrow> int \<Rightarrow> int \<Rightarrow> bool"
  usBind :: "UDPAddr \<Rightarrow> UDPAddr option"

datatype udp_call = UdpSocket | UdpSetsockopt int int int | UdpBind UDPAddr | UdpDiscard

record Conn =
  connLocal :: UDPAddr
  connClosed :: bool

definition setReusePort :: "udp_sys \<Rightarrow> bool \<times> udp_call list" where
  "setReusePort U =
     (if usControl U then (usSetsockopt U SOL_SOCKET SO_REUSEPORT 1, [UdpSetsockopt SOL_SOCKET SO_REUSEPORT 1])
      else (False, []))"

text \<open>
  \<^verbatim>\<open>ListenConfig.ListenPacket\<close>: resolve, create, run the control callback, bind.  A socket whose
  callback or bind fails is discarded.
\<close>

definition ListenPacket :: "udp_sys \<Rightarrow> (udp_sys \<Rightarrow> bool \<times> udp_call list) \<Rightarrow> string \<Rightarrow> UDPAddr option \<times> udp_call list" where
  "ListenPacket U control addr =
     (case usResolve U addr of
        None \<Rightarrow> (None, [])
      | Some a \<Rightarrow>
          if \<not> usSocket U then (None, [])
          else let (ok, calls) = control U in
            if \<not> ok then (None, UdpSocket # calls @ [UdpDiscard])
            else case usBind U a of
              None \<Rightarrow> (None, UdpSocket # calls @ [UdpBind a, UdpDiscard])
            | Some a' \<Rightarrow> (Some a', UdpSocket # calls @ [UdpBind a]))"

text \<open>The error carries the address that could not be listened on.\<close>

definition Listen :: "udp_sys \<Rightarrow> string \<Rightarrow> int \<Rightarrow> (string, Conn) res \<times> udp_call list" where
  "Listen U host port =
     (let addr = host @ '':'' @ fmt_d port in
      case ListenPacket U setReusePort addr of
        (None, calls) \<Rightarrow> (Inl addr, calls)
      | (Some a, calls) \<Rightarrow> (Inr \<lparr>connLocal = a, connClosed = False\<rparr>, calls))"

definition LocalAddr :: "Conn \<Rightarrow> UDPAddr" where
  "LocalAddr c = connLocal c"

text \<open>
  One read of a datagram into \<open>buf\<close>: the kernel cuts what does not fit.  The rest of the buffer keeps what
  earlier reads left there.  An empty datagram is a read of no bytes and no error.  Every operation on
  a closed socket fails.
\<close>

definition ReadFrom :: "Conn \<Rightarrow> (bytes \<times> UDPAddr) option \<Rightarrow> bytes \<Rightarrow> (nat \<times> UDPAddr \<times> bytes) option" where
  "ReadFrom c datagram buf =
     (if connClosed c then None
      else case datagram of
        None \<Rightarrow> None
      | Some (b, from) \<Rightarrow>
          let n = min (length b) (length buf) in Some (n, from, take n b @ drop n buf))"

text \<open>One datagram sent; \<open>sent\<close> is whether the kernel takes it.\<close>

definition WriteTo :: "Conn \<Rightarrow> (bytes \<Rightarrow> UDPAddr \<Rightarrow> bool) \<Rightarrow> bytes \<Rightarrow> UDPAddr \<Rightarrow> nat option" where
  "WriteTo c sent buf addr = (if connClosed c \<or> \<not> sent buf addr then None else Some (length buf))"

text \<open>The first component is whether the call succeeded.\<close>

definition Conn_Close :: "Conn \<Rightarrow> bool \<times> Conn" where
  "Conn_Close c = (if connClosed c then (False, c) else (True, c\<lparr>connClosed := True\<rparr>))"

section \<open>Lemmas\<close>

definition socks_open :: "udp_call list \<Rightarrow> int" where
  "socks_open calls = int (length (filter (\<lambda>c. c = UdpSocket) calls)) - int (length (filter (\<lambda>c. c = UdpDiscard) calls))"

lemma socks_open_simps [simp]:
  "socks_open [] = 0" "socks_open (UdpSocket # cs) = socks_open cs + 1" "socks_open (UdpDiscard # cs) = socks_open cs - 1"
  "socks_open (UdpSetsockopt l x v # cs) = socks_open cs" "socks_open (UdpBind a # cs) = socks_open cs"
  by (simp_all add: socks_open_def)

lemma socks_open_append: "socks_open (xs @ ys) = socks_open xs + socks_open ys"
  by (simp add: socks_open_def)

lemma Listen_balance:
  "socks_open (snd (Listen U host port)) = (if is_ok (fst (Listen U host port)) then 1 else 0)"
  by (auto simp: Listen_def ListenPacket_def setReusePort_def Let_def is_ok_def split: option.splits if_splits)

text \<open>
  A bound socket shares its port: the option is set, successfully, before the bind and on the same
  socket, and nothing else happens to it.
\<close>

lemma Listen_reuses_port:
  assumes "Listen U host port = (Inr c, calls)"
  shows "\<exists>a. calls = [UdpSocket, UdpSetsockopt SOL_SOCKET SO_REUSEPORT 1, UdpBind a] \<and>
    usSetsockopt U SOL_SOCKET SO_REUSEPORT 1 \<and> usResolve U (host @ '':'' @ fmt_d port) = Some a \<and> usBind U a = Some (LocalAddr c) \<and>
    \<not> connClosed c"
  using assms by (auto simp: Listen_def ListenPacket_def setReusePort_def LocalAddr_def Let_def split: option.splits if_splits)

lemma closed_conn_fails:
  "ReadFrom (snd (Conn_Close c)) datagram buf = None" "WriteTo (snd (Conn_Close c)) sent b addr = None"
  "\<not> fst (Conn_Close (snd (Conn_Close c)))"
  by (simp_all add: Conn_Close_def ReadFrom_def WriteTo_def)

end
