(* ===== verification/Neth_Loops.thy ===== *)
theory Neth_Loops
  imports Neth_Interface Neth_Tun Neth_Udp
begin

text \<open>
  The five goroutines \<open>Run\<close> of \<^verbatim>\<open>interface.go\<close> starts: the two read loops, each with its one buffer, and
  the three ticker loops (\<open>HandshakeManager.Run\<close>, \<open>LightHouse.Run\<close>, \<open>Firewall.RunExpiry\<close>).  A loop is a
  function from what its waits return, turn by turn, to the steps it takes and whether it is still
  running; the steps themselves are those of \<open>iface_step\<close>.
\<close>

section \<open>Read loops\<close>

definition tunReadBufSize :: nat where "tunReadBufSize = 65535"
definition udpReadBufSize :: nat where "udpReadBufSize = 65535"

text \<open>
  One turn of a read loop: whether the context was already cancelled, whether \<open>Run\<close> has closed the device or
  the socket by the time of the read, what the system call returned,
  whether the context is cancelled when a read error is looked at, and what the handling of a packet
  gets from its surroundings.
\<close>

record 'a turn =
  tCancelled :: bool
  tClosed :: bool
  tRead :: "'a option"
  tCancelledAfter :: bool
  tInput :: iface_input

primrec readFromTUN_loop :: "Device \<Rightarrow> bytes \<Rightarrow> bytes turn list \<Rightarrow> iface_op list \<times> bool" where
  "readFromTUN_loop dev buf [] = ([], True)"
| "readFromTUN_loop dev buf (t # ts) =
     (if tCancelled t then ([], False)
      else case Read (if tClosed t then snd (Device_Close dev) else dev) (tRead t) buf of
        None \<Rightarrow> if tCancelledAfter t then ([], False) else readFromTUN_loop dev buf ts
      | Some (n, buf) \<Rightarrow>
          let pkt = take n buf; (ops, running) = readFromTUN_loop dev buf ts in (FromTun (tInput t) pkt # ops, running))"

definition readFromTUN :: "Device \<Rightarrow> bytes turn list \<Rightarrow> iface_op list \<times> bool" where
  "readFromTUN dev ts = readFromTUN_loop dev (replicate tunReadBufSize 0) ts"

primrec readFromUDP_loop :: "Conn \<Rightarrow> bytes \<Rightarrow> (bytes \<times> UDPAddr) turn list \<Rightarrow> iface_op list \<times> bool" where
  "readFromUDP_loop conn buf [] = ([], True)"
| "readFromUDP_loop conn buf (t # ts) =
     (if tCancelled t then ([], False)
      else case ReadFrom (if tClosed t then snd (Conn_Close conn) else conn) (tRead t) buf of
        None \<Rightarrow> if tCancelledAfter t then ([], False) else readFromUDP_loop conn buf ts
      | Some (n, from, buf) \<Rightarrow>
          let pkt = take n buf; (ops, running) = readFromUDP_loop conn buf ts in (FromUdp (tInput t) pkt from # ops, running))"

definition readFromUDP :: "Conn \<Rightarrow> (bytes \<times> UDPAddr) turn list \<Rightarrow> iface_op list \<times> bool" where
  "readFromUDP conn us = readFromUDP_loop conn (replicate udpReadBufSize 0) us"

section \<open>Ticker loops\<close>

text \<open>What the \<^verbatim>\<open>select\<close> of a ticker loop received: the cancellation, or a tick with what its work needs.\<close>

datatype 'a select = Done | Tick 'a

primrec ticks :: "('a \<Rightarrow> iface_op) \<Rightarrow> 'a select list \<Rightarrow> iface_op list \<times> bool" where
  "ticks work [] = ([], True)"
| "ticks work (s # ss) =
     (case s of Done \<Rightarrow> ([], False) | Tick a \<Rightarrow> let (ops, running) = ticks work ss in (work a # ops, running))"

text \<open>\<^verbatim>\<open>time.NewTicker\<close> panics on a period that is not positive: None.\<close>

definition ticker_loop :: "int \<Rightarrow> ('a \<Rightarrow> iface_op) \<Rightarrow> 'a select list \<Rightarrow> (iface_op list \<times> bool) option" where
  "ticker_loop period work ss = (if period \<le> 0 then None else Some (ticks work ss))"

definition HandshakeManager_Run :: "(int \<times> Addr list) select list \<Rightarrow> (iface_op list \<times> bool) option" where
  "HandshakeManager_Run ss = ticker_loop (100 * millisecond) (\<lambda>(now, order). RetryTick now order) ss"

definition LightHouse_Run :: "int \<Rightarrow> unit select list \<Rightarrow> (iface_op list \<times> bool) option" where
  "LightHouse_Run interval ss =
     map_option (\<lambda>(ops, running). (AdvertiseTick # ops, running)) (ticker_loop interval (\<lambda>_. AdvertiseTick) ss)"

definition RunExpiry :: "int \<Rightarrow> int select list \<Rightarrow> (iface_op list \<times> bool) option" where
  "RunExpiry interval ss = ticker_loop interval ExpiryTick ss"

section \<open>All loops together\<close>

text \<open>What the five goroutines receive.\<close>

record waits =
  wTun :: "bytes turn list"
  wUdp :: "(bytes \<times> UDPAddr) turn list"
  wRetry :: "(int \<times> Addr list) select list"
  wAdvertise :: "unit select list"
  wExpiry :: "int select list"

primrec op_loop :: "iface_op \<Rightarrow> nat" where
  "op_loop (RetryTick now order) = 0"
| "op_loop AdvertiseTick = 1"
| "op_loop (ExpiryTick now) = 2"
| "op_loop (FromTun i pkt) = 3"
| "op_loop (FromUdp i pkt from) = 4"

text \<open>
  The steps of \<open>Run\<close> on its device and its socket, with the advertisement period of the configuration.  Here a handler is one
  step, and the scheduler takes the steps of the loops in any order that keeps the order within each loop; interleavings inside
  a handler are the subject of \<open>Neth_Threads\<close> and \<open>Neth_Races\<close>.
\<close>

definition Run_interleaves :: "Device \<Rightarrow> Conn \<Rightarrow> int \<Rightarrow> waits \<Rightarrow> iface_op list \<Rightarrow> bool" where
  "Run_interleaves dev conn n w ops \<longleftrightarrow>
     map_option fst (HandshakeManager_Run (wRetry w)) = Some (filter (\<lambda>op. op_loop op = 0) ops) \<and>
     map_option fst (LightHouse_Run (advertiseInterval n) (wAdvertise w)) = Some (filter (\<lambda>op. op_loop op = 1) ops) \<and>
     map_option fst (RunExpiry (30 * second) (wExpiry w)) = Some (filter (\<lambda>op. op_loop op = 2) ops) \<and>
     fst (readFromTUN dev (wTun w)) = filter (\<lambda>op. op_loop op = 3) ops \<and>
     fst (readFromUDP conn (wUdp w)) = filter (\<lambda>op. op_loop op = 4) ops"

section \<open>Lemmas\<close>

text \<open>What the loops do without a buffer: a turn goes on unless it sees the cancellation.\<close>

definition goes_on :: "('a turn \<Rightarrow> bool) \<Rightarrow> 'a turn \<Rightarrow> bool" where
  "goes_on got t \<longleftrightarrow> \<not> tCancelled t \<and> (got t \<or> \<not> tCancelledAfter t)"

definition got_packet :: "bytes turn \<Rightarrow> bool" where
  "got_packet t \<longleftrightarrow> \<not> tClosed t \<and> tRead t \<noteq> None \<and> tRead t \<noteq> Some []"

definition got_datagram :: "(bytes \<times> UDPAddr) turn \<Rightarrow> bool" where
  "got_datagram t \<longleftrightarrow> \<not> tClosed t \<and> tRead t \<noteq> None"

definition tun_turns :: "bytes turn list \<Rightarrow> iface_op list" where
  "tun_turns ts = map (\<lambda>t. FromTun (tInput t) (take tunReadBufSize (the (tRead t))))
     (filter got_packet (takeWhile (goes_on got_packet) ts))"

definition udp_turns :: "(bytes \<times> UDPAddr) turn list \<Rightarrow> iface_op list" where
  "udp_turns us = map (\<lambda>t. FromUdp (tInput t) (take udpReadBufSize (fst (the (tRead t)))) (snd (the (tRead t))))
     (filter got_datagram (takeWhile (goes_on got_datagram) us))"

lemma tun_loop_eq:
  "\<not> devClosed dev \<Longrightarrow> length buf = tunReadBufSize \<Longrightarrow> readFromTUN_loop dev buf ts = (tun_turns ts, \<forall>t \<in> set ts. goes_on got_packet t)"
proof (induction ts arbitrary: buf)
  case (Cons t ts)
  have "buf \<noteq> []" using Cons.prems by (auto simp: tunReadBufSize_def)
  then show ?case
    using Cons by (cases "tRead t")
      (auto simp: Device_Close_def Read_def Let_def tun_turns_def goes_on_def got_packet_def min_def tunReadBufSize_def)
qed (simp add: tun_turns_def)

lemma udp_loop_eq:
  "\<not> connClosed conn \<Longrightarrow> length buf = udpReadBufSize \<Longrightarrow> readFromUDP_loop conn buf us = (udp_turns us, \<forall>u \<in> set us. goes_on got_datagram u)"
  by (induction us arbitrary: buf)
    (auto simp: Conn_Close_def ReadFrom_def Let_def udp_turns_def goes_on_def got_datagram_def min_def udpReadBufSize_def split: option.split)

lemma ticks_eq: "ticks work ss = (map (\<lambda>s. case s of Tick a \<Rightarrow> work a) (takeWhile (\<lambda>s. s \<noteq> Done) ss), Done \<notin> set ss)"
  by (induction ss) (auto split: select.split)

lemma takeWhile_stop: "\<not> P x \<Longrightarrow> takeWhile P (xs @ x # ys) = takeWhile P xs"
  by (auto simp: takeWhile_append takeWhile_eq_all_conv [THEN iffD2])

lemma advertiseInterval_pos: "0 < advertiseInterval n"
  by (simp add: advertiseInterval_def second_def Let_def)

lemma read_loops_eq:
  "\<not> devClosed dev \<Longrightarrow> readFromTUN dev ts = (tun_turns ts, \<forall>t \<in> set ts. goes_on got_packet t)"
  "\<not> connClosed conn \<Longrightarrow> readFromUDP conn us = (udp_turns us, \<forall>u \<in> set us. goes_on got_datagram u)"
  by (simp_all add: readFromTUN_def readFromUDP_def tun_loop_eq udp_loop_eq)

lemmas loop_defs = HandshakeManager_Run_def LightHouse_Run_def RunExpiry_def ticker_loop_def

text \<open>Every step belongs to one loop, so five lists of steps always have a common schedule.\<close>

lemma op_loop_works:
  "\<forall>op \<in> set (fst (readFromTUN_loop dev b ts)). op_loop op = 3" "\<forall>op \<in> set (fst (readFromUDP_loop conn b us)). op_loop op = 4"
  "\<forall>op \<in> set (fst (ticks (\<lambda>(now, order). RetryTick now order) hs)). op_loop op = 0"
  "\<forall>op \<in> set (fst (ticks (\<lambda>_. AdvertiseTick) ls)). op_loop op = 1" "\<forall>op \<in> set (fst (ticks ExpiryTick es)). op_loop op = 2"
proof -
  show "\<forall>op \<in> set (fst (readFromTUN_loop dev b ts)). op_loop op = 3"
    by (induction ts arbitrary: b) (auto simp: Let_def case_prod_unfold split: option.split)
  show "\<forall>op \<in> set (fst (readFromUDP_loop conn b us)). op_loop op = 4"
    by (induction us arbitrary: b) (auto simp: Let_def case_prod_unfold split: option.split)
qed (auto simp: ticks_eq dest!: set_takeWhileD split: select.splits)

lemma filter_all: "\<forall>x \<in> set xs. P x \<Longrightarrow> filter P xs = xs" "\<forall>x \<in> set xs. \<not> P x \<Longrightarrow> filter P xs = []"
  by (simp_all add: filter_id_conv filter_empty_conv)

lemma Run_schedules: "\<exists>ops. Run_interleaves dev conn n w ops"
proof -
  let ?retry = "fst (ticks (\<lambda>(now, order). RetryTick now order) (wRetry w))"
  let ?adv = "AdvertiseTick # fst (ticks (\<lambda>_. AdvertiseTick) (wAdvertise w))" and ?exp = "fst (ticks ExpiryTick (wExpiry w))"
  let ?tun = "fst (readFromTUN dev (wTun w))" and ?udp = "fst (readFromUDP conn (wUdp w))"
  note kinds = op_loop_works(1) [of dev _ "wTun w"] op_loop_works(2) [of conn _ "wUdp w"] op_loop_works(3) [of "wRetry w"]
    op_loop_works(4) [of "wAdvertise w"] op_loop_works(5) [of "wExpiry w"]
  have "Run_interleaves dev conn n w (?retry @ ?adv @ ?exp @ ?tun @ ?udp)"
    using advertiseInterval_pos [of n] kinds
    by (simp add: Run_interleaves_def loop_defs readFromTUN_def readFromUDP_def filter_all millisecond_def second_def
        case_prod_unfold)
  then show ?thesis ..
qed

text \<open>Every loop receives what \<open>w0\<close> says, then sees the cancellation, then would receive more.\<close>

definition cancelled_after :: "waits \<Rightarrow> waits \<Rightarrow> bool" where
  "cancelled_after w0 w \<longleftrightarrow> (\<exists>t ts. wTun w = wTun w0 @ t # ts \<and> \<not> goes_on got_packet t) \<and>
     (\<exists>u us. wUdp w = wUdp w0 @ u # us \<and> \<not> goes_on got_datagram u) \<and> (\<exists>hs. wRetry w = wRetry w0 @ Done # hs) \<and>
     (\<exists>ls. wAdvertise w = wAdvertise w0 @ Done # ls) \<and> (\<exists>es. wExpiry w = wExpiry w0 @ Done # es)"

section \<open>Properties\<close>

text \<open>
  C23: the read loops hand over what was read, and only that.  Each loop has one buffer for its life, which
  keeps the bytes of earlier packets; still every packet handled is exactly the bytes of its own read, up to
  the size of the buffer.  Failed reads are skipped until the context is cancelled, and an empty packet
  counts as a failed read on the device but not on the socket.
\<close>
theorem read_loops_hand_over_reads:
  assumes "\<not> devClosed dev" "\<not> connClosed conn"
  shows "readFromTUN dev ts = (tun_turns ts, \<forall>t \<in> set ts. goes_on got_packet t) \<and>
    readFromUDP conn us = (udp_turns us, \<forall>u \<in> set us. goes_on got_datagram u)"
  using assms by (simp add: read_loops_eq)

text \<open>A long packet, a failed read, and a short packet, which is not followed by what the long one left in the buffer.\<close>

theorem read_loops_hand_over_reads_witness:
  "\<exists>i. fst (readFromTUN \<lparr>devFd = 3, devName = ''neth0'', devClosed = False\<rparr>
     (map (\<lambda>b. \<lparr>tCancelled = False, tClosed = False, tRead = b, tCancelledAfter = False, tInput = i\<rparr>) [Some [1, 2, 3], None, Some [4]])) =
     [FromTun i [1, 2, 3], FromTun i [4]]"
proof -
  let ?d = "\<lparr>devFd = 3, devName = ''neth0'', devClosed = False\<rparr>" and ?c = "\<lparr>connLocal = \<lparr>udpIP = [], udpPort = 1\<rparr>, connClosed = False\<rparr>"
  have "\<not> devClosed ?d" "\<not> connClosed ?c" by simp_all
  from read_loops_hand_over_reads [OF this] show ?thesis
    by (simp add: tun_turns_def goes_on_def got_packet_def tunReadBufSize_def)
qed

text \<open>
  C22: cancelling the context stops everything.  Whatever advertisement period is configured, no ticker
  panics and the five loops have a schedule; once each has seen the cancellation (a read loop at the top of
  a turn or after a failed read, as every read fails once the device and the socket are closed; a ticker loop
  in its select) all five have returned, and nothing they would receive later becomes a step.
\<close>
theorem Run_stops_on_cancel:
  assumes "\<not> devClosed dev" "\<not> connClosed conn" "cancelled_after w0 w"
  shows "(\<exists>ops. Run_interleaves dev conn n w ops) \<and>
    (\<forall>ops. Run_interleaves dev conn n w ops \<longleftrightarrow> Run_interleaves dev conn n w0 ops) \<and>
    \<not> snd (readFromTUN dev (wTun w)) \<and> \<not> snd (readFromUDP conn (wUdp w)) \<and>
    map_option snd (HandshakeManager_Run (wRetry w)) = Some False \<and>
    map_option snd (LightHouse_Run (advertiseInterval n) (wAdvertise w)) = Some False \<and>
    map_option snd (RunExpiry (30 * second) (wExpiry w)) = Some False"
proof -
  have t: "readFromTUN dev (wTun w) = (fst (readFromTUN dev (wTun w0)), False)"
    "readFromUDP conn (wUdp w) = (fst (readFromUDP conn (wUdp w0)), False)"
    using assms by (auto simp: cancelled_after_def read_loops_eq tun_turns_def udp_turns_def takeWhile_stop)
  have tick: "ticks f (xs @ Done # ys) = (fst (ticks f xs), False)" for f :: "'b \<Rightarrow> iface_op" and xs ys
    by (simp add: ticks_eq takeWhile_stop)
  have s: "ticks f (wRetry w) = (fst (ticks f (wRetry w0)), False)" "ticks g (wAdvertise w) = (fst (ticks g (wAdvertise w0)), False)"
    "ticks h (wExpiry w) = (fst (ticks h (wExpiry w0)), False)" for f g h
    using assms(3) by (auto simp: cancelled_after_def tick)
  have "\<not> advertiseInterval n \<le> 0" using advertiseInterval_pos [of n] by simp
  with Run_schedules [of dev conn n w] show ?thesis
    by (simp add: Run_interleaves_def loop_defs case_prod_unfold millisecond_def second_def s t)
qed

text \<open>The sample read fails because the device is closed.\<close>

theorem Run_stops_on_cancel_witness:
  "\<exists>i. let t = \<lparr>tCancelled = False, tClosed = True, tRead = Some [1], tCancelledAfter = True, tInput = i\<rparr> in
    \<not> snd (readFromTUN \<lparr>devFd = 3, devName = ''neth0'', devClosed = False\<rparr> [t, t]) \<and>
    map_option snd (LightHouse_Run (advertiseInterval 60) [Tick (), Done]) = Some False"
proof -
  let ?i = "\<lparr>inBase = \<lparr>inNow = 0, inStamp = 0, inRand = None, inEntropy = [], inSendOk = (\<lambda>_ _. True)\<rparr>, inOrder = []\<rparr>"
  let ?d = "\<lparr>devFd = 3, devName = ''neth0'', devClosed = False\<rparr>" and ?c = "\<lparr>connLocal = \<lparr>udpIP = [], udpPort = 1\<rparr>, connClosed = False\<rparr>"
  let ?t = "\<lparr>tCancelled = False, tClosed = True, tRead = Some [1], tCancelledAfter = True, tInput = ?i\<rparr>"
  let ?w = "\<lparr>wTun = [?t, ?t], wUdp = [\<lparr>tCancelled = True, tClosed = False, tRead = None, tCancelledAfter = True, tInput = ?i\<rparr>],
    wRetry = [Done], wAdvertise = [Tick (), Done], wExpiry = [Done, Tick 1]\<rparr>"
  let ?before = "\<lparr>wTun = [], wUdp = [], wRetry = [], wAdvertise = [Tick ()], wExpiry = []\<rparr>"
  have "\<not> devClosed ?d" "\<not> connClosed ?c" "cancelled_after ?before ?w"
    by (simp_all add: cancelled_after_def goes_on_def got_packet_def)
  from Run_stops_on_cancel [OF this, of 60] show ?thesis
    by (intro exI [of _ ?i]) simp
qed

end
