(* ===== verification/Neth_Cli.thy ===== *)
theory Neth_Cli
  imports Neth_Text
begin

text \<open>
  What the two commands use of Go's \<^verbatim>\<open>flag\<close>, \<^verbatim>\<open>path/filepath\<close>, \<^verbatim>\<open>strings\<close> and \<^verbatim>\<open>encoding/hex\<close>: parsing flags,
  joining and cleaning paths, splitting at a separator, and hexadecimal text.
\<close>

section \<open>Text\<close>

text \<open>\<^verbatim>\<open>strings.Split\<close> at a one-byte separator, and \<^verbatim>\<open>strings.Join\<close>.\<close>

primrec Split :: "char \<Rightarrow> string \<Rightarrow> string list" where
  "Split c [] = [[]]"
| "Split c (x # xs) = (if x = c then [] # Split c xs else (x # hd (Split c xs)) # tl (Split c xs))"

fun Join_sep :: "string \<Rightarrow> string list \<Rightarrow> string" where
  "Join_sep sep [] = []"
| "Join_sep sep [x] = x"
| "Join_sep sep (x # y # ys) = x @ sep @ Join_sep sep (y # ys)"

lemma Split_nonempty [simp]: "Split c s \<noteq> []"
  by (induction s) simp_all

lemma Split_append: "Split c (s @ c # t) = Split c s @ Split c t"
  by (induction s) simp_all

lemma Split_plain: "c \<notin> set s \<Longrightarrow> Split c s = [s]"
  by (induction s) auto

lemma Split_extend: "c \<notin> set t \<Longrightarrow> Split c (s @ t) = butlast (Split c s) @ [last (Split c s) @ t]"
proof (induction s)
  case (Cons x s)
  then show ?case by (cases "Split c s") auto
qed (simp add: Split_plain)

lemma Join_sep_snoc: "xs \<noteq> [] \<Longrightarrow> Join_sep sep (xs @ [x]) = Join_sep sep xs @ sep @ x"
  by (induction sep xs rule: Join_sep.induct) simp_all

definition hex_digit :: "nat \<Rightarrow> char" where
  "hex_digit n = (if n < 10 then digit_char n else char_of (87 + n))"

definition hex_EncodeToString :: "bytes \<Rightarrow> string" where
  "hex_EncodeToString b = concat (map (\<lambda>x. [hex_digit (unat x div 16), hex_digit (unat x mod 16)]) b)"

section \<open>Flags\<close>

datatype flag_kind = StringFlag | BoolFlag | DurationFlag

datatype flag_error = BadFlagSyntax string | FlagNotDefined string | ErrHelp | FlagNeedsArgument string | InvalidValue string string

definition ParseBool :: "string \<Rightarrow> bool option" where
  "ParseBool s =
     (if s \<in> set [''1'', ''t'', ''T'', ''true'', ''TRUE'', ''True''] then Some True
      else if s \<in> set [''0'', ''f'', ''F'', ''false'', ''FALSE'', ''False''] then Some False
      else None)"

text \<open>
  \<open>dur\<close> is \<^verbatim>\<open>time.ParseDuration\<close>, whose fractions go through floating point; it is an argument.  The result
  of parsing is the text last given for each flag, and the arguments left over.
\<close>

definition settable :: "(string \<Rightarrow> int option) \<Rightarrow> flag_kind \<Rightarrow> string \<Rightarrow> bool" where
  "settable dur kind v =
     (case kind of StringFlag \<Rightarrow> True | BoolFlag \<Rightarrow> ParseBool v \<noteq> None | DurationFlag \<Rightarrow> dur v \<noteq> None)"

fun parseFlags :: "(string \<Rightarrow> int option) \<Rightarrow> (string \<rightharpoonup> flag_kind) \<Rightarrow> string list \<Rightarrow> (string \<rightharpoonup> string)
    \<Rightarrow> (flag_error, (string \<rightharpoonup> string) \<times> string list) res" where
  "parseFlags dur formal [] vals = Inr (vals, [])"
| "parseFlags dur formal (s # args) vals =
     (if length s < 2 \<or> hd s \<noteq> CHR ''-'' then Inr (vals, s # args)
      else if s = ''--'' then Inr (vals, args)
      else
        let text = (if s ! 1 = CHR ''-'' then drop 2 s else drop 1 s) in
        if text = [] \<or> hd text = CHR ''-'' \<or> hd text = CHR ''='' then Inl (BadFlagSyntax s)
        else
          let name = hd text # takeWhile (\<lambda>c. c \<noteq> CHR ''='') (tl text);
              hasValue = CHR ''='' \<in> set (tl text);
              value = drop (length name + 1) text
          in case formal name of
               None \<Rightarrow> Inl (if name = ''help'' \<or> name = ''h'' then ErrHelp else FlagNotDefined name)
             | Some kind \<Rightarrow>
                 if kind = BoolFlag \<or> hasValue then
                   let v = (if hasValue then value else ''true'') in
                   if settable dur kind v then parseFlags dur formal args (vals(name \<mapsto> v)) else Inl (InvalidValue v name)
                 else case args of
                   [] \<Rightarrow> Inl (FlagNeedsArgument name)
                 | v # args' \<Rightarrow>
                     if settable dur kind v then parseFlags dur formal args' (vals(name \<mapsto> v)) else Inl (InvalidValue v name))"

definition str_flag :: "(string \<rightharpoonup> string) \<Rightarrow> string \<Rightarrow> string \<Rightarrow> string" where
  "str_flag vals name d = (case vals name of None \<Rightarrow> d | Some v \<Rightarrow> v)"

definition bool_flag :: "(string \<rightharpoonup> string) \<Rightarrow> string \<Rightarrow> bool \<Rightarrow> bool" where
  "bool_flag vals name d = (case vals name of None \<Rightarrow> d | Some v \<Rightarrow> ParseBool v = Some True)"

definition dur_flag :: "(string \<Rightarrow> int option) \<Rightarrow> (string \<rightharpoonup> string) \<Rightarrow> string \<Rightarrow> int \<Rightarrow> int" where
  "dur_flag dur vals name d = (case vals name of None \<Rightarrow> d | Some v \<Rightarrow> (case dur v of None \<Rightarrow> d | Some n \<Rightarrow> n))"

text \<open>A flag that takes a value consumes it whatever it looks like, even a text that begins with a dash.\<close>

definition flag_name :: "string \<Rightarrow> bool" where
  "flag_name n \<longleftrightarrow> n \<noteq> [] \<and> hd n \<noteq> CHR ''-'' \<and> CHR ''='' \<notin> set n"

lemma parseFlags_pair [simp]:
  assumes "flag_name n" "formal n = Some kind" "kind \<noteq> BoolFlag" "settable dur kind v"
  shows "parseFlags dur formal ((CHR ''-'' # CHR ''-'' # n) # v # args) vals = parseFlags dur formal args (vals(n \<mapsto> v))"
proof -
  from assms(1) obtain c n' where n: "n = c # n'" "c \<noteq> CHR ''-''" "c \<noteq> CHR ''=''" "CHR ''='' \<notin> set n'"
    by (cases n) (auto simp: flag_name_def)
  then have t: "takeWhile (\<lambda>c. c \<noteq> CHR ''='') n' = n'" by (auto simp: takeWhile_eq_all_conv)
  from n assms(2-4) show ?thesis by (simp add: Let_def t)
qed

section \<open>Paths\<close>

definition clean_step :: "bool \<Rightarrow> string list \<Rightarrow> string \<Rightarrow> string list" where
  "clean_step rooted out c =
     (if c = [] \<or> c = ''.'' then out
      else if c = ''..'' then
        (if out \<noteq> [] \<and> last out \<noteq> ''..'' then butlast out else if rooted then out else out @ [''..''])
      else out @ [c])"

definition Clean :: "string \<Rightarrow> string" where
  "Clean path =
     (if path = [] then ''.''
      else
        let rooted = hd path = CHR ''/''; out = foldl (clean_step rooted) [] (Split (CHR ''/'') path) in
        if rooted then ''/'' @ Join_sep ''/'' out
        else if out = [] then ''.''
        else Join_sep ''/'' out)"

definition Join :: "string \<Rightarrow> string \<Rightarrow> string" where
  "Join dir file =
     (if dir \<noteq> [] then Clean (dir @ ''/'' @ file) else if file \<noteq> [] then Clean file else [])"

text \<open>A cleaned path keeps a proper file name at its end, so files of different kinds stay apart.\<close>

lemma Clean_suffix:
  assumes "CHR ''/'' \<notin> set ext" "length ext > 2"
  shows "\<exists>base. Clean (path @ ext) = base @ ext"
proof -
  let ?cs = "Split (CHR ''/'') (path @ ext)" and ?r = "hd (path @ ext) = CHR ''/''"
  let ?l = "last (Split (CHR ''/'') path) @ ext"
  have "?cs = butlast (Split (CHR ''/'') path) @ [?l]" using Split_extend [OF assms(1)] .
  then have f: "foldl (clean_step ?r) [] ?cs = clean_step ?r (foldl (clean_step ?r) [] (butlast (Split (CHR ''/'') path))) ?l"
    by simp
  have "clean_step r out l = out @ [l]" if "length l > 2" for r out l
    using that by (auto simp: clean_step_def)
  from this [of ?l ?r] f obtain out where out: "foldl (clean_step ?r) [] ?cs = out @ [?l]" using assms(2) by simp
  have "\<exists>base. Join_sep ''/'' (out @ [?l]) = base @ ext"
    by (cases "out = []") (simp_all add: Join_sep_snoc)
  then obtain base where "Join_sep ''/'' (out @ [?l]) = base @ ext" ..
  moreover have "path @ ext \<noteq> []" using assms(2) by auto
  ultimately show ?thesis unfolding Clean_def Let_def out by (auto intro: exI [of _ "CHR ''/'' # base"])
qed

lemma Join_suffix:
  assumes "CHR ''/'' \<notin> set ext" "length ext > 2"
  shows "\<exists>base. Join dir (name @ ext) = base @ ext"
  using Clean_suffix [OF assms, of name] Clean_suffix [OF assms, of "dir @ ''/'' @ name"] assms(2)
  by (auto simp: Join_def)

lemma Join_crt_key: "Join dir (name @ ''.crt'') \<noteq> Join dir' (name' @ ''.key'')"
  using Join_suffix [of "''.crt''" dir name] Join_suffix [of "''.key''" dir' name']
  by (auto simp: append_eq_append_conv2 append_eq_Cons_conv Cons_eq_append_conv)

end
