(* ===== verification/Neth_Daemon.thy ===== *)
theory Neth_Daemon
  imports Neth_Loops Neth_Cli
begin

text \<open>
  Starting and stopping the daemon: \<open>NewInterface\<close> and the end of \<open>Run\<close> of \<^verbatim>\<open>interface.go\<close>, and \<open>run\<close> and
  \<open>buildLogger\<close> of \<^verbatim>\<open>cmd/nethd/main.go\<close>.  What the surroundings answer is one record; every resource that is
  opened or closed appears in a log.
\<close>

section \<open>Surroundings\<close>

text \<open>
  \<open>seUdp\<close> and \<open>seSys\<close> are the kernel's side of the socket and of the device; \<open>seDir\<close> lists a directory; the
  two clocks are the readings at the two certificate checks.
\<close>

record start_env =
  seX509 :: x509_lib
  seFile :: "string \<Rightarrow> bytes option"
  seNow :: int
  seNow2 :: int
  seUdp :: udp_sys
  seSys :: sys
  seResolve :: "string \<Rightarrow> UDPAddr option"
  seIfaces :: "netif list option"
  seDir :: "string \<Rightarrow> (string \<times> bool \<times> bytes option) list option"

datatype res_event = InUdp udp_call | ConnClosed | TunClosed int | InSys sys_call

datatype init_error =
    InitPKI pki_error
  | InitFirewall build_fw_error
  | InitUDP string
  | InitTun tun_error
  | InitLighthouse build_lh_error
  | InitPeerCerts string

section \<open>Construction\<close>

definition initialInterface :: "Config \<Rightarrow> PKI \<Rightarrow> Firewall \<Rightarrow> LightHouse \<Rightarrow> 'hs Interface" where
  "initialInterface cfg pki fw lh =
     (let p = (if punchyPunch (cfgPunchy cfg) \<or> punchyRespond (cfgPunchy cfg)
               then Some (NewPunchy (punchyPunch (cfgPunchy cfg)) (punchyRespond (cfgPunchy cfg))) else None);
          staticKey = \<lparr>dhPrivate = Curve25519Key pki, dhPublic = X25519PublicKey (NodeCert pki)\<rparr>
      in \<lparr>ifHosts = [], ifHostmap = NewHostMap, ifMgr = NewHandshakeManager (NodeCert pki) staticKey (CACerts pki),
          ifFw = fw, ifLh = (case p of None \<Rightarrow> lh | Some p \<Rightarrow> SetPunchy p lh), ifPunchy = p, ifPeerCerts = Map.empty\<rparr>)"

definition NewInterface :: "start_env \<Rightarrow> Config \<Rightarrow> (init_error, 'hs Interface \<times> Device \<times> Conn) res \<times> res_event list" where
  "NewInterface S cfg =
     (case LoadPKI (seX509 S) (seFile S) (seNow S) (seNow2 S) (cfgPKI cfg) of
        Inl e \<Rightarrow> (Inl (InitPKI e), [])
      | Inr pki \<Rightarrow>
     (case buildFirewall (cfgFirewall cfg) of
        Inl e \<Rightarrow> (Inl (InitFirewall e), [])
      | Inr fw \<Rightarrow>
     (case Listen (seUdp S) (listenHost (cfgListen cfg)) (listenPort (cfgListen cfg)) of
        (Inl addr, calls) \<Rightarrow> (Inl (InitUDP addr), map InUdp calls)
      | (Inr conn, udpCalls) \<Rightarrow>
     (case tun_Open (seSys S) (tunDev (cfgTUN cfg)) (Prefix_String (VpnIP (NodeCert pki))) (tunMTU (cfgTUN cfg)) of
        (Inl e, calls) \<Rightarrow> (Inl (InitTun e), map InUdp udpCalls @ map InSys calls @ [ConnClosed])
      | (Inr dev, calls) \<Rightarrow>
          let log = map InUdp udpCalls @ map InSys calls; closing = [ConnClosed, TunClosed (devFd dev)] in
          (case buildLightHouse (seResolve S) (seIfaces S) (udpPort (LocalAddr conn)) cfg of
             Inl e \<Rightarrow> (Inl (InitLighthouse e), log @ closing)
           | Inr lh \<Rightarrow>
               let iface = initialInterface cfg pki fw lh in
               if pkiPeersDir (cfgPKI cfg) = [] then (Inr (iface, dev, conn), log)
               else (case seDir S (pkiPeersDir (cfgPKI cfg)) of
                       None \<Rightarrow> (Inl (InitPeerCerts (pkiPeersDir (cfgPKI cfg))), log @ closing)
                     | Some entries \<Rightarrow>
                         (case loadPeerCerts (seX509 S) entries iface of
                            Inl e \<Rightarrow> (Inl (InitPeerCerts e), log @ closing)
                          | Inr iface \<Rightarrow> (Inr (iface, dev, conn), log))))))))"

section \<open>Shutdown\<close>

text \<open>
  \<open>Run\<close> returns once the context is cancelled, closing the device and the socket; a close that fails has
  released nothing.
\<close>

definition Run_closes :: "Device \<Rightarrow> Conn \<Rightarrow> res_event list" where
  "Run_closes d c = (if fst (Device_Close d) then [TunClosed (devFd d)] else []) @ (if fst (Conn_Close c) then [ConnClosed] else [])"

section \<open>The command\<close>

datatype Level = LevelDebug | LevelInfo | LevelWarn | LevelError

text \<open>The level of the logger and whether it writes JSON.\<close>

definition buildLogger :: "string \<Rightarrow> string \<Rightarrow> Level \<times> bool" where
  "buildLogger level format =
     ((if level = ''debug'' then LevelDebug else if level = ''warn'' then LevelWarn
       else if level = ''error'' then LevelError else LevelInfo),
      format = ''json'')"

text \<open>
  \<open>run\<close>, from the arguments to the exit code, the logger it installs and what it opens and closes; \<open>Run\<close>
  blocks until a signal, so what follows it happens on shutdown.
\<close>

definition nethd_run ::
  "start_env \<Rightarrow> (bytes \<Rightarrow> Config option) \<Rightarrow> string list \<Rightarrow> int \<times> (Level \<times> bool) option \<times> res_event list" where
  "nethd_run S yaml args =
     (case parseFlags (\<lambda>_. None) [''config'' \<mapsto> StringFlag, ''version'' \<mapsto> BoolFlag] args Map.empty of
        Inl _ \<Rightarrow> (2, None, [])
      | Inr (vals, _) \<Rightarrow>
          let configPath = str_flag vals ''config'' ''/etc/neth/config.yaml'';
              showVersion = bool_flag vals ''version'' False
          in if showVersion then (0, None, [])
             else case Load (seFile S) yaml configPath of
               Inl _ \<Rightarrow> (1, None, [])
             | Inr cfg \<Rightarrow>
                 let logger = buildLogger (logLevel (cfgLogging cfg)) (logFormat (cfgLogging cfg)) in
                 (case NewInterface S cfg :: (init_error, unit Interface \<times> Device \<times> Conn) res \<times> res_event list of
                    (Inl _, log) \<Rightarrow> (1, Some logger, log)
                  | (Inr (iface, d, conn), log) \<Rightarrow> (0, Some logger, log @ Run_closes d conn)))"

section \<open>Lemmas\<close>

text \<open>What a log leaves open: sockets, and descriptors of the TUN device.\<close>

definition conns_open :: "res_event list \<Rightarrow> int" where
  "conns_open log = socks_open (concat (map (\<lambda>e. case e of InUdp c \<Rightarrow> [c] | _ \<Rightarrow> []) log)) -
     int (length (filter (\<lambda>e. e = ConnClosed) log))"

definition fds_opened :: "res_event list \<Rightarrow> int multiset" where
  "fds_opened log = mset (opened (concat (map (\<lambda>e. case e of InSys c \<Rightarrow> [c] | _ \<Rightarrow> []) log)))"

definition fds_closed :: "res_event list \<Rightarrow> int multiset" where
  "fds_closed log = mset (closed (concat (map (\<lambda>e. case e of InSys c \<Rightarrow> [c] | _ \<Rightarrow> []) log))) +
     mset (concat (map (\<lambda>e. case e of TunClosed fd \<Rightarrow> [fd] | _ \<Rightarrow> []) log))"

lemma concat_Nils: "concat (map (\<lambda>x. []) xs) = []"
  by (induction xs) simp_all

lemma log_simps [simp]:
  "conns_open [] = 0" "conns_open (map InUdp us) = socks_open us" "conns_open (ConnClosed # log) = conns_open log - 1"
  "conns_open (TunClosed fd # log) = conns_open log" "conns_open (log @ log') = conns_open log + conns_open log'"
  "conns_open (map InSys calls) = 0"
  by (simp_all add: conns_open_def socks_open_append filter_empty_conv comp_def concat_Nils)

lemma fds_simps [simp]:
  "fds_opened [] = {#}" "fds_opened (map InUdp us) = {#}" "fds_opened (ConnClosed # log) = fds_opened log"
  "fds_opened (TunClosed fd # log) = fds_opened log" "fds_opened (log @ log') = fds_opened log + fds_opened log'"
  "fds_opened (map InSys calls) = mset (opened calls)"
  "fds_closed [] = {#}" "fds_closed (map InUdp us) = {#}" "fds_closed (ConnClosed # log) = fds_closed log"
  "fds_closed (TunClosed fd # log) = add_mset fd (fds_closed log)" "fds_closed (log @ log') = fds_closed log + fds_closed log'"
  "fds_closed (map InSys calls) = mset (closed calls)"
  by (simp_all add: fds_opened_def fds_closed_def comp_def concat_Nils)

lemma tun_balance:
  "tun_Open K n c m = (Inl e, calls) \<Longrightarrow> mset (opened calls) = mset (closed calls)"
  "tun_Open K n c m = (Inr d, calls) \<Longrightarrow> mset (opened calls) = add_mset (devFd d) (mset (closed calls))"
  using tun_descriptors [of K n c m] by simp_all

lemma Listen_conns:
  "Listen U host port = (Inl e, us) \<Longrightarrow> socks_open us = 0" "Listen U host port = (Inr c, us) \<Longrightarrow> socks_open us = 1"
  using Listen_balance [of U host port] by (simp_all add: is_ok_def)

lemma Listen_open: "Listen U host port = (Inr c, us) \<Longrightarrow> \<not> connClosed c"
  using Listen_reuses_port by blast

text \<open>What a successful start went through.\<close>

lemma NewInterface_Inr:
  fixes iface :: "'hs Interface"
  assumes "NewInterface S cfg = (Inr (iface, d, conn), log)"
  obtains pki fw lh udpCalls calls where
    "LoadPKI (seX509 S) (seFile S) (seNow S) (seNow2 S) (cfgPKI cfg) = Inr pki" "buildFirewall (cfgFirewall cfg) = Inr fw"
    "tun_Open (seSys S) (tunDev (cfgTUN cfg)) (Prefix_String (VpnIP (NodeCert pki))) (tunMTU (cfgTUN cfg)) = (Inr d, calls)"
    "log = map InUdp udpCalls @ map InSys calls"
    "Listen (seUdp S) (listenHost (cfgListen cfg)) (listenPort (cfgListen cfg)) = (Inr conn, udpCalls)"
    "buildLightHouse (seResolve S) (seIfaces S) (udpPort (LocalAddr conn)) cfg = Inr lh"
    "iface = initialInterface cfg pki fw lh \<or>
      (\<exists>es. loadPeerCerts (seX509 S) es (initialInterface cfg pki fw lh) = Inr iface)"
  using assms
  by (simp add: NewInterface_def Let_def split: res_splits) (use that in blast)+

lemma loadPeerCerts_frame:
  "loadPeerCerts L es iface = Inr iface' \<Longrightarrow> ifHosts iface' = ifHosts iface \<and> ifHostmap iface' = ifHostmap iface \<and>
     ifMgr iface' = ifMgr iface \<and> ifFw iface' = ifFw iface \<and> ifLh iface' = ifLh iface"
  by (induction es arbitrary: iface)
    (auto simp: AddPeerCert_def Let_def split: res_splits)

lemma NewInterface_state:
  fixes iface :: "'hs Interface"
  assumes "NewInterface S cfg = (Inr (iface, d, conn), log)"
  shows "iface_init iface \<and> \<not> devClosed d \<and> \<not> connClosed conn \<and> (\<exists>pki fw udpCalls calls. LoadPKI (seX509 S) (seFile S) (seNow S) (seNow2 S) (cfgPKI cfg) = Inr pki \<and>
    buildFirewall (cfgFirewall cfg) = Inr fw \<and> ifFw iface = fw \<and> log = map InUdp udpCalls @ map InSys calls \<and>
    Listen (seUdp S) (listenHost (cfgListen cfg)) (listenPort (cfgListen cfg)) = (Inr conn, udpCalls) \<and>
    ifMgr iface = NewHandshakeManager (NodeCert pki) \<lparr>dhPrivate = Curve25519Key pki, dhPublic = X25519PublicKey (NodeCert pki)\<rparr> (CACerts pki) \<and>
    tun_Open (seSys S) (tunDev (cfgTUN cfg)) (Prefix_String (VpnIP (NodeCert pki))) (tunMTU (cfgTUN cfg)) = (Inr d, calls))"
  using assms
proof (cases rule: NewInterface_Inr)
  case (1 pki fw lh udpCalls calls)
  let ?i = "initialInterface cfg pki fw lh :: 'hs Interface"
  have "ifHosts iface = ifHosts ?i \<and> ifHostmap iface = ifHostmap ?i \<and> ifMgr iface = ifMgr ?i \<and> ifFw iface = ifFw ?i"
    using 1(7) by (auto dest: loadPeerCerts_frame)
  then have i: "ifHosts iface = []" "ifHostmap iface = NewHostMap" "ifFw iface = fw"
    "ifMgr iface = NewHandshakeManager (NodeCert pki) \<lparr>dhPrivate = Curve25519Key pki, dhPublic = X25519PublicKey (NodeCert pki)\<rparr> (CACerts pki)"
    by (simp_all add: initialInterface_def Let_def)
  have "\<exists>inb outb. fw = New inb outb" using 1(2) by (auto simp: buildFirewall_def split: sum.splits)
  with i have "iface_init iface" by (auto simp: iface_init_def)
  with i 1 tun_Open_open [OF 1(3)] Listen_open [OF 1(5)] show ?thesis by blast
qed

lemma run_writes_bound:
  "hm_ok (ifHosts iface) (ifHostmap iface) \<Longrightarrow> length (run_writes E ops iface) \<le> length (filter (\<lambda>op. op_loop op = 4) ops)"
proof (induction ops arbitrary: iface)
  case (Cons op ops)
  have "hm_ok (ifHosts (fst (iface_step E op iface))) (ifHostmap (fst (iface_step E op iface)))"
    using hm_ok_hosts_step [OF hosts_step_iface Cons.prems] .
  note ih = Cons.IH [OF this]
  from Cons.prems show ?case
    by (cases rule: delivered_cases [where E = E and op = op]) (use ih in auto)
qed simp

text \<open>A sample machine: its files hold a CA, a node certificate and the node's key.\<close>

definition sample_udp :: udp_sys where
  "sample_udp = \<lparr>usResolve = (\<lambda>_. Some \<lparr>udpIP = [0, 0, 0, 0], udpPort = 4242\<rparr>), usSocket = True, usControl = True,
     usSetsockopt = (\<lambda>_ _ _. True), usBind = Some\<rparr>"

definition sample_start :: start_env where
  "sample_start = \<lparr>seX509 = sample_lib,
     seFile = [''ca'' \<mapsto> [0, 3], ''crt'' \<mapsto> [0, 1], ''key'' \<mapsto> 2 # replicate 32 1, ''cfg'' \<mapsto> []], seNow = 0, seNow2 = 0,
     seUdp = sample_udp, seSys = sample_sys, seResolve = (\<lambda>_. None), seIfaces = None, seDir = (\<lambda>_. None)\<rparr>"

definition sample_config :: Config where
  "sample_config = \<lparr>cfgPKI = \<lparr>pkiCA = ''ca'', pkiCert = ''crt'', pkiKey = ''key'', pkiPeersDir = []\<rparr>,
     cfgListen = \<lparr>listenHost = ''0.0.0.0'', listenPort = 4242\<rparr>, cfgTUN = \<lparr>tunDev = ''neth0'', tunMTU = 1300\<rparr>,
     cfgLighthouse = \<lparr>lhAmLighthouse = False, lhInterval = 60, lhHosts = []\<rparr>, cfgStaticHostMap = [],
     cfgPunchy = \<lparr>punchyPunch = False, punchyRespond = False\<rparr>, cfgFirewall = \<lparr>fwInbound = [], fwOutbound = []\<rparr>,
     cfgLogging = \<lparr>logLevel = ''info'', logFormat = ''text''\<rparr>\<rparr>"

lemma sample_pki: "LoadPKI sample_lib (seFile sample_start) 0 0 (cfgPKI sample_config) =
    Inr \<lparr>CACerts = [sample_cert 3], NodeCert = sample_cert 1, Curve25519Key = replicate 32 1\<rparr>"
proof -
  have "ParseCert sample_lib [0, k] = parseDER sample_lib [k]" for k by (simp add: ParseCert_def sample_lib_def)
  with sample_certs have p: "ParseCert sample_lib [0, 3] = Inr (sample_cert 3)" "ParseCert sample_lib [0, 1] = Inr (sample_cert 1)"
    by simp_all
  have "IsCA (sample_cert 3)" "\<not> IsCA (sample_cert 1)" "x509_Verify sample_lib x [certX509 (sample_cert 3)] 0" for x
    by (simp_all add: IsCA_def sample_cert_def sample_lib_def)
  then have "loadAndParseCA sample_lib (seFile sample_start) 0 ''ca'' = Inr (sample_cert 3)"
    "loadAndParseNodeCert sample_lib (seFile sample_start) 0 ''crt'' (sample_cert 3) = Inr (sample_cert 1)"
    unfolding loadAndParseCA_Inr loadAndParseNodeCert_Inr using p by (simp_all add: sample_start_def)
  moreover have "loadAndVerifyKey sample_lib (seFile sample_start) ''key'' (sample_cert 1) = Inr (replicate 32 1)"
    unfolding loadAndVerifyKey_Inr
    by (simp add: sample_start_def ParseX25519PrivateKey_def sample_lib_def pemTypeCert_def pemTypeCurve25519Key_def sample_cert_def)
  ultimately show ?thesis by (simp add: LoadPKI_def sample_config_def)
qed

lemma sample_opens: "is_ok (fst (NewInterface sample_start sample_config))"
proof -
  have ip: "VpnIP (sample_cert 1) = \<lparr>pfxAddr = Addr4 0x0A000001, pfxBits = 24\<rparr>"
    by (simp add: sample_cert_def PrefixFrom_def BitLen_def withoutZone_def)
  have "is_ok (fst (tun_Open sample_sys ''neth0'' (Prefix_String \<lparr>pfxAddr = Addr4 0x0A000001, pfxBits = 24\<rparr>) 1300))"
    by code_simp
  then obtain d log where
    "tun_Open sample_sys ''neth0'' (Prefix_String \<lparr>pfxAddr = Addr4 0x0A000001, pfxBits = 24\<rparr>) 1300 = (Inr d, log)"
    by (metis is_ok_def prod.collapse sum.exhaust sum.simps(5))
  moreover have "seX509 sample_start = sample_lib" "seNow sample_start = 0" "seNow2 sample_start = 0" "seSys sample_start = sample_sys"
    "tunDev (cfgTUN sample_config) = ''neth0''" "tunMTU (cfgTUN sample_config) = 1300" "pkiPeersDir (cfgPKI sample_config) = []"
    by (simp_all add: sample_start_def sample_config_def)
  moreover obtain c us where "Listen (seUdp sample_start) (listenHost (cfgListen sample_config)) (listenPort (cfgListen sample_config)) =
      (Inr c, us)"
    by (simp add: Listen_def ListenPacket_def setReusePort_def sample_udp_def sample_start_def Let_def)
  moreover obtain fw where "buildFirewall (cfgFirewall sample_config) = Inr fw"
    by (auto simp: buildFirewall_def sample_config_def)
  moreover have "buildLightHouse resolve ifaces port sample_config = Inr (NewLightHouse False [] (localUDPAddrs ifaces port))"
    for resolve ifaces port
    by (simp add: buildLightHouse_def sample_config_def)
  ultimately show ?thesis
    by (simp add: NewInterface_def sample_pki ip)
qed

section \<open>Properties\<close>

text \<open>
  C24: the daemon leaves nothing open.  Whatever the surroundings answer and however far it gets, from a
  flag error to an orderly shutdown, every socket and every descriptor it opened has been closed
  exactly once when it exits.
\<close>
theorem nethd_leaves_nothing_open:
  "case nethd_run S yaml args of (_, _, log) \<Rightarrow> conns_open log = 0 \<and> fds_opened log = fds_closed log"
proof -
  have "conns_open log = (if is_ok r then 1 else 0) \<and>
      fds_opened log = fds_closed log + (case r of Inl _ \<Rightarrow> {#} | Inr (i, d, c) \<Rightarrow> {#devFd d#})"
    if "NewInterface S cfg = (r :: (init_error, unit Interface \<times> Device \<times> Conn) res, log)" for cfg r log
    using that
    by (auto simp: NewInterface_def Let_def split: res_splits dest: tun_balance Listen_conns)
  with NewInterface_state [where S = S and 'hs = unit] show ?thesis
    by (auto simp: nethd_run_def Run_closes_def Device_Close_def Conn_Close_def Let_def split: option.splits sum.splits prod.splits)
qed

text \<open>
  C33: a started daemon is what its files say.  When construction succeeds, the interface is in its initial
  state, its identity is the verified one of \<open>LoadPKI\<close>, it trusts exactly that CA, its firewall is the
  one built from the configuration, exactly one socket is open, it was made to share its port before it
  was bound, and the TUN device was given the address of the node's own certificate.
\<close>
theorem NewInterface_ready:
  fixes iface :: "'hs Interface"
  assumes "NewInterface S cfg = (Inr (iface, d, conn), log)"
  shows "iface_init iface \<and> buildFirewall (cfgFirewall cfg) = Inr (ifFw iface) \<and> conns_open log = 1 \<and>
    (\<exists>a rest. log = InUdp UdpSocket # InUdp (UdpSetsockopt SOL_SOCKET SO_REUSEPORT 1) # InUdp (UdpBind a) # rest) \<and>
    (\<exists>pki. LoadPKI (seX509 S) (seFile S) (seNow S) (seNow2 S) (cfgPKI cfg) = Inr pki \<and>
      localCert (ifMgr iface) = NodeCert pki \<and> caPool (ifMgr iface) = CACerts pki \<and>
      localKey (ifMgr iface) = \<lparr>dhPrivate = Curve25519Key pki, dhPublic = X25519PublicKey (NodeCert pki)\<rparr> \<and>
      (\<forall>w bits. VpnIP (NodeCert pki) = \<lparr>pfxAddr = Addr4 w, pfxBits = bits\<rparr> \<and> 0 \<le> bits \<and> bits \<le> 32 \<longrightarrow>
        (\<exists>sock a. InSys (SysIoctl sock SIOCSIFADDR a) \<in> set log \<and> getName a = devName d \<and> slice 20 24 a = put_be 4 w)))"
proof -
  from NewInterface_state [OF assms] obtain pki fw udpCalls calls where
    st: "iface_init iface" "LoadPKI (seX509 S) (seFile S) (seNow S) (seNow2 S) (cfgPKI cfg) = Inr pki"
      "buildFirewall (cfgFirewall cfg) = Inr fw" "ifFw iface = fw" "log = map InUdp udpCalls @ map InSys calls"
      "ifMgr iface = NewHandshakeManager (NodeCert pki) \<lparr>dhPrivate = Curve25519Key pki, dhPublic = X25519PublicKey (NodeCert pki)\<rparr> (CACerts pki)"
      "tun_Open (seSys S) (tunDev (cfgTUN cfg)) (Prefix_String (VpnIP (NodeCert pki))) (tunMTU (cfgTUN cfg)) = (Inr d, calls)"
      "Listen (seUdp S) (listenHost (cfgListen cfg)) (listenPort (cfgListen cfg)) = (Inr conn, udpCalls)"
    by blast
  have addr: "\<exists>sock a. InSys (SysIoctl sock SIOCSIFADDR a) \<in> set log \<and> getName a = devName d \<and> slice 20 24 a = put_be 4 w"
    if "VpnIP (NodeCert pki) = \<lparr>pfxAddr = Addr4 w, pfxBits = bits\<rparr>" "0 \<le> bits" "bits \<le> 32" for w bits
  proof -
    have "ParsePrefix (Prefix_String (VpnIP (NodeCert pki))) = Some \<lparr>pfxAddr = Addr4 w, pfxBits = bits\<rparr>"
      using ParsePrefix_String4 that by simp
    from tun_address [OF st(7) this] st(5) show ?thesis by auto
  qed
  show ?thesis using st addr Listen_conns(2) [OF st(8)] Listen_reuses_port [OF st(8)] by (auto simp: NewHandshakeManager_def)
qed

theorem NewInterface_ready_witness:
  "\<exists>(iface :: unit Interface) d conn log. NewInterface sample_start sample_config = (Inr (iface, d, conn), log) \<and>
     iface_init iface \<and> conns_open log = 1"
proof -
  obtain r log where r: "NewInterface sample_start sample_config = (r :: (init_error, unit Interface \<times> Device \<times> Conn) res, log)"
    by (cases "NewInterface sample_start sample_config :: (init_error, unit Interface \<times> Device \<times> Conn) res \<times> res_event list")
  with sample_opens [where 'a = unit] obtain iface d conn where "r = Inr (iface, d, conn)"
    by (cases r) (auto simp: is_ok_def)
  with r show ?thesis using NewInterface_ready [of sample_start sample_config iface d conn log] by auto
qed

end
