(* ===== verification/Neth_CertTool.thy ===== *)
theory Neth_CertTool
  imports Neth_Pki Neth_Cli
begin

text \<open>
  The certificate tool, \<^verbatim>\<open>cmd/neth-cert/main.go\<close>: its four commands over the certificate library and a
  file system, and the life of a certificate from the CA's creation to the daemon that loads it.
\<close>

section \<open>Surroundings\<close>

text \<open>
  A path names one file, with its bytes and permission bits; a file that cannot be read is absent.
  \<^verbatim>\<open>os.WriteFile\<close> gives the permissions, less the umask, to a file it creates and leaves those of an
  existing file alone; \<open>teWrite\<close> says whether it succeeds and, if not, what it leaves at the path.
\<close>

type_synonym file_system = "string \<rightharpoonup> bytes \<times> u32"

datatype write_outcome = Written | WriteFailed "(bytes \<times> u32) option"

record tool_env =
  teX509 :: x509_lib
  teNow :: int
  teEd25519 :: "(bytes \<times> bytes) option"
  teRandInt :: "int \<Rightarrow> int option"
  teRandom :: "bytes option"
  teDuration :: "string \<Rightarrow> int option"
  teRFC3339 :: "int \<Rightarrow> string"
  teUmask :: u32
  teWrite :: "string \<Rightarrow> bytes \<Rightarrow> write_outcome"

datatype tool_error =
    ToolFlags flag_error
  | ToolRequired
  | ToolBadIP string
  | ToolRead string
  | ToolParse cert_error
  | ToolNotCA string
  | ToolKey cert_error
  | ToolTypeAssertion string
  | ToolKeyMismatch
  | ToolGenerate cert_error
  | ToolSign cert_error
  | ToolWrite string
  | ToolVerify cert_error

definition read_file :: "file_system \<Rightarrow> string \<Rightarrow> bytes option" where
  "read_file fs path = map_option fst (fs path)"

definition writeFile :: "tool_env \<Rightarrow> string \<Rightarrow> bytes \<Rightarrow> u32 \<Rightarrow> file_system \<Rightarrow> (tool_error, unit) res \<times> file_system" where
  "writeFile E path b mode fs =
     (case teWrite E path b of
        Written \<Rightarrow> (Inr (), fs(path \<mapsto> (b, case fs path of None \<Rightarrow> mode AND NOT (teUmask E) | Some (_, m) \<Rightarrow> m)))
      | WriteFailed left \<Rightarrow> (Inl (ToolWrite path), fs(path := left)))"

text \<open>\<^verbatim>\<open>ed25519.PrivateKey.Public\<close>: the second half of the 64-byte key, copied into 32 bytes.\<close>

definition ed25519_Public :: "bytes \<Rightarrow> bytes" where
  "ed25519_Public priv = take 32 (drop 32 priv @ replicate 32 0)"

section \<open>Commands\<close>

text \<open>The lines printed for a certificate.\<close>

definition printCertSummary :: "tool_env \<Rightarrow> Certificate \<Rightarrow> string list" where
  "printCertSummary E c =
     [''  Name        : '' @ Name c,
      ''  Is CA       : '' @ (if IsCA c then ''true'' else ''false'')]
     @ (if IsValid (VpnIP c) then [''  VPN IP      : '' @ Prefix_String (VpnIP c)] else [])
     @ (if length (Groups c) > 0 then [''  Groups      : '' @ Join_sep '', '' (Groups c)] else [])
     @ (if length (X25519PublicKey c) > 0 then [''  X25519 key  : '' @ hex_EncodeToString (X25519PublicKey c)] else [])
     @ [''  Not before  : '' @ teRFC3339 E (xNotBefore (certX509 c)),
        ''  Not after   : '' @ teRFC3339 E (xNotAfter (certX509 c)),
        ''  Fingerprint : '' @ hex_EncodeToString (Fingerprint c)]"

definition year :: int where
  "year = 8760 * 3600 * 1000000000"

definition certMode :: u32 where "certMode = 0x1A4"
definition keyMode :: u32 where "keyMode = 0x180"

definition cmdCA :: "tool_env \<Rightarrow> string list \<Rightarrow> file_system \<Rightarrow> (tool_error, string list) res \<times> file_system" where
  "cmdCA E args fs =
     (case parseFlags (teDuration E) [''name'' \<mapsto> StringFlag, ''duration'' \<mapsto> DurationFlag, ''out-dir'' \<mapsto> StringFlag] args Map.empty of
        Inl e \<Rightarrow> (Inl (ToolFlags e), fs)
      | Inr (vals, _) \<Rightarrow>
          let name = str_flag vals ''name'' [];
              dur = dur_flag (teDuration E) vals ''duration'' year;
              outDir = str_flag vals ''out-dir'' ''.''
          in if name = [] then (Inl ToolRequired, fs)
             else case GenerateCA (teX509 E) (teEd25519 E) (teRandInt E) (teNow E) name dur of
               Inl e \<Rightarrow> (Inl (ToolGenerate e), fs)
             | Inr (ca, caKey) \<Rightarrow>
                 let crtPath = Join outDir (name @ ''.crt''); keyPath = Join outDir (name @ ''.key'') in
                 (case writeFile E crtPath (PEM (teX509 E) ca) certMode fs of
                    (Inl e, fs) \<Rightarrow> (Inl e, fs)
                  | (Inr _, fs) \<Rightarrow>
                      (case MarshalEd25519PrivateKey (teX509 E) caKey of
                         Inl e \<Rightarrow> (Inl (ToolKey e), fs)
                       | Inr keyPEM \<Rightarrow>
                           (case writeFile E keyPath keyPEM keyMode fs of
                              (Inl e, fs) \<Rightarrow> (Inl e, fs)
                            | (Inr _, fs) \<Rightarrow>
                                (Inr ([''CA certificate : '' @ crtPath, ''CA private key : '' @ keyPath] @ printCertSummary E ca), fs)))))"

definition groupList :: "string \<Rightarrow> string list" where
  "groupList groups = (if groups = [] then [] else filter (\<lambda>g. g \<noteq> []) (map TrimSpace (Split (CHR '','') groups)))"

text \<open>The CA a request is signed with: its certificate and the matching private key.\<close>

definition loadIssuer :: "tool_env \<Rightarrow> file_system \<Rightarrow> string \<Rightarrow> string \<Rightarrow> (tool_error, Certificate \<times> PrivateKey) res" where
  "loadIssuer E fs caCrtPath caKeyPath =
     (case read_file fs caCrtPath of
        None \<Rightarrow> Inl (ToolRead caCrtPath)
      | Some caPEM \<Rightarrow>
     (case ParseCert (teX509 E) caPEM of
        Inl e \<Rightarrow> Inl (ToolParse e)
      | Inr ca \<Rightarrow>
          if \<not> IsCA ca then Inl (ToolNotCA caCrtPath)
          else case read_file fs caKeyPath of
            None \<Rightarrow> Inl (ToolRead caKeyPath)
          | Some caKeyPEM \<Rightarrow>
     (case ParseEd25519PrivateKey (teX509 E) caKeyPEM of
        Inl e \<Rightarrow> Inl (ToolKey e)
      | Inr (OtherKey t) \<Rightarrow> Inl (ToolTypeAssertion t)
      | Inr (Ed25519Key k) \<Rightarrow>
          (case xPublicKey (certX509 ca) of
             OtherPublic t \<Rightarrow> Inl (ToolTypeAssertion t)
           | Ed25519Public certPub \<Rightarrow>
               if certPub \<noteq> ed25519_Public k then Inl ToolKeyMismatch else Inr (ca, Ed25519Key k)))))"

definition cmdSign :: "tool_env \<Rightarrow> string list \<Rightarrow> file_system \<Rightarrow> (tool_error, string list) res \<times> file_system" where
  "cmdSign E args fs =
     (case parseFlags (teDuration E)
        [''ca-crt'' \<mapsto> StringFlag, ''ca-key'' \<mapsto> StringFlag, ''name'' \<mapsto> StringFlag, ''ip'' \<mapsto> StringFlag,
         ''groups'' \<mapsto> StringFlag, ''duration'' \<mapsto> DurationFlag, ''out-dir'' \<mapsto> StringFlag] args Map.empty of
        Inl e \<Rightarrow> (Inl (ToolFlags e), fs)
      | Inr (vals, _) \<Rightarrow>
          let caCrtPath = str_flag vals ''ca-crt'' []; caKeyPath = str_flag vals ''ca-key'' [];
              name = str_flag vals ''name'' []; ip = str_flag vals ''ip'' [];
              groups = str_flag vals ''groups'' [];
              dur = dur_flag (teDuration E) vals ''duration'' year;
              outDir = str_flag vals ''out-dir'' ''.''
          in if caCrtPath = [] \<or> caKeyPath = [] \<or> name = [] \<or> ip = [] then (Inl ToolRequired, fs)
             else case ParsePrefix ip of
               None \<Rightarrow> (Inl (ToolBadIP ip), fs)
             | Some vpnIP \<Rightarrow>
     (case loadIssuer E fs caCrtPath caKeyPath of
        Inl e \<Rightarrow> (Inl e, fs)
      | Inr (ca, caKey) \<Rightarrow>
     (case GenerateX25519KeyPair (teX509 E) (teRandom E) of
        Inl e \<Rightarrow> (Inl (ToolGenerate e), fs)
      | Inr (nodePriv, nodePub) \<Rightarrow>
     (case Sign (teX509 E) (teEd25519 E) (teRandInt E) (teNow E) ca name vpnIP (groupList groups) nodePub dur caKey of
        Inl e \<Rightarrow> (Inl (ToolSign e), fs)
      | Inr node \<Rightarrow>
          let crtPath = Join outDir (name @ ''.crt''); keyPath = Join outDir (name @ ''.key'') in
          (case writeFile E crtPath (PEM (teX509 E) node) certMode fs of
             (Inl e, fs) \<Rightarrow> (Inl e, fs)
           | (Inr _, fs) \<Rightarrow>
               (case MarshalX25519PrivateKey (teX509 E) nodePriv of
                  Inl e \<Rightarrow> (Inl (ToolKey e), fs)
                | Inr nodeKeyPEM \<Rightarrow>
                    (case writeFile E keyPath nodeKeyPEM keyMode fs of
                       (Inl e, fs) \<Rightarrow> (Inl e, fs)
                     | (Inr _, fs) \<Rightarrow>
                         (Inr ([''Node certificate : '' @ crtPath, ''Node private key : '' @ keyPath] @ printCertSummary E node), fs))))))))"

definition cmdVerify :: "tool_env \<Rightarrow> string list \<Rightarrow> file_system \<Rightarrow> (tool_error, string list) res" where
  "cmdVerify E args fs =
     (case parseFlags (teDuration E) [''ca-crt'' \<mapsto> StringFlag, ''cert'' \<mapsto> StringFlag] args Map.empty of
        Inl e \<Rightarrow> Inl (ToolFlags e)
      | Inr (vals, _) \<Rightarrow>
          let caCrtPath = str_flag vals ''ca-crt'' []; certPath = str_flag vals ''cert'' [] in
          if caCrtPath = [] \<or> certPath = [] then Inl ToolRequired
          else case read_file fs caCrtPath of
            None \<Rightarrow> Inl (ToolRead caCrtPath)
          | Some caPEM \<Rightarrow>
     (case ParseCert (teX509 E) caPEM of
        Inl e \<Rightarrow> Inl (ToolParse e)
      | Inr ca \<Rightarrow>
     (case read_file fs certPath of
        None \<Rightarrow> Inl (ToolRead certPath)
      | Some nodePEM \<Rightarrow>
     (case ParseCert (teX509 E) nodePEM of
        Inl e \<Rightarrow> Inl (ToolParse e)
      | Inr node \<Rightarrow>
          (case Verify (teX509 E) node [ca] (teNow E) of
             Inl e \<Rightarrow> Inl (ToolVerify e)
           | Inr _ \<Rightarrow> Inr [''OK: certificate is valid''])))))"

definition cmdPrint :: "tool_env \<Rightarrow> string list \<Rightarrow> file_system \<Rightarrow> (tool_error, string list) res" where
  "cmdPrint E args fs =
     (case parseFlags (teDuration E) [''cert'' \<mapsto> StringFlag] args Map.empty of
        Inl e \<Rightarrow> Inl (ToolFlags e)
      | Inr (vals, _) \<Rightarrow>
          let certPath = str_flag vals ''cert'' [] in
          if certPath = [] then Inl ToolRequired
          else case read_file fs certPath of
            None \<Rightarrow> Inl (ToolRead certPath)
          | Some pemBytes \<Rightarrow>
              (case ParseCert (teX509 E) pemBytes of
                 Inl e \<Rightarrow> Inl (ToolParse e)
               | Inr c \<Rightarrow> Inr (printCertSummary E c)))"

text \<open>The exit status: two after a panic, one after an error or a usage message.\<close>

definition exit_code :: "tool_error \<Rightarrow> int" where
  "exit_code e =
     (case e of ToolTypeAssertion _ \<Rightarrow> 2 | ToolGenerate SerialPanic \<Rightarrow> 2 | ToolSign SerialPanic \<Rightarrow> 2 | _ \<Rightarrow> 1)"

definition neth_cert_main :: "tool_env \<Rightarrow> string list \<Rightarrow> file_system \<Rightarrow> int \<times> string list \<times> file_system" where
  "neth_cert_main E args fs =
     (case args of
        [] \<Rightarrow> (1, [], fs)
      | cmd # args \<Rightarrow>
          if cmd \<notin> {''ca'', ''sign'', ''verify'', ''print''} then (1, [], fs)
          else
            let (r, fs') =
              (if cmd = ''ca'' then cmdCA E args fs
               else if cmd = ''sign'' then cmdSign E args fs
               else if cmd = ''verify'' then (cmdVerify E args fs, fs)
               else (cmdPrint E args fs, fs))
            in case r of Inl e \<Rightarrow> (exit_code e, [], fs') | Inr out \<Rightarrow> (0, out, fs'))"

section \<open>What the codecs promise\<close>

text \<open>
  Two more documented facts about the parameter.  \<^verbatim>\<open>x509.ParsePKCS8PrivateKey\<close> inverts the encoding of
  an Ed25519 key \<open>k\<close>; it is said of one key, since the encoding holds the seed only and the law needs the public half to be
  the seed's, as in a key \<^verbatim>\<open>ed25519.GenerateKey\<close> returns.  And a CA certificate signed with its own key is valid
  under itself, and validates what was signed with that key and carries the neth extensions only, while both are in date, unless
  it has both the subject and the public key of the CA.  Certificates hold whole seconds, hence the second's margin.
\<close>

definition pkcs8_inverse :: "x509_lib \<Rightarrow> bytes \<Rightarrow> bool" where
  "pkcs8_inverse L k \<longleftrightarrow> (\<forall>der. MarshalPKCS8PrivateKey L (Ed25519Key k) = Some der \<longrightarrow>
     ParsePKCS8PrivateKey L der = Some (Ed25519Key k))"

definition in_date :: "Template \<Rightarrow> int \<Rightarrow> bool" where
  "in_date t now \<longleftrightarrow> tNotBefore t \<le> now \<and> now + 1000000000 \<le> tNotAfter t"

definition signing_ca :: "x509_lib \<Rightarrow> Template \<Rightarrow> bytes \<Rightarrow> X509 \<Rightarrow> bool" where
  "signing_ca L t k x \<longleftrightarrow> tIsCA t \<and> tBasicConstraintsValid t \<and> tKeyUsage t = KeyUsageCertSign + KeyUsageCRLSign \<and>
     tExtraExtensions t = [] \<and>
     (\<exists>der. CreateCertificate L t None (ed25519_Public k) (Ed25519Key k) = Some der \<and> ParseCertificate L der = Some x)"

definition ca_validates :: "x509_lib \<Rightarrow> bool" where
  "ca_validates L \<longleftrightarrow> (\<forall>t k ca now. signing_ca L t k ca \<and> in_date t now \<longrightarrow>
     x509_Verify L ca [ca] now \<and>
     (\<forall>t' pub der x. CreateCertificate L t' (Some ca) pub (Ed25519Key k) = Some der \<and> ParseCertificate L der = Some x \<and>
        \<not> tIsCA t' \<and> (tCommonName t' \<noteq> tCommonName t \<or> pub \<noteq> ed25519_Public k) \<and> (\<forall>e \<in> set (tExtraExtensions t'). extId e \<in> neth_oids) \<and> in_date t' now \<longrightarrow> x509_Verify L x [ca] now))"

section \<open>Lemmas\<close>

lemma writeFile_Inr:
  "writeFile E path b mode fs = (Inr u, fs') \<longleftrightarrow> teWrite E path b = Written \<and>
     fs' = fs(path \<mapsto> (b, case fs path of None \<Rightarrow> mode AND NOT (teUmask E) | Some (_, m) \<Rightarrow> m))"
  by (auto simp: writeFile_def split: write_outcome.splits)

lemma writeFile_frame: "writeFile E path b mode fs = (r, fs') \<Longrightarrow> p \<noteq> path \<Longrightarrow> fs' p = fs p"
  by (auto simp: writeFile_def split: write_outcome.splits)

lemma flag_names: "flag_name ''name''" "flag_name ''duration''" "flag_name ''out-dir''" "flag_name ''ca-crt''"
  "flag_name ''ca-key''" "flag_name ''ip''" "flag_name ''groups''" "flag_name ''cert''"
  by (simp_all add: flag_name_def)

lemma settable_simps [simp]: "settable dur StringFlag v" "settable dur DurationFlag v \<longleftrightarrow> dur v \<noteq> None"
  by (simp_all add: settable_def)

lemma parse_ca_args:
  assumes "dur d \<noteq> None"
  shows "parseFlags dur [''name'' \<mapsto> StringFlag, ''duration'' \<mapsto> DurationFlag, ''out-dir'' \<mapsto> StringFlag]
      [''--name'', name, ''--duration'', d, ''--out-dir'', dir] Map.empty =
    Inr ([''name'' \<mapsto> name, ''duration'' \<mapsto> d, ''out-dir'' \<mapsto> dir], [])"
  using assms by (simp add: flag_names del: parseFlags.simps(2))

lemma parse_sign_args:
  assumes "dur d \<noteq> None"
  shows "parseFlags dur [''ca-crt'' \<mapsto> StringFlag, ''ca-key'' \<mapsto> StringFlag, ''name'' \<mapsto> StringFlag, ''ip'' \<mapsto> StringFlag,
         ''groups'' \<mapsto> StringFlag, ''duration'' \<mapsto> DurationFlag, ''out-dir'' \<mapsto> StringFlag]
      [''--ca-crt'', crt, ''--ca-key'', key, ''--name'', name, ''--ip'', ip, ''--groups'', groups, ''--duration'', d,
       ''--out-dir'', dir] Map.empty =
    Inr ([''ca-crt'' \<mapsto> crt, ''ca-key'' \<mapsto> key, ''name'' \<mapsto> name, ''ip'' \<mapsto> ip, ''groups'' \<mapsto> groups, ''duration'' \<mapsto> d,
      ''out-dir'' \<mapsto> dir], [])"
  using assms by (simp add: flag_names del: parseFlags.simps(2))

lemma cmdCA_InrE:
  assumes "cmdCA E [''--name'', name, ''--duration'', d, ''--out-dir'', dir] fs = (Inr out, fs')" "teDuration E d = Some dur"
  obtains ca caKey keyPEM m m' where "GenerateCA (teX509 E) (teEd25519 E) (teRandInt E) (teNow E) name dur = Inr (ca, caKey)"
    "MarshalEd25519PrivateKey (teX509 E) caKey = Inr keyPEM"
    "fs' = fs(Join dir (name @ ''.crt'') \<mapsto> (PEM (teX509 E) ca, m), Join dir (name @ ''.key'') \<mapsto> (keyPEM, m'))"
proof -
  have p: "str_flag [''name'' \<mapsto> name, ''duration'' \<mapsto> d, ''out-dir'' \<mapsto> dir] ''name'' [] = name"
    "str_flag [''name'' \<mapsto> name, ''duration'' \<mapsto> d, ''out-dir'' \<mapsto> dir] ''out-dir'' ''.'' = dir"
    "dur_flag (teDuration E) [''name'' \<mapsto> name, ''duration'' \<mapsto> d, ''out-dir'' \<mapsto> dir] ''duration'' year = dur"
    using assms(2) by (simp_all add: str_flag_def dur_flag_def)
  have "teDuration E d \<noteq> None" using assms(2) by simp
  note f = parse_ca_args [of "teDuration E", OF this, of name dir]
  show ?thesis
    using assms(1) that unfolding cmdCA_def f sum.case prod.case Let_def p
    by (simp split: if_splits sum.splits prod.splits) (auto simp: writeFile_Inr)
qed

lemma loadIssuer_Inr:
  "loadIssuer E fs crt key = Inr (ca, k) \<Longrightarrow>
    \<exists>d d' k'. k = Ed25519Key k' \<and> read_file fs crt = Some d \<and> ParseCert (teX509 E) d = Inr ca \<and> IsCA ca \<and>
      read_file fs key = Some d' \<and> ParseEd25519PrivateKey (teX509 E) d' = Inr (Ed25519Key k') \<and>
      xPublicKey (certX509 ca) = Ed25519Public (ed25519_Public k')"
  by (auto simp: loadIssuer_def split: option.splits sum.splits if_splits PrivateKey.splits PublicKey.splits)

text \<open>A command that signs leaves a certificate and its key, and nothing else, in the file system.\<close>

abbreviation signFlags :: "tool_env \<Rightarrow> string list \<Rightarrow> (flag_error, (string \<rightharpoonup> string) \<times> string list) res" where
  "signFlags E args \<equiv> parseFlags (teDuration E)
     [''ca-crt'' \<mapsto> StringFlag, ''ca-key'' \<mapsto> StringFlag, ''name'' \<mapsto> StringFlag, ''ip'' \<mapsto> StringFlag,
      ''groups'' \<mapsto> StringFlag, ''duration'' \<mapsto> DurationFlag, ''out-dir'' \<mapsto> StringFlag] args Map.empty"

lemma cmdSign_Inr:
  assumes "cmdSign E args fs = (Inr out, fs')"
  shows "\<exists>vals rest vpnIP ca caKey priv pub node keyPEM.
    signFlags E args = Inr (vals, rest) \<and>
    ParsePrefix (str_flag vals ''ip'' []) = Some vpnIP \<and>
    loadIssuer E fs (str_flag vals ''ca-crt'' []) (str_flag vals ''ca-key'' []) = Inr (ca, caKey) \<and>
    GenerateX25519KeyPair (teX509 E) (teRandom E) = Inr (priv, pub) \<and>
    Sign (teX509 E) (teEd25519 E) (teRandInt E) (teNow E) ca (str_flag vals ''name'' []) vpnIP
      (groupList (str_flag vals ''groups'' [])) pub (dur_flag (teDuration E) vals ''duration'' year) caKey = Inr node \<and>
    MarshalX25519PrivateKey (teX509 E) priv = Inr keyPEM \<and>
    (let dir = str_flag vals ''out-dir'' ''.''; name = str_flag vals ''name'' [];
         crt = Join dir (name @ ''.crt''); key = Join dir (name @ ''.key'')
     in \<exists>m. fs' = fs(crt \<mapsto> (PEM (teX509 E) node, m),
       key \<mapsto> (keyPEM, case fs key of None \<Rightarrow> keyMode AND NOT (teUmask E) | Some (_, m) \<Rightarrow> m)))"
  using assms unfolding cmdSign_def Let_def
  by (simp split: sum.splits prod.splits if_splits option.splits)
    (auto simp: writeFile_Inr Join_crt_key [symmetric] split: sum.splits prod.splits)

lemma cmdSign_frame:
  assumes "cmdSign E args fs = (r, fs')" "fs' \<noteq> fs"
  shows "\<exists>vals rest. signFlags E args = Inr (vals, rest) \<and>
    (\<forall>p. p \<noteq> Join (str_flag vals ''out-dir'' ''.'') (str_flag vals ''name'' [] @ ''.crt'') \<and>
      p \<noteq> Join (str_flag vals ''out-dir'' ''.'') (str_flag vals ''name'' [] @ ''.key'') \<longrightarrow> fs' p = fs p)"
proof -
  from assms obtain vals rest where v: "signFlags E args = Inr (vals, rest)"
    by (cases "signFlags E args") (auto simp: cmdSign_def)
  have "fs' p = fs p" if p: "p \<noteq> Join (str_flag vals ''out-dir'' ''.'') (str_flag vals ''name'' [] @ ''.crt'')"
      "p \<noteq> Join (str_flag vals ''out-dir'' ''.'') (str_flag vals ''name'' [] @ ''.key'')" for p
    using assms(1) unfolding cmdSign_def v Let_def
    by (simp split: sum.splits prod.splits if_splits option.splits)
      (auto dest!: writeFile_frame [OF _ p(1)] writeFile_frame [OF _ p(2)])
  with v show ?thesis by blast
qed

lemma X25519_key_file:
  assumes "pem_inverse L" "MarshalX25519PrivateKey L priv = Inr keyPEM"
  shows "ParseX25519PrivateKey L keyPEM = Inr priv"
  using assms by (auto simp: MarshalX25519PrivateKey_def ParseX25519PrivateKey_def pem_inverse_def split: if_splits)

lemma Ed25519_key_file:
  assumes "pem_inverse L" "pkcs8_inverse L k" "MarshalEd25519PrivateKey L (Ed25519Key k) = Inr keyPEM"
  shows "ParseEd25519PrivateKey L keyPEM = Inr (Ed25519Key k)"
  using assms
  by (auto simp: MarshalEd25519PrivateKey_def ParseEd25519PrivateKey_def pem_inverse_def pkcs8_inverse_def split: option.splits)

lemma key_mode_private: "(keyMode AND NOT umask) AND 0x3F = 0"
proof -
  have "keyMode AND 0x3F = 0" by (simp add: keyMode_def)
  then show ?thesis by (metis and.assoc and.commute and_zero_eq)
qed

lemma ca_self_valid:
  "ca_validates L \<Longrightarrow> signing_ca L t k ca \<Longrightarrow> in_date t now \<Longrightarrow> x509_Verify L ca [ca] now"
  unfolding ca_validates_def by blast

lemma issued_valid:
  assumes "ca_validates L" "signing_ca L t k (certX509 c)" "Sign L keys rnd now c name vpnIP groups pub dur (Ed25519Key k) = Inr node"
    and "in_date t time" "now \<le> time" "time + 1000000000 \<le> now + dur"
    and "\<And>nodePub nodeKey. keys = Some (nodePub, nodeKey) \<Longrightarrow> name \<noteq> tCommonName t \<or> nodePub \<noteq> ed25519_Public k"
  shows "x509_Verify L (certX509 node) [certX509 c] time"
proof -
  from assms(3) obtain serial nodePub nodeKey ext der where
    e: "encodeCurve25519Key pub = Inr ext" "parseDER L der = Inr node" "keys = Some (nodePub, nodeKey)"
      "CreateCertificate L (node_template serial name now dur vpnIP ext groups) (Some (certX509 c)) nodePub (Ed25519Key k) = Some der"
    by (rule Sign_InrE)
  let ?t = "node_template serial name now dur vpnIP ext groups"
  have "\<not> tIsCA ?t" "tCommonName ?t = name" "in_date ?t time" "\<forall>e \<in> set (tExtraExtensions ?t). extId e \<in> neth_oids"
    using assms(5,6) decode_encode_Curve(2) [OF e(1)] by (simp_all add: node_template_def in_date_def neth_oids_def)
  with assms(1,2,4) assms(7) [OF e(3)] e(4) parseDER_frame [OF e(2)] show ?thesis unfolding ca_validates_def by metis
qed

text \<open>What the node's files hold after a successful request, in terms of the request.\<close>

lemma cmdSign_files:
  assumes "cmdSign E [''--ca-crt'', crt, ''--ca-key'', key, ''--name'', name, ''--ip'', ip, ''--groups'', groups,
      ''--duration'', d, ''--out-dir'', dir] fs = (Inr out, fs')" "teDuration E d = Some dur"
  obtains vpnIP ca caKey priv pub node keyPEM m m' where "ParsePrefix ip = Some vpnIP"
    "loadIssuer E fs crt key = Inr (ca, caKey)" "GenerateX25519KeyPair (teX509 E) (teRandom E) = Inr (priv, pub)"
    "Sign (teX509 E) (teEd25519 E) (teRandInt E) (teNow E) ca name vpnIP (groupList groups) pub dur caKey = Inr node"
    "MarshalX25519PrivateKey (teX509 E) priv = Inr keyPEM"
    "fs' = fs(Join dir (name @ ''.crt'') \<mapsto> (PEM (teX509 E) node, m), Join dir (name @ ''.key'') \<mapsto> (keyPEM, m'))"
proof -
  let ?vals = "[''ca-crt'' \<mapsto> crt, ''ca-key'' \<mapsto> key, ''name'' \<mapsto> name, ''ip'' \<mapsto> ip, ''groups'' \<mapsto> groups, ''duration'' \<mapsto> d,
      ''out-dir'' \<mapsto> dir]"
  have v: "str_flag ?vals ''ip'' [] = ip" "str_flag ?vals ''ca-crt'' [] = crt" "str_flag ?vals ''ca-key'' [] = key"
    "str_flag ?vals ''name'' [] = name" "str_flag ?vals ''groups'' [] = groups" "str_flag ?vals ''out-dir'' ''.'' = dir"
    "dur_flag (teDuration E) ?vals ''duration'' year = dur"
    using assms(2) by (simp_all add: str_flag_def dur_flag_def)
  have "teDuration E d \<noteq> None" using assms(2) by simp
  note f = parse_sign_args [of "teDuration E", OF this, of crt key name ip groups dir]
  from cmdSign_Inr [OF assms(1)] show ?thesis
    unfolding f using that by (auto simp: v Let_def simp del: fun_upd_apply)
qed

text \<open>A sample library that creates one CA and one node certificate, and an environment for the tool.\<close>

definition sample_tool_lib :: x509_lib where
  "sample_tool_lib = sample_lib
     \<lparr>x509_Verify := (\<lambda>x pool now. \<exists>ca \<in> set pool. xIsCA ca),
      CreateCertificate := (\<lambda>t parent pub key.
        if tIsCA t then (if tCommonName t = ''ca'' \<and> tExtraExtensions t = [] then Some [3] else None)
        else if tCommonName t = ''node'' \<and> tExtraExtensions t = sample_ext 1 then Some [1] else None)\<rparr>"

definition sample_tool_env :: tool_env where
  "sample_tool_env = \<lparr>teX509 = sample_tool_lib, teNow = 0, teEd25519 = Some (replicate 32 0, replicate 64 0),
     teRandInt = (\<lambda>_. Some 5), teRandom = Some (replicate 32 1), teDuration = (\<lambda>_. Some 2000000000),
     teRFC3339 = (\<lambda>_. []), teUmask = 0x12, teWrite = (\<lambda>_ _. Written)\<rparr>"

definition sample_ca_args :: "string list" where
  "sample_ca_args = [''--name'', ''ca'', ''--duration'', ''2s'', ''--out-dir'', ''.'']"

definition sample_sign_args :: "string list" where
  "sample_sign_args = [''--ca-crt'', Join ''.'' (''ca'' @ ''.crt''), ''--ca-key'', Join ''.'' (''ca'' @ ''.key''), ''--name'', ''node'',
     ''--ip'', ''10.0.0.1/24'', ''--groups'', ''web'', ''--duration'', ''2s'', ''--out-dir'', ''.'']"

lemma sample_tool_laws: "pem_inverse sample_tool_lib" "pkcs8_inverse sample_tool_lib k" "issues_template sample_tool_lib"
  "ca_validates sample_tool_lib"
proof -
  show "pem_inverse sample_tool_lib" using sample_pem by (simp add: pem_inverse_def sample_tool_lib_def)
  show "pkcs8_inverse sample_tool_lib k" by (simp add: pkcs8_inverse_def sample_tool_lib_def sample_lib_def)
  show "issues_template sample_tool_lib"
    unfolding issues_template_def
    by (auto simp: sample_tool_lib_def sample_lib_def split: if_splits intro: exI [of _ "[]"])
  show "ca_validates sample_tool_lib"
    by (auto simp: ca_validates_def signing_ca_def sample_tool_lib_def sample_lib_def split: if_splits)
qed

lemma sample_tool_certs:
  "parseDER sample_tool_lib [1] = Inr (sample_cert 1)" "parseDER sample_tool_lib [3] = Inr (sample_cert 3)"
  using sample_certs(1,3) by (simp_all add: parseDER_def sample_tool_lib_def)

lemma sample_ca_generated:
  "GenerateCA sample_tool_lib (Some (replicate 32 0, replicate 64 0)) (\<lambda>_. Some 5) 0 ''ca'' 2000000000 =
     Inr (sample_cert 3, Ed25519Key (replicate 64 0))"
  "MarshalEd25519PrivateKey sample_tool_lib (Ed25519Key (replicate 64 0)) = Inr (1 # replicate 64 0)"
proof -
  show "GenerateCA sample_tool_lib (Some (replicate 32 0, replicate 64 0)) (\<lambda>_. Some 5) 0 ''ca'' 2000000000 =
     Inr (sample_cert 3, Ed25519Key (replicate 64 0))"
    using sample_tool_certs(2) by (simp add: GenerateCA_def newSerial_def sample_tool_lib_def)
  show "MarshalEd25519PrivateKey sample_tool_lib (Ed25519Key (replicate 64 0)) = Inr (1 # replicate 64 0)"
    by (simp add: MarshalEd25519PrivateKey_def sample_tool_lib_def sample_lib_def pemTypeCert_def)
qed

lemma sample_ca_made: "\<exists>out fs. cmdCA sample_tool_env sample_ca_args Map.empty = (Inr out, fs)"
proof -
  have f: "parseFlags (\<lambda>_. Some 2000000000) [''name'' \<mapsto> StringFlag, ''duration'' \<mapsto> DurationFlag, ''out-dir'' \<mapsto> StringFlag]
      sample_ca_args Map.empty = Inr ([''name'' \<mapsto> ''ca'', ''duration'' \<mapsto> ''2s'', ''out-dir'' \<mapsto> ''.''], [])"
    unfolding sample_ca_args_def by (rule parse_ca_args) simp
  show ?thesis
    unfolding cmdCA_def Let_def by (simp add: sample_tool_env_def f str_flag_def dur_flag_def writeFile_def sample_ca_generated)
qed

lemma sample_groupList: "groupList ''web'' = [''web'']" by code_simp

lemma sample_node_signed:
  assumes "cmdCA sample_tool_env sample_ca_args Map.empty = (Inr out, fs)"
  shows "\<exists>out' fs'. cmdSign sample_tool_env sample_sign_args fs = (Inr out', fs')"
proof -
  have env: "teX509 sample_tool_env = sample_tool_lib" "teDuration sample_tool_env = (\<lambda>_. Some 2000000000)" "teNow sample_tool_env = 0"
    "teEd25519 sample_tool_env = Some (replicate 32 0, replicate 64 0)" "teRandInt sample_tool_env = (\<lambda>_. Some 5)"
    "teRandom sample_tool_env = Some (replicate 32 1)"
    by (simp_all add: sample_tool_env_def)
  have "teWrite sample_tool_env path b = Written" for path b by (simp add: sample_tool_env_def)
  then have w: "writeFile sample_tool_env path b m g =
      (Inr (), g(path \<mapsto> (b, case g path of None \<Rightarrow> m AND NOT (teUmask sample_tool_env) | Some (_, m) \<Rightarrow> m)))" for path b m g
    by (simp add: writeFile_def)
  from assms [unfolded sample_ca_args_def] obtain m m' where
    fs: "fs = [Join ''.'' (''ca'' @ ''.crt'') \<mapsto> (PEM sample_tool_lib (sample_cert 3), m), Join ''.'' (''ca'' @ ''.key'') \<mapsto> (1 # replicate 64 0, m')]"
    by (rule cmdCA_InrE) (auto simp: env sample_ca_generated)
  have "ParseCert sample_tool_lib (PEM sample_tool_lib (sample_cert 3)) = Inr (sample_cert 3)"
    using PEM_roundtrip [OF sample_tool_laws(1) sample_tool_certs(2)] .
  moreover have "ParseEd25519PrivateKey sample_tool_lib (1 # replicate 64 0) = Inr (Ed25519Key (replicate 64 0))"
    by (simp add: ParseEd25519PrivateKey_def sample_tool_lib_def sample_lib_def)
  moreover have "ed25519_Public (replicate 64 0) = replicate 32 0" by (simp add: ed25519_Public_def)
  moreover have "IsCA (sample_cert 3)" "xPublicKey (certX509 (sample_cert 3)) = Ed25519Public (replicate 32 0)"
    by (simp_all add: IsCA_def sample_cert_def)
  moreover have "Join ''.'' ''ca.crt'' \<noteq> Join ''.'' ''ca.key''" by code_simp
  ultimately have ca: "loadIssuer sample_tool_env fs (Join ''.'' (''ca'' @ ''.crt'')) (Join ''.'' (''ca'' @ ''.key'')) =
      Inr (sample_cert 3, Ed25519Key (replicate 64 0))"
    by (simp add: loadIssuer_def env fs read_file_def)
  have key: "GenerateX25519KeyPair sample_tool_lib (Some (replicate 32 1)) =
      Inr ((replicate 32 1) [0 := 0, 31 := 65], replicate 32 1)"
    by (simp add: GenerateX25519KeyPair_def sample_tool_lib_def sample_lib_def clamp_def)
  have p: "ParsePrefix ''10.0.0.1/24'' = Some (PrefixFrom (Addr4 0x0A000001) 24)" by code_simp
  have sign: "Sign sample_tool_lib (Some (replicate 32 0, replicate 64 0)) (\<lambda>_. Some 5) 0 (sample_cert 3) ''node''
      (PrefixFrom (Addr4 0x0A000001) 24) [''web''] (replicate 32 1) 2000000000 (Ed25519Key (replicate 64 0)) = Inr (sample_cert 1)"
    using sample_tool_certs(1)
    by (simp add: Sign_def sample_curve newSerial_def sample_tool_lib_def sample_ext_def)
  have m: "MarshalX25519PrivateKey sample_tool_lib ((replicate 32 1) [0 := 0, 31 := 65]) = Inr (2 # (replicate 32 1) [0 := 0, 31 := 65])"
    by (simp add: MarshalX25519PrivateKey_def sample_tool_lib_def sample_lib_def pemTypeCert_def pemTypeCurve25519Key_def)
  have f: "parseFlags (\<lambda>_. Some 2000000000) [''ca-crt'' \<mapsto> StringFlag, ''ca-key'' \<mapsto> StringFlag, ''name'' \<mapsto> StringFlag, ''ip'' \<mapsto> StringFlag,
         ''groups'' \<mapsto> StringFlag, ''duration'' \<mapsto> DurationFlag, ''out-dir'' \<mapsto> StringFlag] sample_sign_args Map.empty =
      Inr ([''ca-crt'' \<mapsto> Join ''.'' (''ca'' @ ''.crt''), ''ca-key'' \<mapsto> Join ''.'' (''ca'' @ ''.key''), ''name'' \<mapsto> ''node'',
        ''ip'' \<mapsto> ''10.0.0.1/24'', ''groups'' \<mapsto> ''web'', ''duration'' \<mapsto> ''2s'', ''out-dir'' \<mapsto> ''.''], [])"
    unfolding sample_sign_args_def by (rule parse_sign_args) simp
  have "Join ''.'' (''ca'' @ ''.crt'') \<noteq> []" "Join ''.'' (''ca'' @ ''.key'') \<noteq> []" by code_simp+
  then show ?thesis
    unfolding cmdSign_def env f sum.case prod.case Let_def str_flag_def dur_flag_def
    using ca key p sign m by (simp add: w sample_groupList)
qed

section \<open>Properties\<close>

text \<open>
  C37: what signing does to the file system.  However it ends, the command changes at most two files, the
  certificate and the key named after the node in the output directory, both as given on the command line, and
  none when the command line does not parse.  When it succeeds, the certificate file holds a certificate
  issued under that name for a public key, and the key file a loadable private key, the one that public key belongs to.  A key
  file it creates is closed to group and others; one that already existed keeps the permissions it had, however open.
\<close>
theorem cmdSign_effects:
  assumes "pem_inverse (teX509 E)" "cmdSign E args fs = (r, fs')"
  shows "(fs' = fs \<and> \<not> is_ok r) \<or> (\<exists>vals rest dir name crt key. signFlags E args = Inr (vals, rest) \<and>
    dir = str_flag vals ''out-dir'' ''.'' \<and> name = str_flag vals ''name'' [] \<and>
    crt = Join dir (name @ ''.crt'') \<and> key = Join dir (name @ ''.key'') \<and>
    (\<forall>p. p \<noteq> crt \<and> p \<noteq> key \<longrightarrow> fs' p = fs p) \<and>
    (is_ok r \<longrightarrow> (\<exists>ca caKey vpnIP groups pub dur node m priv b m'.
      Sign (teX509 E) (teEd25519 E) (teRandInt E) (teNow E) ca name vpnIP groups pub dur caKey = Inr node \<and>
      fs' crt = Some (PEM (teX509 E) node, m) \<and> fs' key = Some (b, m') \<and>
      ParseX25519PrivateKey (teX509 E) b = Inr priv \<and> X25519Base (teX509 E) priv = Some pub \<and>
      m' AND 0x3F = (case fs key of None \<Rightarrow> 0 | Some (_, m0) \<Rightarrow> m0 AND 0x3F))))"
proof (cases r)
  case (Inl e)
  with cmdSign_frame [OF assms(2)] show ?thesis by (cases "fs' = fs") auto
next
  case (Inr out)
  from cmdSign_Inr [OF assms(2) [unfolded Inr]] obtain vals rest vpnIP ca caKey priv pub node keyPEM m dir name where
    v: "signFlags E args = Inr (vals, rest)" "dir = str_flag vals ''out-dir'' ''.''" "name = str_flag vals ''name'' []" and
    k: "GenerateX25519KeyPair (teX509 E) (teRandom E) = Inr (priv, pub)"
      "Sign (teX509 E) (teEd25519 E) (teRandInt E) (teNow E) ca name vpnIP (groupList (str_flag vals ''groups'' [])) pub
        (dur_flag (teDuration E) vals ''duration'' year) caKey = Inr node"
      "MarshalX25519PrivateKey (teX509 E) priv = Inr keyPEM"
      "fs' = fs(Join dir (name @ ''.crt'') \<mapsto> (PEM (teX509 E) node, m),
         Join dir (name @ ''.key'') \<mapsto> (keyPEM,
           case fs (Join dir (name @ ''.key'')) of None \<Rightarrow> keyMode AND NOT (teUmask E) | Some (_, m) \<Rightarrow> m))"
    unfolding Let_def by blast
  from k(1) have base: "X25519Base (teX509 E) priv = Some pub" by (auto simp: GenerateX25519KeyPair_def Let_def split: option.splits)
  let ?crt = "Join dir (name @ ''.crt'')" and ?key = "Join dir (name @ ''.key'')"
  let ?mode = "case fs ?key of None \<Rightarrow> keyMode AND NOT (teUmask E) | Some (_, m) \<Rightarrow> m"
  have "fs' ?crt = Some (PEM (teX509 E) node, m)" "fs' ?key = Some (keyPEM, ?mode)"
    by (simp_all add: k(4) Join_crt_key)
  moreover have "?mode AND 0x3F = (case fs ?key of None \<Rightarrow> 0 | Some (_, m0) \<Rightarrow> m0 AND 0x3F)"
    by (simp add: key_mode_private split: option.split)
  ultimately have f: "\<exists>ca caKey vpnIP groups pub dur node m priv b m'.
      Sign (teX509 E) (teEd25519 E) (teRandInt E) (teNow E) ca name vpnIP groups pub dur caKey = Inr node \<and>
      fs' ?crt = Some (PEM (teX509 E) node, m) \<and> fs' ?key = Some (b, m') \<and>
      ParseX25519PrivateKey (teX509 E) b = Inr priv \<and> X25519Base (teX509 E) priv = Some pub \<and>
      m' AND 0x3F = (case fs ?key of None \<Rightarrow> 0 | Some (_, m0) \<Rightarrow> m0 AND 0x3F)"
    using k(2) X25519_key_file [OF assms(1) k(3)] base by metis
  have "\<forall>p. p \<noteq> ?crt \<and> p \<noteq> ?key \<longrightarrow> fs' p = fs p" by (simp add: k(4))
  with f v show ?thesis by (intro disjI2 exI conjI) (assumption | rule refl impI)+
qed

theorem cmdSign_effects_witness:
  "\<exists>fs fs' out b m priv. cmdSign sample_tool_env sample_sign_args fs = (Inr out, fs') \<and>
    (\<forall>p. p \<noteq> ''node.crt'' \<and> p \<noteq> ''node.key'' \<longrightarrow> fs' p = fs p) \<and>
    fs' ''node.key'' = Some (b, m) \<and> ParseX25519PrivateKey sample_tool_lib b = Inr priv"
proof -
  from sample_ca_made sample_node_signed obtain fs out fs' where s: "cmdSign sample_tool_env sample_sign_args fs = (Inr out, fs')" by blast
  have e: "teX509 sample_tool_env = sample_tool_lib" by (simp add: sample_tool_env_def)
  have f: "signFlags sample_tool_env sample_sign_args =
      Inr ([''ca-crt'' \<mapsto> Join ''.'' (''ca'' @ ''.crt''), ''ca-key'' \<mapsto> Join ''.'' (''ca'' @ ''.key''), ''name'' \<mapsto> ''node'',
        ''ip'' \<mapsto> ''10.0.0.1/24'', ''groups'' \<mapsto> ''web'', ''duration'' \<mapsto> ''2s'', ''out-dir'' \<mapsto> ''.''], [])"
    unfolding sample_sign_args_def by (rule parse_sign_args) (simp add: sample_tool_env_def)
  have j: "Join ''.'' (''node'' @ ''.crt'') = ''node.crt''" "Join ''.'' (''node'' @ ''.key'') = ''node.key''" by code_simp+
  let ?vals = "[''ca-crt'' \<mapsto> Join ''.'' (''ca'' @ ''.crt''), ''ca-key'' \<mapsto> Join ''.'' (''ca'' @ ''.key''), ''name'' \<mapsto> ''node'',
        ''ip'' \<mapsto> ''10.0.0.1/24'', ''groups'' \<mapsto> ''web'', ''duration'' \<mapsto> ''2s'', ''out-dir'' \<mapsto> ''.'']"
  have v: "str_flag ?vals ''out-dir'' ''.'' = ''.''" "str_flag ?vals ''name'' [] = ''node''" by (simp_all add: str_flag_def)
  from cmdSign_effects [OF _ s, unfolded e, OF sample_tool_laws(1)] obtain vals rest where
    "signFlags sample_tool_env sample_sign_args = Inr (vals, rest)" and
    c: "\<forall>p. p \<noteq> Join (str_flag vals ''out-dir'' ''.'') (str_flag vals ''name'' [] @ ''.crt'') \<and>
        p \<noteq> Join (str_flag vals ''out-dir'' ''.'') (str_flag vals ''name'' [] @ ''.key'') \<longrightarrow> fs' p = fs p"
      "\<exists>b m priv. fs' (Join (str_flag vals ''out-dir'' ''.'') (str_flag vals ''name'' [] @ ''.key'')) = Some (b, m) \<and>
        ParseX25519PrivateKey sample_tool_lib b = Inr priv"
    by (elim disjE exE conjE) (erule notE, rule is_ok_simps, hypsubst, drule mp, rule is_ok_simps, blast)
  then have "vals = ?vals" unfolding f by (simp only: sum.inject prod.inject)
  from c [unfolded this v j] s show ?thesis by blast
qed

text \<open>
  C15: a certificate's life.  A CA is created, a node's certificate is signed with the files that left,
  and the node's daemon loads its identity from the two directories: it starts, at any moment in the
  validity of both certificates, with the address, groups and name that were asked for, as long as the
  node's certificate was not written over the CA's and does not share both its name and the generated key with it.
\<close>
theorem certificate_lifecycle:
  assumes "pem_inverse L" "pkcs8_inverse L k" "issues_template L" "ca_validates L"
    and "teX509 E = L" "teX509 E' = L" "teEd25519 E = Some (ed25519_Public k, k)"
    and "cmdCA E [''--name'', ca, ''--duration'', d, ''--out-dir'', dir] fs = (Inr out, fs1)" "teDuration E d = Some dur"
    and "cmdSign E' [''--ca-crt'', Join dir (ca @ ''.crt''), ''--ca-key'', Join dir (ca @ ''.key''), ''--name'', name, ''--ip'', ip,
        ''--groups'', groups, ''--duration'', d', ''--out-dir'', dir'] fs1 = (Inr out', fs2)" "teDuration E' d' = Some dur'"
    and "Join dir' (name @ ''.crt'') \<noteq> Join dir (ca @ ''.crt'')" "groups_fit (groupList groups)"
    and "\<forall>t \<in> {t1, t2}. teNow E \<le> t \<and> teNow E' \<le> t \<and> t + 1000000000 \<le> teNow E + dur \<and> t + 1000000000 \<le> teNow E' + dur'"
    and "name \<noteq> ca \<or> map_option fst (teEd25519 E') \<noteq> Some (ed25519_Public k)"
  shows "\<exists>pki. LoadPKI L (read_file fs2) t1 t2
      \<lparr>pkiCA = Join dir (ca @ ''.crt''), pkiCert = Join dir' (name @ ''.crt''), pkiKey = Join dir' (name @ ''.key''), pkiPeersDir = peers\<rparr> =
      Inr pki \<and>
    ParsePrefix ip = Some (VpnIP (NodeCert pki)) \<and> Groups (NodeCert pki) = groupList groups \<and> Name (NodeCert pki) = name"
proof -
  from assms(8,9) obtain c caKey caKeyPEM m m' where
    ca: "GenerateCA L (Some (ed25519_Public k, k)) (teRandInt E) (teNow E) ca dur = Inr (c, caKey)"
      "MarshalEd25519PrivateKey L caKey = Inr caKeyPEM"
      "fs1 = fs(Join dir (ca @ ''.crt'') \<mapsto> (PEM L c, m), Join dir (ca @ ''.key'') \<mapsto> (caKeyPEM, m'))"
    unfolding assms(5,7) [symmetric] by (rule cmdCA_InrE)
  from assms(10,11) obtain vpnIP c' caKey' priv pub node keyPEM n n' where
    si: "ParsePrefix ip = Some vpnIP" "loadIssuer E' fs1 (Join dir (ca @ ''.crt'')) (Join dir (ca @ ''.key'')) = Inr (c', caKey')"
      "GenerateX25519KeyPair L (teRandom E') = Inr (priv, pub)"
      "Sign L (teEd25519 E') (teRandInt E') (teNow E') c' name vpnIP (groupList groups) pub dur' caKey' = Inr node"
      "MarshalX25519PrivateKey L priv = Inr keyPEM"
      "fs2 = fs1(Join dir' (name @ ''.crt'') \<mapsto> (PEM L node, n), Join dir' (name @ ''.key'') \<mapsto> (keyPEM, n'))"
    unfolding assms(6) [symmetric] by (rule cmdSign_files)
  from ca(1) obtain serial der where der: "caKey = Ed25519Key k" "parseDER L der = Inr c"
    "CreateCertificate L (ca_template serial ca (teNow E) dur) None (ed25519_Public k) (Ed25519Key k) = Some der"
    by (rule GenerateCA_InrE)
  let ?t = "ca_template serial ca (teNow E) dur"
  have sca: "signing_ca L ?t k (certX509 c)"
    using der(3) parseDER_frame [OF der(2)] by (auto simp: signing_ca_def ca_template_def)
  have t: "in_date ?t t" if "t \<in> {t1, t2}" for t using assms(14) that by (auto simp: in_date_def ca_template_def)
  have "read_file fs1 (Join dir (ca @ ''.crt'')) = Some (PEM L c)" "read_file fs1 (Join dir (ca @ ''.key'')) = Some caKeyPEM"
    by (simp_all add: ca(3) read_file_def Join_crt_key)
  with loadIssuer_Inr [OF si(2)] PEM_roundtrip [OF assms(1) der(2)] Ed25519_key_file [OF assms(1,2) ca(2) [unfolded der(1)]]
  have issuer: "c' = c" "caKey' = Ed25519Key k" "IsCA c" by (auto simp: assms(6))
  note sign = si(4) [unfolded issuer(1,2)]
  from ParsePrefix_form [OF si(1)] obtain a b where "vpnIP = PrefixFrom a b" "IsValid vpnIP" by blast
  with Sign_reads_back [OF assms(3), of "teEd25519 E'"] sign assms(13)
  have node: "VpnIP node = vpnIP" "Groups node = groupList groups" "X25519PublicKey node = pub" "Name node = name" "\<not> IsCA node"
    by blast+
  have "loadAndParseCA L (read_file fs2) t1 (Join dir (ca @ ''.crt'')) = Inr c"
    unfolding loadAndParseCA_Inr using PEM_roundtrip [OF assms(1) der(2)] issuer(3) ca_self_valid [OF assms(4) sca t [of t1]]
    by (simp add: si(6) ca(3) read_file_def Join_crt_key assms(12) [symmetric])
  moreover from Sign_InrE [OF sign] obtain der' where "parseDER L der' = Inr node" by blast
  note PEM_roundtrip [OF assms(1) this]
  then have "loadAndParseNodeCert L (read_file fs2) t2 (Join dir' (name @ ''.crt'')) c = Inr node"
    unfolding loadAndParseNodeCert_Inr using node(5) issued_valid [OF assms(4) sca sign t [of t2]] assms(14,15)
    by (auto simp: si(6) read_file_def Join_crt_key ca_template_def)
  moreover have "loadAndVerifyKey L (read_file fs2) (Join dir' (name @ ''.key'')) node = Inr priv"
    unfolding loadAndVerifyKey_Inr using X25519_key_file [OF assms(1) si(5)] si(3) node(3)
    by (auto simp: si(6) read_file_def GenerateX25519KeyPair_def Let_def split: option.splits)
  ultimately show ?thesis using si(1) node by (simp add: LoadPKI_def)
qed

theorem certificate_lifecycle_witness:
  "\<exists>fs pki. LoadPKI sample_tool_lib (read_file fs) 5 6
     \<lparr>pkiCA = Join ''.'' (''ca'' @ ''.crt''), pkiCert = Join ''.'' (''node'' @ ''.crt''), pkiKey = Join ''.'' (''node'' @ ''.key''), pkiPeersDir = []\<rparr> =
     Inr pki \<and> Groups (NodeCert pki) = groupList ''web'' \<and> Name (NodeCert pki) = ''node''"
proof -
  from sample_ca_made obtain out fs where ca: "cmdCA sample_tool_env sample_ca_args Map.empty = (Inr out, fs)" by blast
  from sample_node_signed [OF ca] obtain out' fs' where s: "cmdSign sample_tool_env sample_sign_args fs = (Inr out', fs')" by blast
  have e: "teX509 sample_tool_env = sample_tool_lib" "teDuration sample_tool_env ''2s'' = Some 2000000000"
    "teEd25519 sample_tool_env = Some (ed25519_Public (replicate 64 0), replicate 64 0)"
    by (simp_all add: sample_tool_env_def ed25519_Public_def)
  have g: "groups_fit (groupList ''web'')" using sample_groups_fit by (simp add: sample_groupList)
  have j: "Join ''.'' (''node'' @ ''.crt'') \<noteq> Join ''.'' (''ca'' @ ''.crt'')" by code_simp
  have t: "\<forall>t \<in> {5, 6}. teNow sample_tool_env \<le> t \<and> teNow sample_tool_env \<le> t \<and>
      t + 1000000000 \<le> teNow sample_tool_env + 2000000000 \<and> t + 1000000000 \<le> teNow sample_tool_env + 2000000000"
    by (simp add: sample_tool_env_def)
  from certificate_lifecycle [OF sample_tool_laws e(1) e(1) e(3) ca [unfolded sample_ca_args_def] e(2)
      s [unfolded sample_sign_args_def] e(2) j g t, of "[]"]
  show ?thesis by blast
qed

text \<open>
  C36: a CA of another key type crashes the signing command.  The code asserts the type of the CA's public
  key before the check that was to tolerate other types, so with a readable CA certificate whose key is
  not Ed25519, and any Ed25519 key file, the command panics and writes nothing.
\<close>
theorem cmdSign_panics_on_other_ca:
  assumes "read_file fs crt = Some b" "ParseCert (teX509 E) b = Inr ca" "IsCA ca" "xPublicKey (certX509 ca) = OtherPublic t"
    and "read_file fs key = Some b'" "ParseEd25519PrivateKey (teX509 E) b' = Inr (Ed25519Key k)"
    and "crt \<noteq> []" "key \<noteq> []" "name \<noteq> []" "ParsePrefix ip = Some p" "teDuration E d = Some dur"
  shows "neth_cert_main E [''sign'', ''--ca-crt'', crt, ''--ca-key'', key, ''--name'', name, ''--ip'', ip, ''--groups'', groups,
    ''--duration'', d, ''--out-dir'', dir] fs = (2, [], fs)"
proof -
  have l: "loadIssuer E fs crt key = Inl (ToolTypeAssertion t)" using assms(1-6) by (simp add: loadIssuer_def)
  have ip: "ip \<noteq> []" using assms(10) by (auto simp: ParsePrefix_def)
  have "teDuration E d \<noteq> None" using assms(11) by simp
  note f = parse_sign_args [of "teDuration E", OF this, of crt key name ip groups dir]
  have "cmdSign E [''--ca-crt'', crt, ''--ca-key'', key, ''--name'', name, ''--ip'', ip, ''--groups'', groups,
    ''--duration'', d, ''--out-dir'', dir] fs = (Inl (ToolTypeAssertion t), fs)"
    unfolding cmdSign_def f sum.case prod.case Let_def str_flag_def using ip assms(7-10) l by simp
  then show ?thesis by (simp add: neth_cert_main_def exit_code_def)
qed

text \<open>A library whose only certificate is a CA with an RSA key.\<close>

definition sample_rsa_env :: tool_env where
  "sample_rsa_env = sample_tool_env\<lparr>teX509 := sample_tool_lib\<lparr>ParseCertificate := (\<lambda>_.
     Some \<lparr>xIsCA = True, xCommonName = ''ca'', xExtensions = [], xSignature = [], xPublicKey = OtherPublic ''*rsa.PublicKey'',
       xNotBefore = 0, xNotAfter = 100\<rparr>)\<rparr>\<rparr>"

theorem cmdSign_panics_on_other_ca_witness:
  "neth_cert_main sample_rsa_env [''sign'', ''--ca-crt'', ''a'', ''--ca-key'', ''b'', ''--name'', ''n'', ''--ip'', ''10.0.0.1/24'', ''--groups'', [],
     ''--duration'', ''1h'', ''--out-dir'', ''.''] [''a'' \<mapsto> ([0, 3], 0), ''b'' \<mapsto> ([1, 7], 0)] = (2, [], [''a'' \<mapsto> ([0, 3], 0), ''b'' \<mapsto> ([1, 7], 0)])"
proof -
  let ?x = "\<lparr>xIsCA = True, xCommonName = ''ca'', xExtensions = [], xSignature = [], xPublicKey = OtherPublic ''*rsa.PublicKey'',
       xNotBefore = 0, xNotAfter = 100\<rparr>"
  let ?c = "\<lparr>certRaw = [3], certX509 = ?x, VpnIP = PrefixZero, Groups = [], X25519PublicKey = []\<rparr>"
  have "ParseCert (teX509 sample_rsa_env) [0, 3] = Inr ?c" "ParseEd25519PrivateKey (teX509 sample_rsa_env) [1, 7] = Inr (Ed25519Key [7])"
    "teDuration sample_rsa_env ''1h'' = Some 2000000000"
    by (simp_all add: sample_rsa_env_def sample_tool_env_def sample_tool_lib_def sample_lib_def ParseCert_def parseDER_def
        ParseEd25519PrivateKey_def)
  moreover have "ParsePrefix ''10.0.0.1/24'' = Some (PrefixFrom (Addr4 0x0A000001) 24)" by code_simp
  ultimately show ?thesis
    by (intro cmdSign_panics_on_other_ca [where b = "[0, 3]" and ca = ?c and b' = "[1, 7]" and k = "[7]" and t = "''*rsa.PublicKey''"])
      (simp_all add: read_file_def IsCA_def)
qed

end
