(* ===== verification/Spec2Isabelle.thy ===== *)
theory Spec2Isabelle
  imports Neth_Network Neth_Schedules Neth_Admission Neth_Attacks Neth_Expiry Neth_Daemon Neth_CertTool
begin

text \<open>
  Neth, an encrypted overlay network: a daemon \<^verbatim>\<open>nethd\<close> that carries IP packets between nodes over
  authenticated UDP tunnels, and a tool \<^verbatim>\<open>neth-cert\<close> that issues the nodes' certificates.

  \<^bold>\<open>The program.\<close>  A packet read from the TUN device (\<^verbatim>\<open>tun/tun.go\<close>) goes through \<open>consumeInsidePacket\<close>
  (\<^verbatim>\<open>interface.go\<close>): the outbound firewall (\<^verbatim>\<open>firewall/\<close>), then the host map (\<^verbatim>\<open>hostmap.go\<close>).  With a
  session it is sealed (\<^verbatim>\<open>noiseutil/aead.go\<close>) behind a 16-byte header (\<^verbatim>\<open>header/header.go\<close>) and sent;
  without one the handshake manager (\<^verbatim>\<open>handshake_manager.go\<close>, \<^verbatim>\<open>handshake/\<close>) starts a Noise handshake and
  queues the packet, or the lighthouse (\<^verbatim>\<open>lighthouse.go\<close>, \<^verbatim>\<open>punchy.go\<close>) is asked where the peer is.  A
  datagram goes through \<open>consumeOutsidePacket\<close>, which dispatches on the header's type; data passes the replay
  window, decryption and the inbound firewall before it is written to the TUN device.  Identity comes from
  certificates (\<^verbatim>\<open>cert/\<close>, \<^verbatim>\<open>pki.go\<close>), settings from \<^verbatim>\<open>config/config.go\<close>; \<^verbatim>\<open>cmd/nethd\<close> starts and stops it all.

  \<^bold>\<open>The theories.\<close>
  \<^item> \<open>Neth_Prelude\<close>: result type, byte-order conversions, slices.  \<open>Neth_Text\<close>, \<open>Neth_Netip\<close>, \<open>Neth_Der\<close>,
    \<open>Neth_Crypto\<close>, \<open>Neth_Cli\<close>: what the program uses of \<^verbatim>\<open>strconv\<close>, \<^verbatim>\<open>strings\<close>, \<^verbatim>\<open>net/netip\<close>, \<^verbatim>\<open>encoding/asn1\<close>,
    SHA-256, HMAC and AES-GCM, \<^verbatim>\<open>flag\<close> and \<^verbatim>\<open>path/filepath\<close>, all executable.
  \<^item> \<open>Neth_Header\<close>: the wire header at its byte layout; a locale of framed packets, interpreted on it.
  \<^item> \<open>Neth_Replay\<close>: the 4096-bit window of \<open>HostInfo\<close> with both in-place shift loops; it refines a set of
    seen counters, through a locale interpreted on \<open>CheckReplay\<close>.
  \<^item> \<open>Neth_HostMap\<close>: sessions on an explicit heap, and the registry by address and by index.
  \<^item> \<open>Neth_Config\<close>, \<open>Neth_Firewall\<close>: configuration, rules, connection tracking and its expiry.
  \<^item> \<open>Neth_Aead\<close>: packet sealing and its nonces.
  \<^item> \<open>Neth_Cert\<close>, \<open>Neth_Pki\<close>: certificate extensions to their DER bytes, issuing, verification, key files
    and the daemon's loading of its identity.
  \<^item> \<open>Neth_Messages\<close>, \<open>Neth_Handshake\<close>, \<open>Neth_HandshakeManager\<close>: protocol messages, the envelope, pending
    handshakes on a heap with two maps, both stages, queueing and retries.
  \<^item> \<open>Neth_LightHouse\<close>: address store, the six message handlers, queries, advertisement, hole punching.
  \<^item> \<open>Neth_Interface\<close>: both packet paths as functions from a state to a state and a list of events; the
    relation \<open>iface_reach\<close> of reachable states.
  \<^item> \<open>Neth_Tun\<close>, \<open>Neth_Udp\<close>: the TUN device's \<^verbatim>\<open>ifreq\<close> requests, the socket and its \<^verbatim>\<open>SO_REUSEPORT\<close> callback,
    and reading, writing and closing both.
  \<^item> \<open>Neth_Loops\<close>: the five goroutines of \<open>Run\<close>, two read loops with their buffers and three ticker loops, and
    the schedules of their steps.
  \<^item> \<open>Neth_Daemon\<close>: construction, shutdown and \<open>run\<close>, with a log of what is opened and closed.
  \<^item> \<open>Neth_CertTool\<close>: the four commands of \<^verbatim>\<open>neth-cert\<close> over a file system with permission bits.
  \<^item> \<open>Neth_WellFormed\<close>: the invariant of all reachable states, and what no input can change.
  \<^item> \<open>Neth_Tunnel\<close>, \<open>Neth_EndToEnd\<close>: established tunnels and tunnels that come up on demand.  \<open>Neth_Pending\<close>,
    \<open>Neth_Nonces\<close>: the account of every packet from a TUN read or a queue to the one datagram
    that seals it.  \<open>Neth_Expiry\<close>: the time an unanswered handshake takes.
    \<open>Neth_Attacks\<close>: what an attacker can do with a certificate, a captured handshake or a test packet.
  \<^item> \<open>Neth_Threads\<close>: the handlers of \<open>Neth_Interface\<close> once more, as threads of the critical sections they
    consist of; \<open>Neth_Discipline\<close>: what each of them keeps to, whatever the others do (\<open>micro\<close>, \<open>disciplined\<close>);
    \<open>Neth_Races\<close>: the relation \<open>conc\<close> of all interleavings, action by action, and their invariant (\<open>conc_inv\<close>);
    \<open>Neth_Schedules\<close>: well-formedness and termination under every schedule, and a schedule that loses a packet; \<open>Neth_Admission\<close>:
    the grounds on which the firewall admits packets, kept by every thread while others change its table (\<open>evolves\<close>, \<open>guarded\<close>); \<open>Neth_Network\<close>:
    two such daemons and a hostile network.  This theory: the daemon as a whole.

  \<^bold>\<open>State and effects.\<close>  A Go struct is a record, a pointer shared between maps a reference into an explicit
  heap, a map a partial function.  A handler takes the state and returns it with the datagrams and packets
  it emits.  Clocks, random draws and the iteration order of Go maps are arguments.  Concurrency is
  modelled at two grains.  In \<open>iface_reach\<close> and \<open>Run_interleaves\<close> a handler runs as a whole, which is what the functional
  statements are about.  The code's locks guarantee less: only a method of one component is atomic, and no lock spans
  a handler.  So the statements on nonces, deliveries, admission by the firewall, conservation of packets, well-formed states
  and termination are proved over \<open>conc\<close>, where a handler is a thread and others may act between any two of its
  critical sections; an uninterrupted thread is the handler (lemma \<open>exec_step\<close>).  One thing stays coarser than the code: the
  lighthouse's work on one message, query or advertisement, which takes its read lock again for each datagram, is one action,
  so the number of actions counts it once.  \<open>conc\<close> allows any number of threads of any kind, more than the five goroutines can have under way.
  Errors are values of sum types, a panic is one of them; 64-bit counters and shifts are machine words.

  \<^bold>\<open>What is shown.\<close>  Traffic: queued and streamed packets arrive unchanged and in order; under every
  interleaving nothing is delivered twice or unless it opens under a session's key, nothing passes the firewall without a rule
  that grants its flow, no nonce repeats, every state is
  well-formed, every handler ends within 103 actions, and what a session delivers was read from the far end's TUN device, each read packet at most once.  Handshakes: two honest nodes agree, a session needs a
  certificate valid under the CA, unanswered handshakes end after three minutes, queues are bounded.  Window: it refines the set of
  accepted counters.  Firewall: the decision is the policy's, denial is the default, flows end.
  Certificates: encodings round-trip, and what the tool issues the daemon loads.  Daemon: it starts only on a
  consistent identity, configures its device with the certificate's network, handles exactly what it reads, stops
  all its loops on cancellation, leaves nothing open, and no input changes its settings.
  Several properties state what an attacker can do (a forged counter, an unauthenticated close or handshake
  response, a replayed initiation, an unsolicited lighthouse reply, a certificate without its key), where a race loses a packet,
  and where the tool crashes or leaves a key file open.

  \<^bold>\<open>Parameters.\<close>  Code outside the repository is an argument: the Noise library \<open>noise_lib\<close>, protobuf
  \<open>proto_lib\<close>, X.509, PEM and curve arithmetic \<open>x509_lib\<close>, the YAML decoder, the kernel \<open>sys\<close> and \<open>udp_sys\<close>, name resolution and
  the network interfaces.  Properties that rely on their documented behaviour name it as a
  hypothesis (\<open>pem_inverse\<close>, \<open>pkcs8_inverse\<close>, \<open>issues_template\<close>, \<open>ca_validates\<close>, \<open>proto_inverse\<close>, the Noise laws), restricted
  to inputs like those the program builds, and the
  sample libraries of the theories satisfy these laws.

  \<^bold>\<open>Bounds.\<close>  No definition uses fuel: every loop is structural or has a termination proof.  Counters are
  64 bits wide, so statements on streams ask for fewer than two to the 64 packets, and the one on nonces for as many
  actions; nothing else is bounded, neither the number of threads nor the length of a run.

  \<^bold>\<open>Not modelled.\<close>  Log output; real time (a ticker loop is a sequence of ticks, with their times where they
  matter); the generated protobuf reflection code; the duration syntax of Go, which uses floating point.
\<close>

section \<open>Properties across components\<close>

text \<open>
  C21: a daemon delivers only what it reads, once.  From the state construction leaves, under any
  interleaving, handler by handler, of the two read loops with the tickers and however often reads fail, no session delivers
  a counter twice, and no more packets reach the TUN device than datagrams were read before the context
  was cancelled.
\<close>
theorem daemon_delivers_what_it_reads:
  fixes iface :: "'hs Interface" and E :: "('hs, 'cs) libs"
  assumes "NewInterface S cfg = (Inr (iface, d, conn), log)" "Run_interleaves d conn (lhInterval (cfgLighthouse cfg)) w ops"
  shows "distinct (map (\<lambda>(r, c, p). (r, c)) (deliveries E ops iface)) \<and>
    map (\<lambda>(r, c, p). p) (deliveries E ops iface) = run_writes E ops iface \<and>
    length (run_writes E ops iface) \<le>
      length (filter got_datagram (takeWhile (goes_on got_datagram) (wUdp w)))"
proof -
  have "iface_reach E iface" using NewInterface_state [OF assms(1)] by (blast intro: reach_init)
  from iface_reach_sessions [OF this] obtain M where
    ok: "hm_ok (ifHosts iface) (ifHostmap iface)" "remembering (ifHosts iface) M" by blast
  have "filter (\<lambda>op. op_loop op = 4) ops = udp_turns (wUdp w)"
    using assms(2) NewInterface_state [OF assms(1)] by (simp add: Run_interleaves_def read_loops_eq)
  with run_writes_bound [OF ok(1), of E ops] deliveries_unseen [OF ok, of E ops] show ?thesis
    by (simp add: udp_turns_def)
qed

theorem daemon_delivers_what_it_reads_witness:
  "\<exists>(iface :: nat Interface) d conn log. NewInterface sample_start sample_config = (Inr (iface, d, conn), log) \<and>
    length (run_writes sample_libs [AdvertiseTick, FromUdp (sample_in 1) [1] sample_src] iface) \<le> 1"
proof -
  let ?u = "\<lparr>tCancelled = False, tClosed = False, tRead = Some ([1 :: byte], sample_src), tCancelledAfter = False, tInput = sample_in 1\<rparr>"
  let ?w = "\<lparr>wTun = [], wUdp = [?u], wRetry = [], wAdvertise = [], wExpiry = []\<rparr>"
  let ?ops = "[AdvertiseTick, FromUdp (sample_in 1) [1] sample_src]"
  obtain r log where r: "NewInterface sample_start sample_config = (r :: (init_error, nat Interface \<times> Device \<times> Conn) res, log)"
    by (cases "NewInterface sample_start sample_config :: (init_error, nat Interface \<times> Device \<times> Conn) res \<times> res_event list")
  with sample_opens [where 'a = nat] obtain iface d conn where i: "r = Inr (iface, d, conn)" by (cases r) (auto simp: is_ok_def)
  have "Run_interleaves d conn (lhInterval (cfgLighthouse sample_config)) ?w ?ops"
    using advertiseInterval_pos [of "lhInterval (cfgLighthouse sample_config)"] NewInterface_state [OF r [unfolded i]]
    by (simp add: Run_interleaves_def loop_defs read_loops_eq tun_turns_def udp_turns_def goes_on_def got_datagram_def udpReadBufSize_def
        millisecond_def second_def)
  from daemon_delivers_what_it_reads [OF r [unfolded i] this, of sample_libs]
  have "length (run_writes sample_libs ?ops iface) \<le> 1" by (simp add: goes_on_def got_datagram_def)
  with r [unfolded i] show ?thesis by blast
qed

end
